(* ===== verification/Prelude.thy ===== *)
theory Prelude
  imports Main "HOL-Library.Word"
begin

text \<open>
  Shared vocabulary of the development.

  \<^item> Machine data: bytes, Rust strings (as lists of Unicode scalar values), the big-endian
    encodings of \<open>to_be_bytes\<close> / \<open>from_be_bytes\<close>, and UTF-8 as \<open>str::as_bytes\<close> and
    \<open>String::from_utf8\<close> use it.
  \<^item> The outcome of a Rust call, \<open>res\<close>: a value, an error, a panic, or no return within the
    fuel given to a loop of the model.
  \<^item> Stateful code as functions from a state to an outcome and a state, sequenced by \<open>bnd\<close>
    (the \<open>?\<close> operator) and \<open>handle\<close> (\<open>let Ok(x) = e else\<close> and \<open>match\<close> on a \<open>Result\<close>), with
    the weakest precondition \<open>wp\<close> the proofs use.
\<close>

named_theorems wp_rules \<open>computation rules of the weakest precondition\<close>
named_theorems preserves_intros \<open>programs that keep an invariant of the state\<close>
named_theorems tame_intros \<open>programs that return and never turn the clock back\<close>
named_theorems apart_intros \<open>programs that leave a part of the state alone\<close>

lemma distinct_map_finer:
  assumes "distinct (map f xs)" "\<And>x y. g x = g y \<Longrightarrow> f x = f y"
  shows "distinct (map g xs)"
  using assms(1) unfolding distinct_map inj_on_def by (meson assms(2))

section \<open>Bytes and strings\<close>

type_synonym byte = "8 word"
type_synonym bytes = "byte list"
type_synonym u16 = "16 word"
type_synonym u32 = "32 word"
type_synonym u64 = "64 word"

text \<open>A Rust \<open>String\<close> is the list of its \<open>char\<close>s, each its Unicode scalar value.\<close>

type_synonym ustr = "nat list"

definition lit :: "string \<Rightarrow> ustr" where
  "lit s = map of_char s"

definition blit :: "string \<Rightarrow> bytes" where
  "blit s = map of_char s"

lemma length_lit [simp]: "length (lit s) = length s"
  by (simp add: lit_def)

lemma length_blit [simp]: "length (blit s) = length s"
  by (simp add: blit_def)

subsection \<open>Big-endian integers\<close>

text \<open>\<open>be_bytes k n\<close> is the last \<open>k\<close> base-256 digits of \<open>n\<close>, most significant first: what
  \<open>to_be_bytes\<close> gives for an unsigned integer of \<open>k\<close> bytes.\<close>

primrec be_bytes :: "nat \<Rightarrow> nat \<Rightarrow> bytes" where
  "be_bytes 0 n = []"
| "be_bytes (Suc k) n = be_bytes k (n div 256) @ [of_nat (n mod 256)]"

definition be_nat :: "bytes \<Rightarrow> nat" where
  "be_nat bs = foldl (\<lambda>a b. a * 256 + unat b) 0 bs"

lemma length_be_bytes [simp]: "length (be_bytes k n) = k"
  by (induction k arbitrary: n) auto

lemma be_nat_Nil [simp]: "be_nat [] = 0"
  by (simp add: be_nat_def)

lemma be_nat_snoc [simp]: "be_nat (bs @ [b]) = be_nat bs * 256 + unat b"
  by (simp add: be_nat_def)

lemma unat_byte_less [simp]: "unat (b :: byte) < 256"
  using unsigned_less [of b, where ?'a = nat] by simp

lemma unat_of_nat_byte [simp]: "unat (of_nat (n mod 256) :: byte) = n mod 256"
  by (simp add: unat_of_nat)

lemma be_nat_be_bytes: "be_nat (be_bytes k n) = n mod 256 ^ k"
proof (induction k arbitrary: n)
  case (Suc k)
  have "n mod 256 ^ Suc k = 256 * (n div 256 mod 256 ^ k) + n mod 256"
    by (simp add: mod_mult2_eq)
  with Suc show ?case by simp
qed simp

lemma be_bytes_be_nat: "be_bytes (length bs) (be_nat bs) = bs"
proof (induction bs rule: rev_induct)
  case (snoc b bs)
  have "(be_nat bs * 256 + unat b) div 256 = be_nat bs"
    using unat_byte_less [of b] by simp
  moreover have "(of_nat ((be_nat bs * 256 + unat b) mod 256) :: byte) = b"
    using unat_byte_less [of b] by simp
  ultimately show ?case using snoc by simp
qed simp

lemma be_nat_less: "be_nat bs < 256 ^ length bs"
proof (induction bs rule: rev_induct)
  case (snoc b bs)
  have "be_nat bs * 256 + unat b < be_nat bs * 256 + 256"
    using unat_byte_less [of b] by simp
  also have "\<dots> \<le> 256 ^ length bs * 256"
    using snoc by simp
  finally show ?case by (simp add: mult.commute)
qed simp

lemma be_bytes_inject:
  assumes "be_bytes k m = be_bytes k n" "m < 256 ^ k" "n < 256 ^ k"
  shows "m = n"
  using assms by (metis be_nat_be_bytes mod_less)

text \<open>The integers the code writes: \<open>u16\<close>, \<open>u32\<close> and \<open>u64\<close>.\<close>

definition u16_be :: "u16 \<Rightarrow> bytes" where
  "u16_be w = be_bytes 2 (unat w)"

definition u64_be :: "u64 \<Rightarrow> bytes" where
  "u64_be w = be_bytes 8 (unat w)"

definition u64_from_be :: "bytes \<Rightarrow> u64" where
  "u64_from_be bs = of_nat (be_nat bs)"

definition u32_from_be :: "bytes \<Rightarrow> u32" where
  "u32_from_be bs = of_nat (be_nat bs)"

lemma length_u16_be [simp]: "length (u16_be w) = 2"
  by (simp add: u16_be_def)

lemma length_u64_be [simp]: "length (u64_be w) = 8"
  by (simp add: u64_be_def)

lemma u64_from_be_u64_be [simp]: "u64_from_be (u64_be w) = w"
proof -
  have "unat w < 256 ^ 8" using unsigned_less [of w, where ?'a = nat] by simp
  then show ?thesis by (simp add: u64_from_be_def u64_be_def be_nat_be_bytes)
qed

lemma u64_be_u64_from_be: "length bs = 8 \<Longrightarrow> u64_be (u64_from_be bs) = bs"
proof -
  assume l: "length bs = 8"
  then have "be_nat bs < 2 ^ 64" using be_nat_less [of bs] by simp
  then have "unat (of_nat (be_nat bs) :: u64) = be_nat bs"
    by (simp add: unat_of_nat)
  with l show ?thesis
    using be_bytes_be_nat [of bs] by (simp add: u64_be_def u64_from_be_def)
qed

lemma u64_be_inject [simp]: "u64_be a = u64_be b \<longleftrightarrow> a = b"
  by (metis u64_from_be_u64_be)

lemma u16_be_inject [simp]: "u16_be a = u16_be b \<longleftrightarrow> a = b"
proof
  assume eq: "u16_be a = u16_be b"
  have "unat a < 256 ^ 2" "unat b < 256 ^ 2"
    using unsigned_less [of a, where ?'a = nat] unsigned_less [of b, where ?'a = nat] by simp_all
  with eq have "unat a = unat b"
    unfolding u16_be_def by (rule be_bytes_inject)
  then show "a = b" by (simp only: word_unat_eq_iff)
qed simp


subsection \<open>UTF-8\<close>

text \<open>\<open>char\<close> holds a Unicode scalar value: any code point but the surrogates.\<close>

definition is_scalar :: "nat \<Rightarrow> bool" where
  "is_scalar c \<longleftrightarrow> c < 0xD800 \<or> (0xE000 \<le> c \<and> c < 0x110000)"

definition valid_str :: "ustr \<Rightarrow> bool" where
  "valid_str s \<longleftrightarrow> list_all is_scalar s"

definition byte_of :: "nat \<Rightarrow> byte" where
  "byte_of n = of_nat n"

lemma unat_byte_of [simp]: "n < 256 \<Longrightarrow> unat (byte_of n) = n"
  by (simp add: byte_of_def unat_of_nat)

definition utf8_char :: "nat \<Rightarrow> bytes" where
  "utf8_char c =
     (if c < 0x80 then [byte_of c]
      else if c < 0x800 then [byte_of (0xC0 + c div 64), byte_of (0x80 + c mod 64)]
      else if c < 0x10000 then
        [byte_of (0xE0 + c div 4096), byte_of (0x80 + c div 64 mod 64), byte_of (0x80 + c mod 64)]
      else [byte_of (0xF0 + c div 262144), byte_of (0x80 + c div 4096 mod 64),
            byte_of (0x80 + c div 64 mod 64), byte_of (0x80 + c mod 64)])"

text \<open>\<open>str::as_bytes\<close>.\<close>

definition as_bytes :: "ustr \<Rightarrow> bytes" where
  "as_bytes s = concat (map utf8_char s)"

text \<open>A continuation byte is \<open>10xxxxxx\<close>; \<open>cont\<close> gives its six bits.\<close>

definition is_cont :: "byte \<Rightarrow> bool" where
  "is_cont b \<longleftrightarrow> 0x80 \<le> unat b \<and> unat b < 0xC0"

definition cont :: "byte \<Rightarrow> nat" where
  "cont b = unat b - 0x80"

text \<open>One step of the strict decoder behind \<open>String::from_utf8\<close>: the first character and the
  rest of the input. Overlong forms, surrogates and values past \<open>U+10FFFF\<close> are refused.\<close>

fun utf8_step :: "bytes \<Rightarrow> (nat \<times> bytes) option" where
  "utf8_step [] = None"
| "utf8_step (b # r) =
     (if unat b < 0x80 then Some (unat b, r)
      else if 0xC2 \<le> unat b \<and> unat b < 0xE0 then
        (case r of b1 # r1 \<Rightarrow>
           if is_cont b1 then Some ((unat b - 0xC0) * 64 + cont b1, r1) else None
         | _ \<Rightarrow> None)
      else if 0xE0 \<le> unat b \<and> unat b < 0xF0 then
        (case r of b1 # b2 # r2 \<Rightarrow>
           let c = (unat b - 0xE0) * 4096 + cont b1 * 64 + cont b2
           in if is_cont b1 \<and> is_cont b2 \<and> 0x800 \<le> c \<and> is_scalar c then Some (c, r2) else None
         | _ \<Rightarrow> None)
      else if 0xF0 \<le> unat b \<and> unat b < 0xF5 then
        (case r of b1 # b2 # b3 # r3 \<Rightarrow>
           let c = (unat b - 0xF0) * 262144 + cont b1 * 4096 + cont b2 * 64 + cont b3
           in if is_cont b1 \<and> is_cont b2 \<and> is_cont b3 \<and> 0x10000 \<le> c \<and> is_scalar c
              then Some (c, r3) else None
         | _ \<Rightarrow> None)
      else None)"

lemma utf8_step_shorter: "utf8_step bs = Some (c, r) \<Longrightarrow> length r < length bs"
  by (cases bs) (auto simp: Let_def split: if_splits list.splits)

function from_utf8 :: "bytes \<Rightarrow> ustr option" where
  "from_utf8 bs =
     (if bs = [] then Some []
      else case utf8_step bs of None \<Rightarrow> None
        | Some (c, r) \<Rightarrow> map_option (Cons c) (from_utf8 r))"
  by pat_completeness auto
termination
  by (relation "measure length") (auto dest: utf8_step_shorter)

declare from_utf8.simps [simp del]

lemma cont_byte_of:
  assumes "n < 64"
  shows "is_cont (byte_of (0x80 + n))" "cont (byte_of (0x80 + n)) = n"
  using assms by (simp_all add: is_cont_def cont_def)

lemma utf8_step_2:
  "0xC2 \<le> unat b \<Longrightarrow> unat b < 0xE0 \<Longrightarrow> is_cont b1 \<Longrightarrow>
   utf8_step (b # b1 # r) = Some ((unat b - 0xC0) * 64 + cont b1, r)"
  by simp

lemma utf8_step_3:
  "0xE0 \<le> unat b \<Longrightarrow> unat b < 0xF0 \<Longrightarrow> is_cont b1 \<Longrightarrow> is_cont b2 \<Longrightarrow>
   (unat b - 0xE0) * 4096 + cont b1 * 64 + cont b2 = c \<Longrightarrow> 0x800 \<le> c \<Longrightarrow> is_scalar c \<Longrightarrow>
   utf8_step (b # b1 # b2 # r) = Some (c, r)"
  by (auto simp: Let_def)

lemma utf8_step_4:
  "0xF0 \<le> unat b \<Longrightarrow> unat b < 0xF5 \<Longrightarrow> is_cont b1 \<Longrightarrow> is_cont b2 \<Longrightarrow> is_cont b3 \<Longrightarrow>
   (unat b - 0xF0) * 262144 + cont b1 * 4096 + cont b2 * 64 + cont b3 = c \<Longrightarrow>
   0x10000 \<le> c \<Longrightarrow> is_scalar c \<Longrightarrow>
   utf8_step (b # b1 # b2 # b3 # r) = Some (c, r)"
  by (auto simp: Let_def)

lemma utf8_digits:
  fixes c :: nat
  shows "c div 64 * 64 + c mod 64 = c"
    and "c div 4096 * 4096 + c div 64 mod 64 * 64 + c mod 64 = c"
    and "c div 262144 * 262144 + c div 4096 mod 64 * 4096 + c div 64 mod 64 * 64 + c mod 64 = c"
proof -
  have q: "c div 4096 = c div 64 div 64" "c div 262144 = c div 64 div 64 div 64"
    by (simp_all flip: div_mult2_eq)
  have d: "c div 64 * 64 + c mod 64 = c" "c div 64 div 64 * 64 + c div 64 mod 64 = c div 64"
    "c div 64 div 64 div 64 * 64 + c div 64 div 64 mod 64 = c div 64 div 64"
    by (rule div_mult_mod_eq)+
  show "c div 64 * 64 + c mod 64 = c" by (rule d)
  show "c div 4096 * 4096 + c div 64 mod 64 * 64 + c mod 64 = c"
    unfolding q using d by linarith
  show "c div 262144 * 262144 + c div 4096 mod 64 * 4096 + c div 64 mod 64 * 64 + c mod 64 = c"
    unfolding q using d by linarith
qed

lemma utf8_step_char:
  assumes sc: "is_scalar c"
  shows "utf8_step (utf8_char c @ r) = Some (c, r)"
proof -
  have m: "c mod 64 < 64" "c div 64 mod 64 < 64" "c div 4096 mod 64 < 64" by simp_all
  consider "c < 0x80" | "0x80 \<le> c" "c < 0x800" | "0x800 \<le> c" "c < 0x10000"
    | "0x10000 \<le> c" "c < 0x110000"
    using sc by (auto simp: is_scalar_def) linarith+
  then show ?thesis
  proof cases
    case 1
    then show ?thesis by (simp add: utf8_char_def)
  next
    case 2
    then have h: "2 \<le> c div 64" "c div 64 < 32" by simp_all
    with utf8_step_2 [of "byte_of (0xC0 + c div 64)" "byte_of (0x80 + c mod 64)" r]
    have "utf8_step (byte_of (0xC0 + c div 64) # byte_of (0x80 + c mod 64) # r) = Some (c, r)"
      using cont_byte_of [OF m(1)] utf8_digits(1) [of c] by simp
    with 2 show ?thesis by (simp add: utf8_char_def)
  next
    case 3
    then have "c div 4096 < 16" by simp
    then have "utf8_step (byte_of (0xE0 + c div 4096) # byte_of (0x80 + c div 64 mod 64) #
        byte_of (0x80 + c mod 64) # r) = Some (c, r)"
      using 3 sc cont_byte_of [OF m(1)] cont_byte_of [OF m(2)] utf8_digits(2) [of c]
      by (intro utf8_step_3) simp_all
    with 3 show ?thesis by (simp add: utf8_char_def)
  next
    case 4
    then have "c div 262144 < 5" by simp
    then have "utf8_step (byte_of (0xF0 + c div 262144) # byte_of (0x80 + c div 4096 mod 64) #
        byte_of (0x80 + c div 64 mod 64) # byte_of (0x80 + c mod 64) # r) = Some (c, r)"
      using 4 sc cont_byte_of [OF m(1)] cont_byte_of [OF m(2)] cont_byte_of [OF m(3)]
        utf8_digits(3) [of c]
      by (intro utf8_step_4) simp_all
    with 4 show ?thesis by (simp add: utf8_char_def)
  qed
qed

text \<open>\<open>String::from_utf8\<close> gives back the string whose \<open>as_bytes\<close> it is given.\<close>

lemma from_utf8_as_bytes: "valid_str s \<Longrightarrow> from_utf8 (as_bytes s) = Some s"
proof (induction s)
  case Nil
  show ?case by (simp add: as_bytes_def from_utf8.simps [of "[]"])
next
  case (Cons c s)
  then have "utf8_step (utf8_char c @ as_bytes s) = Some (c, as_bytes s)"
    by (simp add: valid_str_def utf8_step_char)
  moreover have "as_bytes (c # s) = utf8_char c @ as_bytes s" by (simp add: as_bytes_def)
  moreover have "utf8_char c \<noteq> []" by (simp add: utf8_char_def)
  ultimately show ?case
    using Cons by (simp add: from_utf8.simps [of "utf8_char c @ as_bytes s"] valid_str_def)
qed

lemma as_bytes_inject:
  "valid_str s \<Longrightarrow> valid_str t \<Longrightarrow> as_bytes s = as_bytes t \<Longrightarrow> s = t"
  by (metis from_utf8_as_bytes option.inject)

lemma as_bytes_Nil [simp]: "as_bytes [] = []"
  by (simp add: as_bytes_def)

lemma as_bytes_append [simp]: "as_bytes (s @ t) = as_bytes s @ as_bytes t"
  by (simp add: as_bytes_def)

lemma as_bytes_ascii: "list_all (\<lambda>c. c < 0x80) s \<Longrightarrow> as_bytes s = map byte_of s"
  by (induction s) (auto simp: as_bytes_def utf8_char_def)

end
