(* ===== verification/Programs.thy ===== *)
theory Programs
  imports Prelude
begin

text \<open>
  Outcomes and stateful programs.

  A Rust function that reads or changes state is a function from the state to its outcome and
  the new state. \<open>Err\<close> is a \<open>Result::Err\<close>, \<open>Panic\<close> a failed \<open>expect\<close> or assertion, and \<open>Hang\<close>
  the outcome of a loop of the model that has used up its fuel: it says only that the loop has
  not returned within that many rounds. \<open>bnd\<close> is sequencing with the \<open>?\<close> operator, \<open>handle\<close> a
  \<open>match\<close> on a \<open>Result\<close> with both branches, \<open>wp\<close> the weakest precondition of a program.
\<close>

datatype (dead 'x, 'a) res = Ok 'a | Err 'x | Panic | Hang

type_synonym ('s, 'x, 'a) prog = "'s \<Rightarrow> ('x, 'a) res \<times> 's"

definition ret :: "'a \<Rightarrow> ('s, 'x, 'a) prog" where
  "ret a s = (Ok a, s)"

definition fail :: "'x \<Rightarrow> ('s, 'x, 'a) prog" where
  "fail x s = (Err x, s)"

definition panic :: "('s, 'x, 'a) prog" where
  "panic s = (Panic, s)"

definition hang :: "('s, 'x, 'a) prog" where
  "hang s = (Hang, s)"

definition handle ::
  "('s, 'x, 'a) prog \<Rightarrow> ('a \<Rightarrow> ('s, 'y, 'b) prog) \<Rightarrow> ('x \<Rightarrow> ('s, 'y, 'b) prog) \<Rightarrow> ('s, 'y, 'b) prog"
where
  "handle m f g s =
     (case m s of
        (Ok a, s') \<Rightarrow> f a s'
      | (Err x, s') \<Rightarrow> g x s'
      | (Panic, s') \<Rightarrow> (Panic, s')
      | (Hang, s') \<Rightarrow> (Hang, s'))"

definition bnd :: "('s, 'x, 'a) prog \<Rightarrow> ('a \<Rightarrow> ('s, 'x, 'b) prog) \<Rightarrow> ('s, 'x, 'b) prog" where
  "bnd m f = handle m f fail"

text \<open>\<open>map_err\<close>: \<open>Result::map_err\<close> with an otherwise unchanged program.\<close>

definition map_err :: "('x \<Rightarrow> 'y) \<Rightarrow> ('s, 'x, 'a) prog \<Rightarrow> ('s, 'y, 'a) prog" where
  "map_err h m = handle m ret (\<lambda>x. fail (h x))"

text \<open>A pure result inside a program, a read of the state and a change of it.\<close>

fun lift_sum :: "'x + 'a \<Rightarrow> ('s, 'x, 'a) prog" where
  "lift_sum (Inl x) = fail x"
| "lift_sum (Inr a) = ret a"

definition gets :: "('s \<Rightarrow> 'a) \<Rightarrow> ('s, 'x, 'a) prog" where
  "gets f s = (Ok (f s), s)"

definition modify :: "('s \<Rightarrow> 's) \<Rightarrow> ('s, 'x, unit) prog" where
  "modify f s = (Ok (), f s)"

section \<open>Weakest preconditions\<close>

definition wp :: "('s, 'x, 'a) prog \<Rightarrow> (('x, 'a) res \<Rightarrow> 's \<Rightarrow> bool) \<Rightarrow> 's \<Rightarrow> bool" where
  "wp m Q s = (case m s of (r, s') \<Rightarrow> Q r s')"

lemma wpD: "wp m Q s \<Longrightarrow> m s = (r, s') \<Longrightarrow> Q r s'"
  by (simp add: wp_def)

lemma wpI: "(\<And>r s'. m s = (r, s') \<Longrightarrow> Q r s') \<Longrightarrow> wp m Q s"
  by (cases "m s") (simp add: wp_def)

lemma wp_mono: "wp m P s \<Longrightarrow> (\<And>r s'. P r s' \<Longrightarrow> Q r s') \<Longrightarrow> wp m Q s"
  by (auto simp: wp_def split: prod.splits)

lemma wp_conj: "wp m P s \<Longrightarrow> wp m Q s \<Longrightarrow> wp m (\<lambda>r s'. P r s' \<and> Q r s') s"
  by (auto simp: wp_def split: prod.splits)

text \<open>What a failing or stopped step passes on: \<open>after\<close> is the rest of the program.\<close>

definition after ::
  "('a \<Rightarrow> 's \<Rightarrow> bool) \<Rightarrow> ('x \<Rightarrow> 's \<Rightarrow> bool) \<Rightarrow> (('y, 'b) res \<Rightarrow> 's \<Rightarrow> bool) \<Rightarrow>
   ('x, 'a) res \<Rightarrow> 's \<Rightarrow> bool"
where
  "after F G Q r s =
     (case r of Ok a \<Rightarrow> F a s | Err x \<Rightarrow> G x s | Panic \<Rightarrow> Q Panic s | Hang \<Rightarrow> Q Hang s)"

lemma after_simps [simp]:
  "after F G Q (Ok a) s = F a s"
  "after F G Q (Err x) s = G x s"
  "after F G Q Panic s = Q Panic s"
  "after F G Q Hang s = Q Hang s"
  by (simp_all add: after_def)

lemma wp_ret [wp_rules]: "wp (ret a) Q = Q (Ok a)"
  by (rule ext) (simp add: wp_def ret_def)

lemma wp_fail [wp_rules]: "wp (fail x) Q = Q (Err x)"
  by (rule ext) (simp add: wp_def fail_def)

lemma wp_panic [wp_rules]: "wp panic Q = Q Panic"
  by (rule ext) (simp add: wp_def panic_def)

lemma wp_hang [wp_rules]: "wp hang Q = Q Hang"
  by (rule ext) (simp add: wp_def hang_def)

lemma wp_gets [wp_rules]: "wp (gets f) Q s = Q (Ok (f s)) s"
  by (simp add: wp_def gets_def)

lemma wp_modify [wp_rules]: "wp (modify f) Q s = Q (Ok ()) (f s)"
  by (simp add: wp_def modify_def)

lemma wp_handle [wp_rules]:
  "wp (handle m f g) Q s = wp m (after (\<lambda>a. wp (f a) Q) (\<lambda>x. wp (g x) Q) Q) s"
  by (auto simp: wp_def handle_def after_def split: prod.splits res.splits)

lemma wp_bnd [wp_rules]:
  "wp (bnd m f) Q s = wp m (after (\<lambda>a. wp (f a) Q) (\<lambda>x. Q (Err x)) Q) s"
  by (simp add: bnd_def wp_handle wp_fail)

lemma wp_map_err [wp_rules]:
  "wp (map_err h m) Q s = wp m (after (\<lambda>a. Q (Ok a)) (\<lambda>x. Q (Err (h x))) Q) s"
  by (simp add: map_err_def wp_handle wp_ret wp_fail)

lemma wp_lift_sum [wp_rules]:
  "wp (lift_sum v) Q s = (case v of Inl x \<Rightarrow> Q (Err x) s | Inr a \<Rightarrow> Q (Ok a) s)"
  by (cases v) (simp_all add: wp_fail wp_ret)

lemma wp_if [wp_rules]: "wp (if b then m else m') Q s = (if b then wp m Q s else wp m' Q s)"
  by simp

text \<open>When nothing need be known of a step.\<close>

lemma wp_any: "(\<And>r s'. Q r s') \<Longrightarrow> wp m Q s"
  by (rule wpI)

lemma wp_handle_any:
  "(\<And>a s'. wp (f a) Q s') \<Longrightarrow> (\<And>x s'. wp (g x) Q s') \<Longrightarrow> (\<And>s'. Q Panic s') \<Longrightarrow> (\<And>s'. Q Hang s') \<Longrightarrow>
   wp (handle m f g) Q s"
  unfolding wp_handle after_def by (rule wp_any) (auto split: res.splits)

lemma wp_bnd_any:
  "(\<And>a s'. wp (f a) Q s') \<Longrightarrow> (\<And>x s'. Q (Err x) s') \<Longrightarrow> (\<And>s'. Q Panic s') \<Longrightarrow> (\<And>s'. Q Hang s') \<Longrightarrow>
   wp (bnd m f) Q s"
  unfolding bnd_def by (rule wp_handle_any) (auto simp: wp_fail)

text \<open>A program that keeps an invariant of the state whatever its outcome.\<close>

definition preserves :: "('s \<Rightarrow> bool) \<Rightarrow> ('s, 'x, 'a) prog \<Rightarrow> bool" where
  "preserves I m \<longleftrightarrow> (\<forall>s. I s \<longrightarrow> wp m (\<lambda>_ s'. I s') s)"

lemma preservesI: "(\<And>s. I s \<Longrightarrow> wp m (\<lambda>_ s'. I s') s) \<Longrightarrow> preserves I m"
  by (simp add: preserves_def)

lemma preserves_wp: "preserves I m \<Longrightarrow> I s \<Longrightarrow> wp m (\<lambda>_ s'. I s') s"
  by (simp add: preserves_def)

lemma preservesD: "preserves I m \<Longrightarrow> I s \<Longrightarrow> m s = (r, s') \<Longrightarrow> I s'"
  by (auto simp: preserves_def wp_def split: prod.splits)

lemma preserves_pure [preserves_intros]:
  "preserves I (ret a)" "preserves I (fail x)" "preserves I panic" "preserves I hang"
  "preserves I (gets f)" "preserves I (lift_sum v)"
  by (auto simp: preserves_def wp_rules split: sum.splits)

lemma preserves_handle [preserves_intros]:
  assumes "preserves I m" "\<And>a. preserves I (f a)" "\<And>x. preserves I (g x)"
  shows "preserves I (handle m f g)"
proof (rule preservesI)
  fix s
  assume "I s"
  show "wp (handle m f g) (\<lambda>_ s'. I s') s"
  proof (cases "m s")
    case (Pair r s')
    with \<open>I s\<close> assms(1) have "I s'" by (auto simp: preserves_def wp_def split: prod.splits)
    then have "wp (f a) (\<lambda>_ s'. I s') s'" "wp (g x) (\<lambda>_ s'. I s') s'" for a x
      using assms(2,3) by (simp_all add: preserves_def)
    then show ?thesis
      using Pair \<open>I s'\<close> by (cases r) (simp_all add: wp_def handle_def)
  qed
qed

lemma preserves_bnd [preserves_intros]:
  "preserves I m \<Longrightarrow> (\<And>a. preserves I (f a)) \<Longrightarrow> preserves I (bnd m f)"
  unfolding bnd_def by (intro preserves_intros)

lemma preserves_map_err [preserves_intros]: "preserves I m \<Longrightarrow> preserves I (map_err h m)"
  unfolding map_err_def by (intro preserves_intros)

text \<open>Running closed programs: used by the witnesses.\<close>

lemmas run_simps = ret_def fail_def panic_def hang_def handle_def bnd_def map_err_def
  gets_def modify_def

end
