(* ===== verification/Protocol.thy ===== *)
theory Protocol
  imports Programs
begin

text \<open>
  \<open>crates/protocol\<close>: the messages of the three channels (control data channel, PAKE messages
  relayed by the signaling server, signaling messages), the timeouts, the stages, and the two
  codecs. postcard and hex are third-party crates: their functions are the fields of the record
  \<open>wire\<close>, and \<open>wire_ok\<close> names what the code relies on (decoding gives back what was encoded).
\<close>

section \<open>Messages\<close>

datatype reject_reason =
    RDenied
  | RNoResponse
  | RVersionMismatch u32
  | RBadIdentity

datatype decision = Accepted | Rejected reject_reason

record hello =
  protocol_version :: u32
  device_key :: bytes
  device_name :: ustr
  reconnect_key :: bytes
  reconnect_key_sig :: bytes
  session_sig :: bytes

datatype control =
    CHello hello
  | CDecision decision
  | CPing u64
  | CPong u64

datatype pake_msg =
    PStart (pm_pa: bytes)
  | PReply (pm_pb: bytes) (pm_mac_b: bytes)
  | PConfirm (pm_mac_a: bytes) (pm_sealed_offer: bytes)
  | PAnswer (pm_sealed_answer: bytes)
  | PRetryAfter (pm_ms: u64)
  | PRejected

datatype server_to_host =
    SHChallenge ustr ustr \<comment> \<open>nonce, id\<close>
  | SHRegistered ustr
  | SHViewerJoined
  | SHViewerLeft
  | SHRelay ustr

datatype host_to_server =
    HSAuth ustr
  | HSRelay ustr
  | HSKick

datatype server_to_viewer =
    SVJoined
  | SVRelay ustr
  | SVHostLeft

datatype viewer_to_server = VSRelay ustr

section \<open>Timeouts and stages\<close>

text \<open>A \<open>Duration\<close> or an \<open>Instant\<close> is a number of nanoseconds.\<close>

type_synonym duration = nat
type_synonym instant = nat

definition secs :: "nat \<Rightarrow> duration" where
  "secs n = n * 1000000000"

definition millis :: "nat \<Rightarrow> duration" where
  "millis n = n * 1000000"

record timeouts =
  signaling_step :: duration
  connect_limit :: duration
  approval_limit :: duration

definition default_timeouts :: timeouts where
  "default_timeouts =
     \<lparr>signaling_step = secs 15, connect_limit = secs 10, approval_limit = secs 30\<rparr>"

definition PROTOCOL_VERSION :: u32 where
  "PROTOCOL_VERSION = 1"

datatype stage =
    StJoin
  | StPake
  | StAnswer
  | StConnect
  | StHello
  | StDecision
  | StPing

text \<open>The stages in the order of their declaration, which is the order of a connection.\<close>

fun stage_rank :: "stage \<Rightarrow> nat" where
  "stage_rank StJoin = 0"
| "stage_rank StPake = 1"
| "stage_rank StAnswer = 2"
| "stage_rank StConnect = 3"
| "stage_rank StHello = 4"
| "stage_rank StDecision = 5"
| "stage_rank StPing = 6"

lemma stage_rank_inject: "stage_rank a = stage_rank b \<Longrightarrow> a = b"
  by (cases a; cases b) auto

instantiation stage :: linorder
begin

definition less_eq_stage :: "stage \<Rightarrow> stage \<Rightarrow> bool" where
  "less_eq_stage a b \<longleftrightarrow> stage_rank a \<le> stage_rank b"

definition less_stage :: "stage \<Rightarrow> stage \<Rightarrow> bool" where
  "less_stage a b \<longleftrightarrow> stage_rank a < stage_rank b"

instance
  by standard (auto simp: less_eq_stage_def less_stage_def intro: stage_rank_inject)

end

section \<open>The codecs\<close>

record wire =
  control_to :: "control \<Rightarrow> bytes option" \<comment> \<open>\<open>postcard::to_allocvec\<close>\<close>
  control_from :: "bytes \<Rightarrow> control option" \<comment> \<open>\<open>postcard::from_bytes\<close>\<close>
  pake_to :: "pake_msg \<Rightarrow> bytes option"
  pake_from :: "bytes \<Rightarrow> pake_msg option"
  hex_enc :: "bytes \<Rightarrow> ustr"
  hex_dec :: "ustr \<Rightarrow> bytes option"

text \<open>Lower-case hexadecimal digits, the alphabet of \<open>hex::encode\<close>.\<close>

definition is_hex_lower :: "nat \<Rightarrow> bool" where
  "is_hex_lower c \<longleftrightarrow> (48 \<le> c \<and> c \<le> 57) \<or> (97 \<le> c \<and> c \<le> 102)"

definition wire_ok :: "wire \<Rightarrow> bool" where
  "wire_ok w \<longleftrightarrow>
     (\<forall>m. \<exists>b. control_to w m = Some b \<and> control_from w b = Some m) \<and>
     (\<forall>m. \<exists>b. pake_to w m = Some b \<and> pake_from w b = Some m) \<and>
     (\<forall>b. hex_dec w (hex_enc w b) = Some b \<and> length (hex_enc w b) = 2 * length b \<and>
        list_all is_hex_lower (hex_enc w b))"

datatype decode_error = TooLarge nat nat | PostcardError

text \<open>\<open>expect\<close> on a value that may be missing.\<close>

fun expect :: "'a option \<Rightarrow> ('s, 'x, 'a) prog" where
  "expect None = panic"
| "expect (Some a) = ret a"

lemma wp_expect [wp_rules]:
  "wp (expect v) Q s = (case v of None \<Rightarrow> Q Panic s | Some a \<Rightarrow> Q (Ok a) s)"
  by (cases v) (simp_all add: wp_rules)

definition MAX_CONTROL_BYTES :: nat where
  "MAX_CONTROL_BYTES = 16 * 1024"

definition control_encode :: "wire \<Rightarrow> control \<Rightarrow> ('s, 'x, bytes) prog" where
  "control_encode w msg = expect (control_to w msg)"

definition control_decode :: "wire \<Rightarrow> bytes \<Rightarrow> decode_error + control" where
  "control_decode w bs =
     (if length bs > MAX_CONTROL_BYTES then Inl (TooLarge (length bs) MAX_CONTROL_BYTES)
      else case control_from w bs of None \<Rightarrow> Inl PostcardError | Some m \<Rightarrow> Inr m)"

definition pake_encode :: "wire \<Rightarrow> pake_msg \<Rightarrow> ('s, 'x, bytes) prog" where
  "pake_encode w msg = expect (pake_to w msg)"

definition pake_decode :: "wire \<Rightarrow> bytes \<Rightarrow> decode_error + pake_msg" where
  "pake_decode w bs = (case pake_from w bs of None \<Rightarrow> Inl PostcardError | Some m \<Rightarrow> Inr m)"

text \<open>\<open>Result::ok\<close>.\<close>

fun ok :: "'x + 'a \<Rightarrow> 'a option" where
  "ok (Inl _) = None"
| "ok (Inr a) = Some a"

lemma ok_Some [simp]: "ok v = Some a \<longleftrightarrow> v = Inr a"
  by (cases v) auto

lemma ok_None [simp]: "ok v = None \<longleftrightarrow> (\<exists>x. v = Inl x)"
  by (cases v) auto

text \<open>The text of a relayed PAKE message and what the receiver makes of it: \<open>hex\<close> around the
  postcard bytes, on both sides.\<close>

definition relay_text :: "wire \<Rightarrow> pake_msg \<Rightarrow> ustr option" where
  "relay_text w m = map_option (hex_enc w) (pake_to w m)"

definition relay_parse :: "wire \<Rightarrow> ustr \<Rightarrow> pake_msg option" where
  "relay_parse w d = Option.bind (hex_dec w d) (\<lambda>b. ok (pake_decode w b))"

lemma relay_roundtrip:
  assumes "wire_ok w"
  shows "\<exists>d. relay_text w m = Some d \<and> relay_parse w d = Some m"
proof -
  obtain b where "pake_to w m = Some b" "pake_from w b = Some m"
    using assms unfolding wire_ok_def by blast
  moreover have "hex_dec w (hex_enc w b) = Some b"
    using assms unfolding wire_ok_def by blast
  ultimately show ?thesis
    by (simp add: relay_text_def relay_parse_def pake_decode_def)
qed

lemma control_roundtrip:
  assumes "wire_ok w" "control_to w m = Some b" "length b \<le> MAX_CONTROL_BYTES"
  shows "control_decode w b = Inr m"
proof -
  obtain b' where "control_to w m = Some b'" "control_from w b' = Some m"
    using assms(1) unfolding wire_ok_def by blast
  with assms(2,3) show ?thesis by (simp add: control_decode_def)
qed

end
