(* ===== verification/AuthCode.thy ===== *)
theory AuthCode
  imports Protocol
begin

text \<open>
  \<open>crates/auth/src/error.rs\<close> and \<open>crates/auth/src/code.rs\<close>: the errors of the crate and the
  one-time code, its generation by rejection sampling from the system random source (the
  argument \<open>fill\<close>, which stands for \<open>getrandom::fill\<close> on a buffer of four bytes) and its parsing.
\<close>

datatype auth_error =
    WrongCode
  | Malformed string
  | BadSignature
  | BadSeal
  | NameTooLong

section \<open>Decimal text\<close>

fun decimal :: "nat \<Rightarrow> ustr" where
  "decimal n = (if n < 10 then [48 + n] else decimal (n div 10) @ [48 + n mod 10])"

declare decimal.simps [simp del]

text \<open>\<open>format!("{value:06}")\<close>.\<close>

definition format06 :: "nat \<Rightarrow> ustr" where
  "format06 n = (let d = decimal n in replicate (6 - length d) 48 @ d)"

definition is_ascii_digit :: "byte \<Rightarrow> bool" where
  "is_ascii_digit b \<longleftrightarrow> 48 \<le> unat b \<and> unat b \<le> 57"

text \<open>\<open>char::is_whitespace\<close>: the Unicode property White_Space.\<close>

definition is_whitespace :: "nat \<Rightarrow> bool" where
  "is_whitespace c \<longleftrightarrow>
     (9 \<le> c \<and> c \<le> 13) \<or> c = 0x20 \<or> c = 0x85 \<or> c = 0xA0 \<or> c = 0x1680 \<or>
     (0x2000 \<le> c \<and> c \<le> 0x200A) \<or> c = 0x2028 \<or> c = 0x2029 \<or> c = 0x202F \<or> c = 0x205F \<or>
     c = 0x3000"

section \<open>The one-time code\<close>

definition code_limit :: u32 where
  "code_limit = ((- 1) div 1000000) * 1000000"

fun code_generate :: "('s \<Rightarrow> bytes option \<times> 's) \<Rightarrow> nat \<Rightarrow> ('s, 'x, ustr) prog" where
  "code_generate fill 0 = hang"
| "code_generate fill (Suc fuel) =
     (\<lambda>s. case fill s of
        (None, s') \<Rightarrow> (Panic, s')
      | (Some buf, s') \<Rightarrow>
          let n = u32_from_be buf
          in if n < code_limit then (Ok (format06 (unat (n mod 1000000))), s')
             else code_generate fill fuel s')"

definition code_parse :: "ustr \<Rightarrow> auth_error + ustr" where
  "code_parse inp =
     (let digits = filter (\<lambda>c. \<not> is_whitespace c) inp
      in if length (as_bytes digits) \<noteq> 6 \<or> \<not> list_all is_ascii_digit (as_bytes digits)
         then Inl (Malformed ''one-time code'')
         else Inr digits)"

text \<open>\<open>impl Debug for OneTimeCode\<close>.\<close>

definition code_debug :: "ustr \<Rightarrow> ustr" where
  "code_debug c = lit ''OneTimeCode(******)''"

section \<open>Lemmas\<close>

lemma code_limit_eq: "code_limit = 4294000000"
  by (simp add: code_limit_def word_div_def unsigned_minus_1_eq_mask mask_eq_exp_minus_1)

definition is_digit_char :: "nat \<Rightarrow> bool" where
  "is_digit_char c \<longleftrightarrow> 48 \<le> c \<and> c \<le> 57"

lemma decimal_digits: "list_all is_digit_char (decimal n)"
proof (induction n rule: decimal.induct)
  case (1 n)
  then show ?case
    by (cases "n < 10") (auto simp: decimal.simps [of n] is_digit_char_def)
qed

lemma length_decimal_le: "n < 10 ^ k \<Longrightarrow> 0 < k \<Longrightarrow> length (decimal n) \<le> k"
proof (induction n arbitrary: k rule: decimal.induct)
  case (1 n)
  show ?case
  proof (cases "n < 10")
    case True
    with "1.prems" show ?thesis by (simp add: decimal.simps [of n])
  next
    case False
    with "1.prems" have k: "1 < k" by (cases "k = 1") auto
    then have "n div 10 < 10 ^ (k - 1)"
      using "1.prems" by (cases k) (auto simp: less_mult_imp_div_less mult.commute)
    with 1(1) [OF False, of "k - 1"] False k show ?thesis
      by (simp add: decimal.simps [of n])
  qed
qed

lemma format06_shape:
  assumes "n < 1000000"
  shows "length (format06 n) = 6" "list_all is_digit_char (format06 n)"
proof -
  have "length (decimal n) \<le> 6" using assms length_decimal_le [of n 6] by simp
  then show "length (format06 n) = 6" by (simp add: format06_def Let_def)
  show "list_all is_digit_char (format06 n)"
    using decimal_digits [of n] by (auto simp: format06_def Let_def list_all_iff is_digit_char_def)
qed

text \<open>The value of a decimal text; it makes \<open>decimal\<close> and \<open>format06\<close> injective.\<close>

definition dec_value :: "ustr \<Rightarrow> nat" where
  "dec_value s = foldl (\<lambda>a c. a * 10 + (c - 48)) 0 s"

lemma dec_value_snoc [simp]: "dec_value (s @ [c]) = dec_value s * 10 + (c - 48)"
  by (simp add: dec_value_def)

lemma dec_value_decimal: "dec_value (decimal n) = n"
proof (induction n rule: decimal.induct)
  case (1 n)
  then show ?case
    by (cases "n < 10") (auto simp: decimal.simps [of n] dec_value_def)
qed

lemma dec_value_zeros: "dec_value (replicate k 48 @ s) = dec_value s"
  by (induction k) (simp_all add: dec_value_def)

lemma dec_value_format06: "dec_value (format06 n) = n"
  by (simp add: format06_def Let_def dec_value_zeros dec_value_decimal)

lemma format06_inject: "format06 m = format06 n \<Longrightarrow> m = n"
  by (metis dec_value_format06)

text \<open>On a string of ASCII digits, bytes and characters agree.\<close>

lemma digit_char_not_space: "is_digit_char c \<Longrightarrow> \<not> is_whitespace c"
  by (auto simp: is_digit_char_def is_whitespace_def)

lemma utf8_char_digit: "is_digit_char c \<Longrightarrow> utf8_char c = [byte_of c] \<and> is_ascii_digit (byte_of c)"
  by (auto simp: is_digit_char_def utf8_char_def is_ascii_digit_def)

lemma as_bytes_digits:
  "list_all is_digit_char s \<Longrightarrow> length (as_bytes s) = length s \<and> list_all is_ascii_digit (as_bytes s)"
  by (induction s) (auto simp: as_bytes_def utf8_char_digit)

lemma utf8_char_not_digit:
  assumes "is_scalar c" "\<not> is_digit_char c"
  shows "\<exists>b \<in> set (utf8_char c). \<not> is_ascii_digit b"
proof (cases "c < 0x80")
  case True
  with assms(2) show ?thesis
    by (auto simp: utf8_char_def is_ascii_digit_def is_digit_char_def)
next
  case False
  have "c mod 64 < 64" by simp
  then have "\<not> is_ascii_digit (byte_of (0x80 + c mod 64))"
    by (simp add: is_ascii_digit_def)
  with False show ?thesis by (auto simp: utf8_char_def)
qed

lemma digits_of_as_bytes:
  assumes "valid_str s" "list_all is_ascii_digit (as_bytes s)"
  shows "list_all is_digit_char s"
  using assms
proof (induction s)
  case (Cons c s)
  then have "list_all is_ascii_digit (utf8_char c)" "list_all is_ascii_digit (as_bytes s)"
    by (simp_all add: as_bytes_def)
  with Cons show ?case
    using utf8_char_not_digit [of c] by (auto simp: valid_str_def list_all_iff)
qed simp

lemma code_parse_digits:
  assumes "list_all is_digit_char s" "length s = 6"
  shows "code_parse s = Inr s"
proof -
  have "filter (\<lambda>c. \<not> is_whitespace c) s = s"
    using assms(1) by (auto simp: filter_id_conv list_all_iff digit_char_not_space)
  with assms as_bytes_digits [OF assms(1)] show ?thesis
    by (simp add: code_parse_def Let_def)
qed

lemma unat_mod_million: "unat ((n :: u32) mod 1000000) = unat n mod 1000000"
  by (simp add: unat_mod)

lemma code_generate_Ok:
  "code_generate fill fuel s = (Ok c, s') \<Longrightarrow>
     \<exists>n. n < code_limit \<and> c = format06 (unat n mod 1000000)"
  by (induction fuel arbitrary: s)
    (auto simp: hang_def Let_def unat_mod_million split: option.splits prod.splits if_splits)

lemma code_generate_digits:
  assumes "code_generate fill fuel s = (Ok c, s')"
  shows "length c = 6" "list_all is_digit_char c"
  using code_generate_Ok [OF assms] format06_shape by auto

text \<open>The successive results of the random source.\<close>

primrec nth_draw :: "('s \<Rightarrow> bytes option \<times> 's) \<Rightarrow> nat \<Rightarrow> 's \<Rightarrow> bytes option \<times> 's" where
  "nth_draw fill 0 s = fill s"
| "nth_draw fill (Suc i) s = nth_draw fill i (snd (fill s))"

lemma card_residue_class:
  assumes "v < m"
  shows "card {n. n < k * m \<and> n mod m = v} = (k :: nat)"
proof -
  have "{n. n < k * m \<and> n mod m = v} = (\<lambda>q. q * m + v) ` {..<k}"
  proof (intro equalityI subsetI)
    fix n assume "n \<in> {n. n < k * m \<and> n mod m = v}"
    then have n: "n < k * m" "n mod m = v" by auto
    then have "n div m < k" by (simp add: less_mult_imp_div_less)
    moreover have "n = n div m * m + v" using n(2) by (metis div_mult_mod_eq)
    ultimately show "n \<in> (\<lambda>q. q * m + v) ` {..<k}" by auto
  next
    fix n assume "n \<in> (\<lambda>q. q * m + v) ` {..<k}"
    then obtain q where q: "q < k" "n = q * m + v" by auto
    have "q * m + v < Suc q * m" using assms by simp
    also have "\<dots> \<le> k * m" using q(1) by (intro mult_le_mono1) simp
    finally show "n \<in> {n. n < k * m \<and> n mod m = v}" using q assms by simp
  qed
  moreover have "inj_on (\<lambda>q. q * m + v) {..<k}"
    using assms by (auto simp: inj_on_def)
  ultimately show ?thesis by (simp add: card_image)
qed


section \<open>Properties\<close>

text \<open>C31: A generated code is six ASCII digits and \<open>OneTimeCode::parse\<close> accepts it unchanged, so
  a code read out by the host can always be typed in at the viewer, with any white space put
  between its digits.\<close>

theorem generated_code_parses:
  assumes "code_generate fill fuel s = (Ok c, s')"
    and "filter (\<lambda>x. \<not> is_whitespace x) typed = c"
  shows "length c = 6 \<and> code_parse c = Inr c \<and> code_parse typed = Inr c"
proof -
  have c: "length c = 6" "list_all is_digit_char c"
    using code_generate_digits [OF assms(1)] by auto
  then have p: "code_parse c = Inr c" by (intro code_parse_digits)
  have "filter (\<lambda>x. \<not> is_whitespace x) c = c"
    using c(2) by (auto simp: filter_id_conv list_all_iff digit_char_not_space)
  with p assms(2) have "code_parse typed = Inr c" by (simp add: code_parse_def)
  with c p show ?thesis by simp
qed

theorem generated_code_parses_witness:
  "code_parse (lit ''004 295'') = Inr (lit ''004295'')"
proof -
  have w: "u32_from_be [0, 0, 16, 199] = 4295"
    by (simp add: u32_from_be_def be_nat_def)
  have "decimal 4295 = [52, 50, 57, 53]"
    by (simp add: decimal.simps [of 4295] decimal.simps [of 429] decimal.simps [of 42] decimal.simps [of 4])
  then have "format06 4295 = lit ''004295''"
    by (simp add: format06_def Let_def lit_def numeral_2_eq_2)
  then have g: "code_generate (\<lambda>s. (Some [0, 0, 16, 199], s)) (Suc 0) () =
      ((Ok (lit ''004295'') :: (unit, ustr) res), ())"
    by (simp add: Let_def w code_limit_eq unat_mod_million)
  have f: "filter (\<lambda>x. \<not> is_whitespace x) (lit ''004 295'') = lit ''004295''"
    by (simp add: lit_def is_whitespace_def)
  show ?thesis using generated_code_parses [OF g f] by blast
qed

text \<open>\<open>OneTimeCode::parse\<close> succeeds exactly on the strings that are six ASCII digits once
  white space is removed, gives back those digits, and reports every other input as
  \<open>Malformed("one-time code")\<close>.\<close>

theorem code_parse_exact:
  assumes "valid_str inp"
  shows "code_parse inp =
    (let digits = filter (\<lambda>c. \<not> is_whitespace c) inp
     in if length digits = 6 \<and> list_all is_digit_char digits then Inr digits
        else Inl (Malformed ''one-time code''))"
proof -
  let ?d = "filter (\<lambda>c. \<not> is_whitespace c) inp"
  have v: "valid_str ?d" using assms by (auto simp: valid_str_def list_all_iff)
  have "length (as_bytes ?d) = 6 \<and> list_all is_ascii_digit (as_bytes ?d) \<longleftrightarrow>
      length ?d = 6 \<and> list_all is_digit_char ?d"
    using digits_of_as_bytes [OF v] as_bytes_digits [of ?d] by auto
  then show ?thesis by (auto simp: code_parse_def Let_def)
qed

theorem code_parse_exact_witness:
  "code_parse (lit ''12a456'') = Inl (Malformed ''one-time code'')"
proof -
  have v: "valid_str (lit ''12a456'')" by (simp add: valid_str_def lit_def is_scalar_def)
  show ?thesis
    unfolding code_parse_exact [OF v]
    by (simp add: lit_def is_whitespace_def is_digit_char_def)
qed



text \<open>\<open>generate\<close> returns as soon as the random source gives a word below the limit: with the
  words before it rejected, the loop takes exactly that many rounds and the code is that word's.\<close>

theorem code_generate_terminates:
  assumes "\<And>i. i < k \<Longrightarrow> \<exists>b. fst (nth_draw fill i s) = Some b \<and> code_limit \<le> u32_from_be b"
    and "nth_draw fill k s = (Some buf, s')" and "u32_from_be buf < code_limit"
    and "k < fuel"
  shows "code_generate fill fuel s =
    ((Ok (format06 (unat (u32_from_be buf) mod 1000000)) :: ('x, ustr) res), s')"
  using assms
proof (induction k arbitrary: s fuel)
  case 0
  then obtain f where "fuel = Suc f" by (cases fuel) auto
  with 0 show ?case by (simp add: Let_def unat_mod_million)
next
  case (Suc k)
  then obtain f where f: "fuel = Suc f" "k < f" by (cases fuel) auto
  obtain b t where b: "fill s = (Some b, t)" "code_limit \<le> u32_from_be b"
    using Suc.prems(1) [of 0] by (cases "fill s") auto
  have "code_generate fill f t =
      ((Ok (format06 (unat (u32_from_be buf) mod 1000000)) :: ('x, ustr) res), s')"
  proof (rule Suc.IH)
    fix i assume "i < k"
    then show "\<exists>b. fst (nth_draw fill i t) = Some b \<and> code_limit \<le> u32_from_be b"
      using Suc.prems(1) [of "Suc i"] b(1) by simp
  qed (use Suc.prems b f in auto)
  moreover have "\<not> u32_from_be b < code_limit" using b(2) by simp
  ultimately show ?case using b(1) f(1) by (simp add: Let_def)
qed

theorem code_generate_terminates_witness:
  "code_generate (\<lambda>s. (Some s, [0, 0, 0, 5])) 2 [255, 255, 255, 255] =
     ((Ok (lit ''000005'') :: (unit, ustr) res), [0, 0, 0, 5])"
proof -
  have hi: "code_limit \<le> u32_from_be [255, 255, 255, 255]"
    by (simp add: u32_from_be_def be_nat_def code_limit_eq word_le_nat_alt unat_of_nat)
  have lo: "u32_from_be [0, 0, 0, 5] < code_limit"
    by (simp add: u32_from_be_def be_nat_def code_limit_eq word_less_nat_alt unat_of_nat)
  have "code_generate (\<lambda>s. (Some s, [0, 0, 0, 5])) 2 [255, 255, 255, 255] =
     ((Ok (format06 (unat (u32_from_be [0, 0, 0, 5]) mod 1000000)) :: (unit, ustr) res),
      [0, 0, 0, 5])"
    by (rule code_generate_terminates [where k = 1]) (use hi lo in \<open>simp_all add: One_nat_def\<close>)
  moreover have "u32_from_be [0, 0, 0, 5] = 5" by (simp add: u32_from_be_def be_nat_def)
  moreover have "format06 5 = lit ''000005''" by code_simp
  ultimately show ?thesis by simp
qed

end
