(* ===== verification/Sealed.thy ===== *)
theory Sealed
  imports AuthCode
begin

unbundle bit_operations_syntax

text \<open>
  \<open>crates/auth/src/sealed.rs\<close> and the session keys of \<open>crates/auth/src/pake.rs\<close>: one sealed
  channel per direction.  ChaCha20-Poly1305 is a third-party crate: \<open>aead\<close> holds its two
  functions and \<open>aead_ok\<close> what the code relies on, that decryption inverts encryption, that the
  tag adds 16 bytes, and that only the encryption of a plaintext decrypts to it (the cipher is
  deterministic in key, nonce and associated data).  \<open>counted_step\<close> is the contract both ends
  share: a success moves the counter by one, anything else leaves the state alone.
\<close>

section \<open>Sender and receiver\<close>

record aead =
  aead_enc :: "bytes \<Rightarrow> bytes \<Rightarrow> bytes \<Rightarrow> bytes \<Rightarrow> bytes option"
  aead_dec :: "bytes \<Rightarrow> bytes \<Rightarrow> bytes \<Rightarrow> bytes \<Rightarrow> bytes option"

definition aead_ok :: "aead \<Rightarrow> bool" where
  "aead_ok a \<longleftrightarrow>
     (\<forall>k n l m. \<exists>c. aead_enc a k n l m = Some c \<and> length c = length m + 16 \<and>
        aead_dec a k n l c = Some m) \<and>
     (\<forall>k n l c m. aead_dec a k n l c = Some m \<longrightarrow> aead_enc a k n l m = Some c)"

definition checked_add_u64 :: "u64 \<Rightarrow> u64 \<Rightarrow> u64 option" where
  "checked_add_u64 a b = (if unat a + unat b < 2 ^ 64 then Some (a + b) else None)"

definition MIN_SEALED_LEN :: nat where
  "MIN_SEALED_LEN = 8 + 16"

definition nonce_for :: "u64 \<Rightarrow> bytes" where
  "nonce_for counter = replicate 4 0 @ u64_be counter"

record sealed_sender =
  snd_cipher :: bytes
  snd_label :: bytes
  snd_counter :: u64

definition sealed_sender_new :: "bytes \<Rightarrow> bytes \<Rightarrow> sealed_sender" where
  "sealed_sender_new key label = \<lparr>snd_cipher = key, snd_label = label, snd_counter = 0\<rparr>"

definition seal :: "aead \<Rightarrow> bytes \<Rightarrow> (sealed_sender, auth_error, bytes) prog" where
  "seal a plaintext s =
     (case aead_enc a (snd_cipher s) (nonce_for (snd_counter s)) (snd_label s) plaintext of
        None \<Rightarrow> (Panic, s)
      | Some ciphertext \<Rightarrow>
          (let out = u64_be (snd_counter s) @ ciphertext
           in case checked_add_u64 (snd_counter s) 1 of
                None \<Rightarrow> (Panic, s)
              | Some c \<Rightarrow> (Ok out, s\<lparr>snd_counter := c\<rparr>)))"

record sealed_receiver =
  rcv_cipher :: bytes
  rcv_label :: bytes
  expected_counter :: u64

definition sealed_receiver_new :: "bytes \<Rightarrow> bytes \<Rightarrow> sealed_receiver" where
  "sealed_receiver_new key label = \<lparr>rcv_cipher = key, rcv_label = label, expected_counter = 0\<rparr>"

definition open_sealed :: "aead \<Rightarrow> bytes \<Rightarrow> (sealed_receiver, auth_error, bytes) prog" where
  "open_sealed a msg s =
     (if length msg < MIN_SEALED_LEN then (Err BadSeal, s)
      else let counter = u64_from_be (take 8 msg)
        in if counter \<noteq> expected_counter s then (Err BadSeal, s)
           else case aead_dec a (rcv_cipher s) (nonce_for counter) (rcv_label s) (drop 8 msg) of
               None \<Rightarrow> (Err BadSeal, s)
             | Some plaintext \<Rightarrow>
                 (case checked_add_u64 (expected_counter s) 1 of
                    None \<Rightarrow> (Panic, s)
                  | Some c \<Rightarrow> (Ok plaintext, s\<lparr>expected_counter := c\<rparr>)))"

record session_keys =
  viewer_to_host :: bytes
  host_to_viewer :: bytes
  hello_binding :: bytes

definition viewer_side :: "session_keys \<Rightarrow> sealed_sender \<times> sealed_receiver" where
  "viewer_side k =
     (sealed_sender_new (viewer_to_host k) (blit ''v2h''),
      sealed_receiver_new (host_to_viewer k) (blit ''h2v''))"

definition host_side :: "session_keys \<Rightarrow> sealed_sender \<times> sealed_receiver" where
  "host_side k =
     (sealed_sender_new (host_to_viewer k) (blit ''h2v''),
      sealed_receiver_new (viewer_to_host k) (blit ''v2h''))"

section \<open>The contract of a counted operation\<close>

text \<open>A run of an operation over a list of inputs: the state before each call with its outcome,
  and the final state.\<close>

primrec run_calls ::
  "('s \<Rightarrow> 'i \<Rightarrow> ('x, 'o) res \<times> 's) \<Rightarrow> 's \<Rightarrow> 'i list \<Rightarrow> ('s \<times> 'i \<times> ('x, 'o) res) list \<times> 's"
where
  "run_calls f s [] = ([], s)"
| "run_calls f s (i # is) =
     (case f s i of (r, s') \<Rightarrow>
        case run_calls f s' is of (rs, s'') \<Rightarrow> ((s, i, r) # rs, s''))"

fun is_Ok :: "('x, 'a) res \<Rightarrow> bool" where
  "is_Ok (Ok _) = True"
| "is_Ok _ = False"

definition succeeded :: "('s \<times> 'i \<times> ('x, 'o) res) list \<Rightarrow> ('s \<times> 'i \<times> ('x, 'o) res) list" where
  "succeeded rs = filter (\<lambda>(s, i, r). is_Ok r) rs"

locale counted_step =
  fixes step :: "'s \<Rightarrow> 'i \<Rightarrow> ('x, 'o) res \<times> 's"
    and counter :: "'s \<Rightarrow> nat"
  assumes step_Ok: "step s i = (Ok out, s') \<Longrightarrow> counter s' = Suc (counter s)"
    and step_other: "step s i = (r, s') \<Longrightarrow> \<not> is_Ok r \<Longrightarrow> s' = s"
begin

lemma run_counters:
  "run_calls step s is = (rs, s') \<Longrightarrow>
     map (\<lambda>(t, i, r). counter t) (succeeded rs) = [counter s..<counter s'] \<and>
     counter s \<le> counter s'"
proof (induction "is" arbitrary: s rs)
  case (Cons i js)
  obtain r t where st: "step s i = (r, t)" by (cases "step s i")
  obtain rs' where rs: "run_calls step t js = (rs', s')" "rs = (s, i, r) # rs'"
    using Cons.prems st by (auto split: prod.splits)
  note IH = Cons.IH [OF rs(1)]
  show ?case
  proof (cases "is_Ok r")
    case True
    then obtain out where "r = Ok out" by (cases r) auto
    with st have "counter t = Suc (counter s)" using step_Ok by simp
    with IH rs True show ?thesis by (auto simp: succeeded_def upt_conv_Cons)
  next
    case False
    with st have "t = s" by (rule step_other)
    with IH rs False show ?thesis by (simp add: succeeded_def)
  qed
qed (simp add: succeeded_def)

lemma run_counters_distinct:
  "run_calls step s is = (rs, s') \<Longrightarrow> distinct (map (\<lambda>(t, i, r). counter t) (succeeded rs))"
  using run_counters [of s "is" rs s'] by simp

end

lemma checked_add_Some:
  "checked_add_u64 a 1 = Some c \<Longrightarrow> unat c = Suc (unat a)"
  by (auto simp: checked_add_u64_def unat_word_ariths split: if_splits)

lemma seal_Ok:
  "seal a m s = (Ok out, s') \<Longrightarrow>
     \<exists>ct. aead_enc a (snd_cipher s) (nonce_for (snd_counter s)) (snd_label s) m = Some ct \<and>
       out = u64_be (snd_counter s) @ ct \<and>
       s' = s\<lparr>snd_counter := snd_counter s + 1\<rparr> \<and>
       unat (snd_counter s') = Suc (unat (snd_counter s))"
  by (auto simp: seal_def Let_def checked_add_u64_def unat_word_ariths
      split: option.splits if_splits)

lemma open_Ok:
  "open_sealed a msg s = (Ok m, s') \<Longrightarrow>
     MIN_SEALED_LEN \<le> length msg \<and> u64_from_be (take 8 msg) = expected_counter s \<and>
     aead_dec a (rcv_cipher s) (nonce_for (expected_counter s)) (rcv_label s) (drop 8 msg) = Some m \<and>
     s' = s\<lparr>expected_counter := expected_counter s + 1\<rparr> \<and>
     unat (expected_counter s') = Suc (unat (expected_counter s))"
  by (auto simp: open_sealed_def Let_def checked_add_u64_def unat_word_ariths
      split: option.splits if_splits)

lemma open_other: "open_sealed a msg s = (r, s') \<Longrightarrow> \<not> is_Ok r \<Longrightarrow> s' = s"
  by (auto simp: open_sealed_def Let_def split: option.splits if_splits)

interpretation sender: counted_step "\<lambda>s m. seal a m s" "\<lambda>s. unat (snd_counter s)" for a
proof unfold_locales
  fix s m out s'
  assume "seal a m s = (Ok out, s')"
  from seal_Ok [OF this] show "unat (snd_counter s') = Suc (unat (snd_counter s))" by blast
next
  fix s m and r :: "(auth_error, bytes) res" and s'
  assume "seal a m s = (r, s')" "\<not> is_Ok r"
  then show "s' = s" by (auto simp: seal_def Let_def split: option.splits)
qed

interpretation receiver: counted_step "\<lambda>s m. open_sealed a m s"
  "\<lambda>s. unat (expected_counter s)" for a
proof unfold_locales
  fix s m out s'
  assume "open_sealed a m s = (Ok out, s')"
  from open_Ok [OF this]
  show "unat (expected_counter s') = Suc (unat (expected_counter s))" by blast
qed (rule open_other)


section \<open>A sender, a network and a receiver\<close>

text \<open>Sealing a list of messages one after the other, if none panics.\<close>

primrec seal_all :: "aead \<Rightarrow> sealed_sender \<Rightarrow> bytes list \<Rightarrow> (bytes list \<times> sealed_sender) option" where
  "seal_all a s [] = Some ([], s)"
| "seal_all a s (m # ms) =
     (case seal a m s of
        (Ok out, s') \<Rightarrow> map_option (\<lambda>(outs, t). (out # outs, t)) (seal_all a s' ms)
      | _ \<Rightarrow> None)"

text \<open>What a receiver accepts of the messages the network gives it: raw message and plaintext.\<close>

primrec open_all ::
  "aead \<Rightarrow> sealed_receiver \<Rightarrow> bytes list \<Rightarrow> (bytes \<times> bytes) list \<times> sealed_receiver"
where
  "open_all a r [] = ([], r)"
| "open_all a r (m # ms) =
     (case open_sealed a m r of
        (Ok p, r') \<Rightarrow> (case open_all a r' ms of (acc, t) \<Rightarrow> ((m, p) # acc, t))
      | (_, r') \<Rightarrow> open_all a r' ms)"

definition lockstep :: "sealed_sender \<Rightarrow> sealed_receiver \<Rightarrow> bool" where
  "lockstep s r \<longleftrightarrow>
     snd_cipher s = rcv_cipher r \<and> snd_label s = rcv_label r \<and> snd_counter s = expected_counter r"

lemma aead_enc_total:
  "aead_ok a \<Longrightarrow> \<exists>c. aead_enc a k n l m = Some c \<and> length c = length m + 16 \<and>
     aead_dec a k n l c = Some m"
  unfolding aead_ok_def by blast

lemma aead_dec_enc: "aead_ok a \<Longrightarrow> aead_dec a k n l c = Some m \<Longrightarrow> aead_enc a k n l m = Some c"
  unfolding aead_ok_def by blast

lemma seal_succeeds:
  assumes "aead_ok a" "unat (snd_counter s) + 1 < 2 ^ 64"
  shows "\<exists>ct. aead_enc a (snd_cipher s) (nonce_for (snd_counter s)) (snd_label s) m = Some ct \<and>
    length ct = length m + 16 \<and>
    seal a m s = (Ok (u64_be (snd_counter s) @ ct), s\<lparr>snd_counter := snd_counter s + 1\<rparr>)"
proof -
  obtain ct where ct: "aead_enc a (snd_cipher s) (nonce_for (snd_counter s)) (snd_label s) m = Some ct"
      "length ct = length m + 16"
    using aead_enc_total [OF assms(1)] by blast
  with assms(2) show ?thesis by (simp add: seal_def checked_add_u64_def)
qed

lemma open_seal:
  assumes "aead_ok a" "lockstep s r" "seal a m s = (Ok out, s')"
  shows "open_sealed a out r = (Ok m, r\<lparr>expected_counter := expected_counter r + 1\<rparr>) \<and>
    lockstep s' (r\<lparr>expected_counter := expected_counter r + 1\<rparr>)"
proof -
  obtain ct where ct:
      "aead_enc a (snd_cipher s) (nonce_for (snd_counter s)) (snd_label s) m = Some ct"
      "out = u64_be (snd_counter s) @ ct" "s' = s\<lparr>snd_counter := snd_counter s + 1\<rparr>"
      "unat (snd_counter s') = Suc (unat (snd_counter s))"
    using seal_Ok [OF assms(3)] by blast
  then have dec: "aead_dec a (snd_cipher s) (nonce_for (snd_counter s)) (snd_label s) ct = Some m"
    and len: "length ct = length m + 16"
    using aead_enc_total [OF assms(1)] by (metis option.inject)+
  have "unat (snd_counter s) + 1 < 2 ^ 64"
    using ct(4) unsigned_less [of "snd_counter s'", where ?'a = nat] by simp
  with assms(2) ct dec len show ?thesis
    by (simp add: open_sealed_def MIN_SEALED_LEN_def lockstep_def checked_add_u64_def)
qed

lemma open_all_seal_all:
  assumes "aead_ok a" "lockstep s r" "seal_all a s ms = Some (outs, s')"
  shows "\<exists>r'. open_all a r outs = (zip outs ms, r') \<and> lockstep s' r' \<and> length outs = length ms"
  using assms(2,3)
proof (induction ms arbitrary: s r outs)
  case (Cons m ms)
  obtain out t outs' where st: "seal a m s = (Ok out, t)" "seal_all a t ms = Some (outs', s')"
      "outs = out # outs'"
    using Cons.prems(2) by (auto split: prod.splits res.splits)
  have "lockstep t (r\<lparr>expected_counter := expected_counter r + 1\<rparr>)"
    using open_seal [OF assms(1) Cons.prems(1) st(1)] by simp
  from Cons.IH [OF this st(2)] st open_seal [OF assms(1) Cons.prems(1) st(1)]
  show ?case by auto
qed auto

lemma seal_all_succeeds:
  assumes "aead_ok a" "unat (snd_counter s) + length ms < 2 ^ 64"
  shows "\<exists>outs s'. seal_all a s ms = Some (outs, s')"
  using assms(2)
proof (induction ms arbitrary: s)
  case (Cons m ms)
  then have "unat (snd_counter s) + 1 < 2 ^ 64" by simp
  then obtain ct where
    st: "seal a m s = (Ok (u64_be (snd_counter s) @ ct), s\<lparr>snd_counter := snd_counter s + 1\<rparr>)"
    using seal_succeeds [OF assms(1)] by blast
  have "unat (snd_counter s + 1) = Suc (unat (snd_counter s))"
    using seal_Ok [OF st] by simp
  with Cons.prems Cons.IH [of "s\<lparr>snd_counter := snd_counter s + 1\<rparr>"] st show ?case by auto
qed simp

text \<open>What is accepted is what sealing the accepted plaintexts in order gives.\<close>

lemma open_all_is_seal_all:
  assumes "aead_ok a" "lockstep s r" "open_all a r msgs = (acc, r')"
  shows "\<exists>s'. seal_all a s (map snd acc) = Some (map fst acc, s') \<and> lockstep s' r'"
  using assms(2,3)
proof (induction msgs arbitrary: s r acc)
  case (Cons msg msgs)
  obtain x t where op: "open_sealed a msg r = (x, t)" by (cases "open_sealed a msg r")
  show ?case
  proof (cases "is_Ok x")
    case True
    then obtain p where x: "x = Ok p" by (cases x) auto
    obtain acc' where acc: "open_all a t msgs = (acc', r')" "acc = (msg, p) # acc'"
      using Cons.prems(2) op x by (auto split: prod.splits)
    have o: "MIN_SEALED_LEN \<le> length msg" "u64_from_be (take 8 msg) = expected_counter r"
        "aead_dec a (rcv_cipher r) (nonce_for (expected_counter r)) (rcv_label r) (drop 8 msg) = Some p"
        "t = r\<lparr>expected_counter := expected_counter r + 1\<rparr>"
        "unat (expected_counter t) = Suc (unat (expected_counter r))"
      using open_Ok [OF op [unfolded x]] by auto
    have "length (take 8 msg) = 8" using o(1) by (simp add: MIN_SEALED_LEN_def)
    then have tk: "take 8 msg = u64_be (expected_counter r)"
      using o(2) u64_be_u64_from_be by metis
    have b: "unat (snd_counter s) + 1 < 2 ^ 64"
      using o(5) unsigned_less [of "expected_counter t", where ?'a = nat] Cons.prems(1)
      by (simp add: lockstep_def)
    have "aead_enc a (snd_cipher s) (nonce_for (snd_counter s)) (snd_label s) p = Some (drop 8 msg)"
      using aead_dec_enc [OF assms(1) o(3)] Cons.prems(1) by (simp add: lockstep_def)
    moreover have "u64_be (snd_counter s) @ drop 8 msg = msg"
      using tk Cons.prems(1) by (metis append_take_drop_id lockstep_def)
    ultimately have st: "seal a p s = (Ok msg, s\<lparr>snd_counter := snd_counter s + 1\<rparr>)"
      using b by (simp add: seal_def checked_add_u64_def)
    have "lockstep (s\<lparr>snd_counter := snd_counter s + 1\<rparr>) t"
      using Cons.prems(1) o(4) by (simp add: lockstep_def)
    from Cons.IH [OF this acc(1)] st acc(2) show ?thesis by auto
  next
    case False
    then have "t = r" using open_other [OF op] by simp
    then have "open_all a r msgs = (acc, r')"
      using Cons.prems(2) op False by (cases x) auto
    with Cons.prems(1) show ?thesis by (rule Cons.IH)
  qed
qed auto

text \<open>The counters of sealed messages: the \<open>i\<close>-th starts with the \<open>i\<close>-th counter.\<close>

lemma seal_all_counters:
  assumes "seal_all a s ms = Some (outs, s')"
  shows "map (\<lambda>x. unat (u64_from_be (take 8 x))) outs =
    [unat (snd_counter s)..<unat (snd_counter s) + length ms] \<and> length outs = length ms"
  using assms
proof (induction ms arbitrary: s outs)
  case (Cons m ms)
  obtain out t outs' where st: "seal a m s = (Ok out, t)" "seal_all a t ms = Some (outs', s')"
      "outs = out # outs'"
    using Cons.prems by (auto split: prod.splits res.splits)
  have t: "unat (snd_counter t) = Suc (unat (snd_counter s))"
    and c: "u64_from_be (take 8 out) = snd_counter s"
    using seal_Ok [OF st(1)] by auto
  have "[unat (snd_counter s)..<unat (snd_counter s) + length (m # ms)] =
      unat (snd_counter s) # [unat (snd_counter t)..<unat (snd_counter t) + length ms]"
    by (simp add: t upt_conv_Cons del: upt_Suc)
  with Cons.IH [OF st(2)] c st(3) show ?case by (simp del: upt_Suc)
qed simp

lemma nth_seal_all_counter:
  assumes "seal_all a s ms = Some (outs, s')" "i < length ms"
  shows "unat (u64_from_be (take 8 (outs ! i))) = unat (snd_counter s) + i"
proof -
  from seal_all_counters [OF assms(1)] assms(2)
  have "map (\<lambda>x. unat (u64_from_be (take 8 x))) outs ! i =
      [unat (snd_counter s)..<unat (snd_counter s) + length ms] ! i" "i < length outs"
    by simp_all
  then show ?thesis using assms(2) by simp
qed

lemma seal_all_same_prefix:
  assumes "seal_all a s ms = Some (outs, s')" "seal_all a s ps = Some (outs', s'')"
    and "set outs' \<subseteq> set outs"
  shows "outs' = take (length ps) outs"
proof (rule nth_equalityI)
  have len: "length outs = length ms" "length outs' = length ps"
    using seal_all_counters assms(1,2) by blast+
  have at: "j < length ms \<and> outs' ! j = outs ! j" if j: "j < length ps" for j
  proof -
    have "outs' ! j \<in> set outs" using assms(3) j len(2) by (auto simp: set_conv_nth)
    then obtain i where i: "i < length ms" "outs ! i = outs' ! j"
      using len(1) by (auto simp: in_set_conv_nth)
    have "i = j"
      using nth_seal_all_counter [OF assms(1) i(1)] nth_seal_all_counter [OF assms(2) j] i(2)
      by simp
    with i show ?thesis by simp
  qed
  have "length ps \<le> length ms"
  proof (rule ccontr)
    assume "\<not> length ps \<le> length ms"
    then show False using at [of "length ms"] by simp
  qed
  then show "length outs' = length (take (length ps) outs)" using len by simp
  fix j assume "j < length outs'"
  then show "outs' ! j = take (length ps) outs ! j" using at len by simp
qed


lemma seal_all_prefix_plain:
  assumes "aead_ok a" "seal_all a s ms = Some (outs, s')" "seal_all a s ps = Some (outs', s'')"
    and "outs' = take (length ps) outs"
  shows "ps = take (length ps) ms"
  using assms(2,3,4)
proof (induction ps arbitrary: s ms outs outs')
  case (Cons p ps)
  obtain out t outs1 where p: "seal a p s = (Ok out, t)" "seal_all a t ps = Some (outs1, s'')"
      "outs' = out # outs1"
    using Cons.prems(2) by (auto split: prod.splits res.splits)
  then obtain outs2 where outs: "outs = out # outs2" "outs1 = take (length ps) outs2"
    using Cons.prems(3) by (cases outs) auto
  then obtain m ms' where ms: "ms = m # ms'"
    using Cons.prems(1) by (cases ms) auto
  then obtain t' where m: "seal a m s = (Ok out, t')" "seal_all a t' ms' = Some (outs2, s')"
    using Cons.prems(1) outs(1) by (auto split: prod.splits res.splits)
  have tt: "t' = t" using seal_Ok [OF m(1)] seal_Ok [OF p(1)] by auto
  have "m = p"
    using seal_Ok [OF m(1)] seal_Ok [OF p(1)] aead_enc_total [OF assms(1)]
    by (metis option.inject append_eq_append_conv)
  moreover have "ps = take (length ps) ms'"
    using Cons.IH [OF m(2) [unfolded tt] p(2) outs(2)] .
  ultimately show ?case using ms by simp
qed simp

lemma nonce_for_inject [simp]: "nonce_for a = nonce_for b \<longleftrightarrow> a = b"
  by (simp add: nonce_for_def)

text \<open>A sample instance of the cipher: the key in front of the tag, no confidentiality.\<close>

definition sample_aead :: aead where
  "sample_aead =
     \<lparr>aead_enc = (\<lambda>k n l m. Some (m @ take 16 (k @ replicate 16 0))),
      aead_dec = (\<lambda>k n l c.
        if length c \<ge> 16 \<and> drop (length c - 16) c = take 16 (k @ replicate 16 0)
        then Some (take (length c - 16) c) else None)\<rparr>"

lemma sample_aead_ok: "aead_ok sample_aead"
  by (auto simp: aead_ok_def sample_aead_def) (metis append_take_drop_id)

section \<open>Properties\<close>



text \<open>Sealed round trip: a sender and a receiver in lockstep pass any list of messages in
  order, each opened to the plaintext it was sealed from, and stay in lockstep.\<close>

theorem sealed_roundtrip:
  assumes "aead_ok a" and "lockstep s r" and "unat (snd_counter s) + length ms < 2 ^ 64"
  shows "\<exists>outs s' r'. seal_all a s ms = Some (outs, s') \<and>
    open_all a r outs = (zip outs ms, r') \<and> length outs = length ms \<and> lockstep s' r'"
proof -
  obtain outs s' where s: "seal_all a s ms = Some (outs, s')"
    using seal_all_succeeds [OF assms(1,3)] by blast
  from open_all_seal_all [OF assms(1,2) s] s show ?thesis by blast
qed

theorem sealed_roundtrip_witness:
  "\<exists>outs s' r'. seal_all sample_aead (sealed_sender_new [1] [2]) [[7], []] = Some (outs, s') \<and>
    open_all sample_aead (sealed_receiver_new [1] [2]) outs = (zip outs [[7], []], r') \<and>
    length outs = length [[7 :: byte], []] \<and> lockstep s' r'"
  by (rule sealed_roundtrip)
    (simp_all add: sample_aead_ok lockstep_def sealed_sender_new_def sealed_receiver_new_def)

text \<open>C22: Replay, reordering and gaps: let the network deliver any messages in any order and
  number.  If the receiver accepts none that the sender did not produce, then what it accepts is
  a prefix of what the sender sealed, each message once and in order.\<close>

theorem sealed_accepts_prefix:
  assumes "aead_ok a" and "lockstep s r"
    and "seal_all a s ms = Some (outs, s')"
    and "open_all a r delivered = (accepted, r')"
    and "set (map fst accepted) \<subseteq> set outs"
  shows "map fst accepted = take (length accepted) outs \<and>
    map snd accepted = take (length accepted) ms"
proof -
  obtain t where t: "seal_all a s (map snd accepted) = Some (map fst accepted, t)"
    using open_all_is_seal_all [OF assms(1,2,4)] by blast
  have "map fst accepted = take (length (map snd accepted)) outs"
    using assms(3) t assms(5) by (rule seal_all_same_prefix)
  moreover from this have "map snd accepted = take (length (map snd accepted)) ms"
    using seal_all_prefix_plain [OF assms(1,3) t] by blast
  ultimately show ?thesis by simp
qed

theorem sealed_accepts_prefix_witness:
  "\<exists>outs s' acc r'. seal_all sample_aead (sealed_sender_new [1] [2]) [[7], [8]] = Some (outs, s') \<and>
    open_all sample_aead (sealed_receiver_new [1] [2]) [outs ! 1, outs ! 0, outs ! 0] = (acc, r') \<and>
    map snd acc = take (length acc) [[7], [8]]"
proof -
  let ?s = "sealed_sender_new [1] [2]" and ?r = "sealed_receiver_new [1] [2]"
  have l: "lockstep ?s ?r"
    by (simp add: lockstep_def sealed_sender_new_def sealed_receiver_new_def)
  obtain outs s' where out: "seal_all sample_aead ?s [[7], [8]] = Some (outs, s')"
    using seal_all_succeeds [OF sample_aead_ok, of ?s "[[7], [8]]"]
    by (auto simp: sealed_sender_new_def)
  obtain acc r' where a: "open_all sample_aead ?r [outs ! 1, outs ! 0, outs ! 0] = (acc, r')"
    by (cases "open_all sample_aead ?r [outs ! 1, outs ! 0, outs ! 0]")
  have "set (map fst acc) \<subseteq> {outs ! 1, outs ! 0}"
    using a by (auto split: prod.splits res.splits)
  moreover have "length outs = 2" using seal_all_counters [OF out] by simp
  then have "{outs ! 1, outs ! 0} \<subseteq> set outs" by simp
  ultimately have "set (map fst acc) \<subseteq> set outs" by (rule subset_trans)
  from sealed_accepts_prefix [OF sample_aead_ok l out a this] out a show ?thesis by blast
qed

text \<open>Opening is exact and failure is clean: a message is accepted only if it is the sealing,
  at the expected counter, of the plaintext handed out; a refused message is reported as
  \<open>BadSeal\<close> and changes nothing, so a message opened once is never opened again.\<close>

theorem open_sealed_exact:
  assumes "aead_ok a"
  shows "case open_sealed a msg r of
      (Ok p, r') \<Rightarrow>
        (\<exists>s s'. lockstep s r \<and> seal a p s = (Ok msg, s') \<and> lockstep s' r') \<and>
        open_sealed a msg r' = (Err BadSeal, r')
    | (Err e, r') \<Rightarrow> e = BadSeal \<and> r' = r
    | (_, r') \<Rightarrow> r' = r"
proof (cases "open_sealed a msg r")
  case (Pair x r')
  show ?thesis
  proof (cases x)
    case (Ok p)
    let ?s = "\<lparr>snd_cipher = rcv_cipher r, snd_label = rcv_label r, snd_counter = expected_counter r\<rparr>"
    have l: "lockstep ?s r" by (simp add: lockstep_def)
    have "open_all a r [msg] = ([(msg, p)], r')" using Pair Ok by simp
    from open_all_is_seal_all [OF assms l this]
    have "\<exists>s'. seal a p ?s = (Ok msg, s') \<and> lockstep s' r'"
      by (auto split: prod.splits res.splits)
    moreover have "open_sealed a msg r' = (Err BadSeal, r')"
      using open_Ok [OF Pair [unfolded Ok]] by (auto simp: open_sealed_def)
    ultimately show ?thesis using Pair Ok l by auto
  next
    case (Err e)
    then have "r' = r" using open_other [OF Pair] by simp
    moreover have "e = BadSeal"
      using Pair Err by (auto simp: open_sealed_def Let_def split: option.splits if_splits)
    ultimately show ?thesis using Pair Err by simp
  qed (use open_other [OF Pair] Pair in simp_all)
qed

theorem open_sealed_exact_witness:
  "open_sealed sample_aead [] (sealed_receiver_new [1] [2]) = (Err BadSeal, sealed_receiver_new [1] [2])"
  using open_sealed_exact [OF sample_aead_ok, where msg = "[]" and r = "sealed_receiver_new [1] [2]"]
  by (simp add: open_sealed_def MIN_SEALED_LEN_def)

text \<open>The two sides of a session fit: each side's sender is in lockstep with the other side's
  receiver, both counters start at zero, and the two directions never share a label, so they
  carry different associated data even if their keys were equal.\<close>

theorem session_sides_match:
  "lockstep (fst (viewer_side k)) (snd (host_side k)) \<and>
   lockstep (fst (host_side k)) (snd (viewer_side k)) \<and>
   snd_counter (fst (viewer_side k)) = 0 \<and> snd_counter (fst (host_side k)) = 0 \<and>
   snd_label (fst (viewer_side k)) \<noteq> snd_label (fst (host_side k))"
  by (simp add: viewer_side_def host_side_def lockstep_def sealed_sender_new_def
      sealed_receiver_new_def blit_def)

end
