(* ===== verification/SignalingHex.thy ===== *)
theory SignalingHex
  imports Protocol
begin

text \<open>
  \<open>signaling/src/hex.ts\<close>: the hex codec of the signaling server, the other end of the texts the
  Rust programs build with the \<open>hex\<close> crate.  It is also the instance of the hex functions of
  \<open>wire\<close> the witnesses use, next to a sample byte format for postcard (\<open>sample_wire\<close>).
\<close>

section \<open>The hex codec of the server\<close>

text \<open>The characters \<open>0-9a-fA-F\<close> of the pattern and the value \<open>parseInt\<close> gives them.\<close>

definition hex_value :: "nat \<Rightarrow> nat option" where
  "hex_value c =
     (if 48 \<le> c \<and> c \<le> 57 then Some (c - 48)
      else if 97 \<le> c \<and> c \<le> 102 then Some (c - 87)
      else if 65 \<le> c \<and> c \<le> 70 then Some (c - 55)
      else None)"

fun from_hex :: "ustr \<Rightarrow> bytes option" where
  "from_hex [] = Some []"
| "from_hex [c] = None"
| "from_hex (c # d # r) =
     (case (hex_value c, hex_value d) of
        (Some h, Some l) \<Rightarrow> map_option (Cons (byte_of (h * 16 + l))) (from_hex r)
      | _ \<Rightarrow> None)"

definition hex_digit :: "nat \<Rightarrow> nat" where
  "hex_digit n = (if n < 10 then 48 + n else 87 + n)"

text \<open>\<open>b.toString(16).padStart(2, "0")\<close> for every byte, joined.\<close>

definition to_hex :: "bytes \<Rightarrow> ustr" where
  "to_hex bs = concat (map (\<lambda>b. [hex_digit (unat b div 16), hex_digit (unat b mod 16)]) bs)"

lemma hex_value_digit: "n < 16 \<Longrightarrow> hex_value (hex_digit n) = Some n"
  by (auto simp: hex_value_def hex_digit_def)

lemma is_hex_lower_digit: "n < 16 \<Longrightarrow> is_hex_lower (hex_digit n)"
  by (auto simp: is_hex_lower_def hex_digit_def)

lemma byte_of_unat [simp]: "byte_of (unat b) = b"
  by (simp add: byte_of_def)

lemma unat_byte_div16: "unat (b :: byte) div 16 < 16"
  by (rule less_mult_imp_div_less) simp

lemma from_hex_to_hex: "from_hex (to_hex bs) = Some bs"
proof (induction bs)
  case (Cons b bs)
  then show ?case
    using unat_byte_div16 [of b]
    by (simp add: to_hex_def hex_value_digit div_mult_mod_eq)
qed (simp add: to_hex_def)

lemma to_hex_shape: "length (to_hex bs) = 2 * length bs \<and> list_all is_hex_lower (to_hex bs)"
proof (induction bs)
  case (Cons b bs)
  then show ?case
    using unat_byte_div16 [of b] by (simp add: to_hex_def is_hex_lower_digit)
qed (simp add: to_hex_def)

lemma from_hex_even: "from_hex s = Some bs \<Longrightarrow> length s = 2 * length bs"
  by (induction s arbitrary: bs rule: from_hex.induct) (auto split: option.splits)

section \<open>A sample byte format for the witnesses\<close>

text \<open>Numbers in unary, byte strings with a marker in front of every byte: every list of values
  can be told from what follows it, without a bound on any length.\<close>

definition put_nat :: "nat \<Rightarrow> bytes" where
  "put_nat n = replicate n 1 @ [0]"

fun get_nat :: "bytes \<Rightarrow> (nat \<times> bytes) option" where
  "get_nat [] = None"
| "get_nat (b # r) =
     (if b = 0 then Some (0, r) else map_option (\<lambda>(n, r'). (Suc n, r')) (get_nat r))"

fun put_list :: "('a \<Rightarrow> bytes) \<Rightarrow> 'a list \<Rightarrow> bytes" where
  "put_list f [] = [0]"
| "put_list f (x # xs) = 1 # f x @ put_list f xs"

fun get_list :: "(bytes \<Rightarrow> ('a \<times> bytes) option) \<Rightarrow> nat \<Rightarrow> bytes \<Rightarrow> ('a list \<times> bytes) option" where
  "get_list g 0 bs = None"
| "get_list g (Suc n) [] = None"
| "get_list g (Suc n) (b # r) =
     (if b = 0 then Some ([], r)
      else case g r of None \<Rightarrow> None
        | Some (x, r') \<Rightarrow> map_option (\<lambda>(xs, r''). (x # xs, r'')) (get_list g n r'))"

definition get_byte :: "bytes \<Rightarrow> (byte \<times> bytes) option" where
  "get_byte bs = (case bs of [] \<Rightarrow> None | b # r \<Rightarrow> Some (b, r))"

abbreviation put_bytes :: "bytes \<Rightarrow> bytes" where
  "put_bytes \<equiv> put_list (\<lambda>b. [b])"

abbreviation get_bytes :: "bytes \<Rightarrow> (bytes \<times> bytes) option" where
  "get_bytes bs \<equiv> get_list get_byte (Suc (length bs)) bs"

abbreviation put_str :: "ustr \<Rightarrow> bytes" where
  "put_str \<equiv> put_list put_nat"

abbreviation get_str :: "bytes \<Rightarrow> (ustr \<times> bytes) option" where
  "get_str bs \<equiv> get_list get_nat (Suc (length bs)) bs"

lemma get_put_nat [simp]: "get_nat (put_nat n @ r) = Some (n, r)"
  by (induction n) (simp_all add: put_nat_def)

lemma get_put_list:
  assumes "\<And>x r. g (f x @ r) = Some (x, r)" "length xs < n"
  shows "get_list g n (put_list f xs @ r) = Some (xs, r)"
  using assms(2)
proof (induction xs arbitrary: n)
  case Nil
  then show ?case by (cases n) simp_all
next
  case (Cons x xs)
  then show ?case by (cases n) (simp_all add: assms(1))
qed

lemma length_put_list: "length xs < length (put_list f xs)"
  by (induction xs) auto

lemma get_put_bytes [simp]: "get_bytes (put_bytes xs @ r) = Some (xs, r)"
  by (rule get_put_list) (use length_put_list [of xs "\<lambda>b. [b]"] in \<open>simp_all add: get_byte_def\<close>)

lemma get_put_str [simp]: "get_str (put_str xs @ r) = Some (xs, r)"
  by (rule get_put_list) (use length_put_list [of xs put_nat] in simp_all)

text \<open>The two message formats, a tag byte and the fields.\<close>

fun sample_pake_to :: "pake_msg \<Rightarrow> bytes" where
  "sample_pake_to (PStart pa) = 0 # put_bytes pa"
| "sample_pake_to (PReply pb m) = 1 # put_bytes pb @ put_bytes m"
| "sample_pake_to (PConfirm m so) = 2 # put_bytes m @ put_bytes so"
| "sample_pake_to (PAnswer sa) = 3 # put_bytes sa"
| "sample_pake_to (PRetryAfter ms) = 4 # put_bytes (u64_be ms)"
| "sample_pake_to PRejected = [5]"

definition get1 :: "(bytes \<Rightarrow> 'm) \<Rightarrow> bytes \<Rightarrow> 'm option" where
  "get1 c bs = (case get_bytes bs of Some (x, []) \<Rightarrow> Some (c x) | _ \<Rightarrow> None)"

definition get2 :: "(bytes \<Rightarrow> bytes \<Rightarrow> 'm) \<Rightarrow> bytes \<Rightarrow> 'm option" where
  "get2 c bs = (case get_bytes bs of Some (x, r) \<Rightarrow> get1 (c x) r | _ \<Rightarrow> None)"

lemma get1_put [simp]: "get1 c (put_bytes x) = Some (c x)"
  using get_put_bytes [of x "[]"] by (simp add: get1_def del: get_put_bytes)

lemma get2_put [simp]: "get2 c (put_bytes x @ put_bytes y) = Some (c x y)"
  by (simp only: get2_def get_put_bytes option.case prod.case get1_put)

definition sample_pake_from :: "bytes \<Rightarrow> pake_msg option" where
  "sample_pake_from bs =
     (case bs of
        [] \<Rightarrow> None
      | t # r \<Rightarrow>
          if t = 0 then get1 PStart r
          else if t = 1 then get2 PReply r
          else if t = 2 then get2 PConfirm r
          else if t = 3 then get1 PAnswer r
          else if t = 4 then get1 (\<lambda>x. PRetryAfter (u64_from_be x)) r
          else if t = 5 \<and> r = [] then Some PRejected
          else None)"

lemma sample_pake_roundtrip: "sample_pake_from (sample_pake_to m) = Some m"
  by (cases m) (simp_all add: sample_pake_from_def)

fun sample_reason_to :: "reject_reason \<Rightarrow> bytes" where
  "sample_reason_to RDenied = [0]"
| "sample_reason_to RNoResponse = [1]"
| "sample_reason_to (RVersionMismatch v) = 2 # be_bytes 4 (unat v)"
| "sample_reason_to RBadIdentity = [3]"

definition sample_reason_from :: "bytes \<Rightarrow> reject_reason option" where
  "sample_reason_from bs =
     (case bs of
        [] \<Rightarrow> None
      | t # r \<Rightarrow>
          if t = 0 then Some RDenied
          else if t = 1 then Some RNoResponse
          else if t = 2 then Some (RVersionMismatch (u32_from_be r))
          else if t = 3 then Some RBadIdentity
          else None)"

fun sample_control_to :: "control \<Rightarrow> bytes" where
  "sample_control_to (CHello h) =
     0 # put_bytes (be_bytes 4 (unat (protocol_version h))) @ put_bytes (device_key h) @
     put_str (device_name h) @ put_bytes (reconnect_key h) @ put_bytes (reconnect_key_sig h) @
     put_bytes (session_sig h)"
| "sample_control_to (CDecision Accepted) = [1]"
| "sample_control_to (CDecision (Rejected x)) = 2 # sample_reason_to x"
| "sample_control_to (CPing s) = 3 # u64_be s"
| "sample_control_to (CPong s) = 4 # u64_be s"

definition sample_hello_from :: "bytes \<Rightarrow> control option" where
  "sample_hello_from bs =
     (case get_bytes bs of None \<Rightarrow> None | Some (v, r1) \<Rightarrow>
      case get_bytes r1 of None \<Rightarrow> None | Some (dk, r2) \<Rightarrow>
      case get_str r2 of None \<Rightarrow> None | Some (n, r3) \<Rightarrow>
      case get_bytes r3 of None \<Rightarrow> None | Some (rk, r4) \<Rightarrow>
      get2 (\<lambda>rs ss. CHello \<lparr>protocol_version = u32_from_be v, device_key = dk, device_name = n,
        reconnect_key = rk, reconnect_key_sig = rs, session_sig = ss\<rparr>) r4)"

definition sample_control_from :: "bytes \<Rightarrow> control option" where
  "sample_control_from bs =
     (case bs of
        [] \<Rightarrow> None
      | t # r \<Rightarrow>
          if t = 0 then sample_hello_from r
          else if t = 1 then Some (CDecision Accepted)
          else if t = 2 then map_option (\<lambda>x. CDecision (Rejected x)) (sample_reason_from r)
          else if t = 3 then Some (CPing (u64_from_be r))
          else if t = 4 then Some (CPong (u64_from_be r))
          else None)"

lemma u32_from_be_bytes [simp]: "u32_from_be (be_bytes 4 (unat (v :: u32))) = v"
proof -
  have "unat v < 256 ^ 4" using unsigned_less [of v, where ?'a = nat] by simp
  then show ?thesis by (simp add: u32_from_be_def be_nat_be_bytes)
qed

lemma sample_hello_roundtrip: "sample_control_from (sample_control_to (CHello h)) = Some (CHello h)"
  by (simp only: sample_control_to.simps sample_control_from_def sample_hello_from_def list.case
      simp_thms if_True get_put_bytes get_put_str option.case prod.case get2_put u32_from_be_bytes)
    simp

lemma sample_control_roundtrip: "sample_control_from (sample_control_to m) = Some m"
proof (cases m)
  case (CHello h)
  then show ?thesis by (simp only: sample_hello_roundtrip)
next
  case (CDecision d)
  show ?thesis
  proof (cases d)
    case (Rejected x)
    then show ?thesis
      using CDecision by (cases x) (simp_all add: sample_control_from_def sample_reason_from_def)
  qed (simp add: CDecision sample_control_from_def)
qed (simp_all add: sample_control_from_def)

definition sample_wire :: wire where
  "sample_wire =
     \<lparr>control_to = (\<lambda>m. Some (sample_control_to m)), control_from = sample_control_from,
      pake_to = (\<lambda>m. Some (sample_pake_to m)), pake_from = sample_pake_from,
      hex_enc = to_hex, hex_dec = from_hex\<rparr>"

lemma sample_wire_ok: "wire_ok sample_wire"
  by (simp add: wire_ok_def sample_wire_def sample_control_roundtrip sample_pake_roundtrip
      from_hex_to_hex to_hex_shape)

section \<open>Properties\<close>

text \<open>The hex codec of the signaling server is a round trip: what \<open>toHex\<close> writes has two
  lower-case digits per byte, \<open>fromHex\<close> reads it back, and \<open>fromHex\<close> refuses every text of odd
  length.\<close>

theorem server_hex_roundtrip:
  "from_hex (to_hex bs) = Some bs \<and> length (to_hex bs) = 2 * length bs \<and>
   list_all is_hex_lower (to_hex bs) \<and> from_hex (48 # to_hex bs) = None"
proof -
  have "from_hex (48 # to_hex bs) = None"
  proof (cases "from_hex (48 # to_hex bs)")
    case (Some x)
    from from_hex_even [OF this] to_hex_shape [of bs] have "Suc (2 * length bs) = 2 * length x"
      by simp
    then have False by presburger
    then show ?thesis ..
  qed
  then show ?thesis using from_hex_to_hex to_hex_shape by simp
qed

end
