(* ===== verification/Identity.thy ===== *)
theory Identity
  imports SignalingHex AuthCode
begin

text \<open>
  \<open>crates/auth/src/identity.rs\<close>: the long-term keys of a device, the \<open>Hello\<close> it signs over a
  session, its verification and the displayed key fingerprint.  Ed25519, X25519 and SHA-256 are
  third-party crates, the fields of \<open>id_lib\<close>; \<open>sigs_ok\<close> says that a signature verifies under its
  own key and that keys and signatures have their fixed lengths.
\<close>

section \<open>Keys and names\<close>

record ('sk, 'xk, 'rnd) id_lib =
  sig_generate :: "'rnd \<Rightarrow> 'sk" \<comment> \<open>\<open>SigningKey::generate\<close>\<close>
  sig_public :: "'sk \<Rightarrow> bytes" \<comment> \<open>\<open>verifying_key().to_bytes()\<close>\<close>
  sig_sign :: "'sk \<Rightarrow> bytes \<Rightarrow> bytes"
  sig_key_ok :: "bytes \<Rightarrow> bool" \<comment> \<open>\<open>VerifyingKey::from_bytes\<close> succeeds\<close>
  sig_verify :: "bytes \<Rightarrow> bytes \<Rightarrow> bytes \<Rightarrow> bool" \<comment> \<open>\<open>verify_strict\<close>: key, message, signature\<close>
  xk_generate :: "'rnd \<Rightarrow> 'xk"
  xk_public :: "'xk \<Rightarrow> bytes"
  sha256 :: "bytes \<Rightarrow> bytes"

definition sigs_ok :: "('sk, 'xk, 'rnd) id_lib \<Rightarrow> bool" where
  "sigs_ok lib \<longleftrightarrow>
     (\<forall>k. length (sig_public lib k) = 32 \<and> sig_key_ok lib (sig_public lib k)) \<and>
     (\<forall>k m. length (sig_sign lib k m) = 64 \<and>
        sig_verify lib (sig_public lib k) m (sig_sign lib k m)) \<and>
     (\<forall>x. length (xk_public lib x) = 32)"

datatype role = RViewer | RHost

fun role_byte :: "role \<Rightarrow> byte" where
  "role_byte RViewer = 1"
| "role_byte RHost = 2"

definition RECONNECT_KEY_CONTEXT :: bytes where
  "RECONNECT_KEY_CONTEXT = blit ''simple-remote reconnect key v1''"

definition HELLO_CONTEXT :: bytes where
  "HELLO_CONTEXT = blit ''simple-remote hello v1''"

definition NAME_MAX_BYTES :: nat where
  "NAME_MAX_BYTES = 64"

record ('sk, 'xk) device_keys =
  signing_key :: 'sk
  reconnect_secret :: 'xk
  dk_name :: ustr

record peer_identity =
  pi_device_key :: bytes
  pi_name :: ustr
  pi_reconnect_key :: bytes

text \<open>\<open>char::is_control\<close>: the general category Cc.\<close>

definition is_control :: "nat \<Rightarrow> bool" where
  "is_control c \<longleftrightarrow> c < 0x20 \<or> (0x7F \<le> c \<and> c \<le> 0x9F)"

definition check_device_name :: "ustr \<Rightarrow> auth_error + unit" where
  "check_device_name name =
     (if name = [] \<or> length (as_bytes name) > NAME_MAX_BYTES then Inl NameTooLong
      else if list_ex is_control name then Inl (Malformed ''device_name'')
      else Inr ())"

definition device_keys_generate ::
  "('sk, 'xk, 'rnd) id_lib \<Rightarrow> ustr \<Rightarrow> 'rnd \<Rightarrow> 'rnd \<Rightarrow> auth_error + ('sk, 'xk) device_keys"
where
  "device_keys_generate lib name rnd1 rnd2 =
     (case check_device_name name of
        Inl e \<Rightarrow> Inl e
      | Inr _ \<Rightarrow> Inr \<lparr>signing_key = sig_generate lib rnd1, reconnect_secret = xk_generate lib rnd2,
                      dk_name = name\<rparr>)"

definition device_public :: "('sk, 'xk, 'rnd) id_lib \<Rightarrow> ('sk, 'xk) device_keys \<Rightarrow> bytes" where
  "device_public lib k = sig_public lib (signing_key k)"

definition reconnect_public :: "('sk, 'xk, 'rnd) id_lib \<Rightarrow> ('sk, 'xk) device_keys \<Rightarrow> bytes" where
  "reconnect_public lib k = xk_public lib (reconnect_secret k)"

definition sign_raw :: "('sk, 'xk, 'rnd) id_lib \<Rightarrow> ('sk, 'xk) device_keys \<Rightarrow> bytes \<Rightarrow> bytes" where
  "sign_raw lib k msg = sig_sign lib (signing_key k) msg"

section \<open>Hello\<close>

definition reconnect_message :: "bytes \<Rightarrow> bytes" where
  "reconnect_message key = RECONNECT_KEY_CONTEXT @ key"

text \<open>The lengths are cast with \<open>as u16\<close>, which drops the high bits.\<close>

definition session_message :: "role \<Rightarrow> bytes \<Rightarrow> bytes \<Rightarrow> bytes \<Rightarrow> bytes \<Rightarrow> bytes" where
  "session_message r binding own_fp peer_fp name =
     HELLO_CONTEXT @ [role_byte r] @ binding @
     u16_be (of_nat (length own_fp)) @ own_fp @
     u16_be (of_nat (length peer_fp)) @ peer_fp @
     u16_be (of_nat (length name)) @ name"

definition make_hello ::
  "('sk, 'xk, 'rnd) id_lib \<Rightarrow> ('sk, 'xk) device_keys \<Rightarrow> role \<Rightarrow> bytes \<Rightarrow> bytes \<Rightarrow> bytes \<Rightarrow> hello"
where
  "make_hello lib k r binding own_fp peer_fp =
     (let rp = reconnect_public lib k;
          reconnect_sig = sign_raw lib k (reconnect_message rp);
          sess_sig = sign_raw lib k (session_message r binding own_fp peer_fp (as_bytes (dk_name k)))
      in \<lparr>protocol_version = PROTOCOL_VERSION,
          device_key = device_public lib k,
          device_name = dk_name k,
          reconnect_key = rp,
          reconnect_key_sig = reconnect_sig,
          session_sig = sess_sig\<rparr>)"

definition verify_hello ::
  "('sk, 'xk, 'rnd) id_lib \<Rightarrow> hello \<Rightarrow> role \<Rightarrow> bytes \<Rightarrow> bytes \<Rightarrow> bytes \<Rightarrow> auth_error + peer_identity"
where
  "verify_hello lib h sender binding sender_fp receiver_fp =
     (if length (device_key h) \<noteq> 32 then Inl (Malformed ''device_key'')
      else if length (reconnect_key h) \<noteq> 32 then Inl (Malformed ''reconnect_key'')
      else if length (reconnect_key_sig h) \<noteq> 64 then Inl (Malformed ''reconnect_key_sig'')
      else if length (session_sig h) \<noteq> 64 then Inl (Malformed ''session_sig'')
      else case check_device_name (device_name h) of
        Inl e \<Rightarrow> Inl e
      | Inr _ \<Rightarrow>
         if \<not> sig_key_ok lib (device_key h) then Inl (Malformed ''device_key'')
         else if \<not> sig_verify lib (device_key h) (reconnect_message (reconnect_key h))
                    (reconnect_key_sig h)
         then Inl BadSignature
         else if \<not> sig_verify lib (device_key h)
                    (session_message sender binding sender_fp receiver_fp (as_bytes (device_name h)))
                    (session_sig h)
         then Inl BadSignature
         else Inr \<lparr>pi_device_key = device_key h, pi_name = device_name h,
                   pi_reconnect_key = reconnect_key h\<rparr>)"

section \<open>Key fingerprint\<close>

fun chunks4 :: "'a list \<Rightarrow> 'a list list" where
  "chunks4 [] = []"
| "chunks4 xs = take 4 xs # chunks4 (drop 4 xs)"

fun join_space :: "ustr list \<Rightarrow> ustr" where
  "join_space [] = []"
| "join_space [x] = x"
| "join_space (x # xs) = x @ [32] @ join_space xs"

text \<open>\<open>None\<close> is the panic of \<open>from_utf8(c).unwrap()\<close>.\<close>

definition key_fingerprint :: "('sk, 'xk, 'rnd) id_lib \<Rightarrow> wire \<Rightarrow> bytes \<Rightarrow> ustr option" where
  "key_fingerprint lib w key =
     (let hash = sha256 lib key;
          hex = hex_enc w (take 8 hash)
      in map_option join_space (those (map from_utf8 (chunks4 (as_bytes hex)))))"


section \<open>Lemmas\<close>

lemma u16_len_inject:
  assumes "m < 65536" "n < 65536"
  shows "u16_be (of_nat m) = u16_be (of_nat n) \<longleftrightarrow> m = n"
proof -
  have "unat (of_nat m :: u16) = m" "unat (of_nat n :: u16) = n"
    using assms by (simp_all add: unat_of_nat)
  then show ?thesis by (metis u16_be_inject)
qed

text \<open>A length-prefixed field followed by anything can be read back.\<close>

lemma prefixed_inject:
  assumes "length xs < 65536" "length ys < 65536"
    and "u16_be (of_nat (length xs)) @ xs @ r = u16_be (of_nat (length ys)) @ ys @ t"
  shows "xs = ys \<and> r = t"
proof -
  have "u16_be (of_nat (length xs)) = u16_be (of_nat (length ys)) \<and> xs @ r = ys @ t"
    using assms(3) by (simp add: append_eq_append_conv)
  then show ?thesis
    using u16_len_inject [OF assms(1,2)] by (simp add: append_eq_append_conv)
qed

lemma role_byte_inject [simp]: "role_byte a = role_byte b \<longleftrightarrow> a = b"
  by (cases a; cases b) simp_all

definition short_field :: "bytes \<Rightarrow> bool" where
  "short_field bs \<longleftrightarrow> length bs < 65536"

lemma session_message_inject:
  assumes "session_message r b f p n = session_message r' b' f' p' n'"
    and "length b = 32" "length b' = 32"
    and "short_field f" "short_field f'" "short_field p" "short_field p'"
      "short_field n" "short_field n'"
  shows "r = r' \<and> b = b' \<and> f = f' \<and> p = p' \<and> n = n'"
proof -
  have h: "r = r'" "b = b'"
      "u16_be (of_nat (length f)) @ f @ u16_be (of_nat (length p)) @ p @
       u16_be (of_nat (length n)) @ n =
       u16_be (of_nat (length f')) @ f' @ u16_be (of_nat (length p')) @ p' @
       u16_be (of_nat (length n')) @ n'"
    using assms(1-3) by (simp_all add: session_message_def append_eq_append_conv)
  note sf = assms(4-9) [unfolded short_field_def]
  from prefixed_inject [OF sf(1,2) h(3)]
  have f: "f = f'" "u16_be (of_nat (length p)) @ p @ u16_be (of_nat (length n)) @ n =
      u16_be (of_nat (length p')) @ p' @ u16_be (of_nat (length n')) @ n'" by auto
  from prefixed_inject [OF sf(3,4) f(2)]
  have p: "p = p'" "u16_be (of_nat (length n)) @ n @ [] = u16_be (of_nat (length n')) @ n' @ []"
    by auto
  from prefixed_inject [OF sf(5,6) p(2)] h f p show ?thesis by simp
qed

lemma check_device_name_Inr:
  "check_device_name name = Inr () \<longleftrightarrow>
     1 \<le> length (as_bytes name) \<and> length (as_bytes name) \<le> 64 \<and> \<not> list_ex is_control name"
proof -
  have "name \<noteq> [] \<Longrightarrow> 1 \<le> length (as_bytes name)"
    by (cases name) (auto simp: as_bytes_def utf8_char_def Suc_le_eq)
  then show ?thesis
    by (cases "name = []") (auto simp: check_device_name_def NAME_MAX_BYTES_def)
qed

lemma verify_hello_Inr:
  "verify_hello lib h sender binding sfp rfp = Inr pid \<longleftrightarrow>
     length (device_key h) = 32 \<and> length (reconnect_key h) = 32 \<and>
     length (reconnect_key_sig h) = 64 \<and> length (session_sig h) = 64 \<and>
     check_device_name (device_name h) = Inr () \<and> sig_key_ok lib (device_key h) \<and>
     sig_verify lib (device_key h) (reconnect_message (reconnect_key h)) (reconnect_key_sig h) \<and>
     sig_verify lib (device_key h)
       (session_message sender binding sfp rfp (as_bytes (device_name h))) (session_sig h) \<and>
     pid = \<lparr>pi_device_key = device_key h, pi_name = device_name h,
           pi_reconnect_key = reconnect_key h\<rparr>"
  by (auto simp: verify_hello_def split: sum.splits if_splits)

lemma device_keys_generate_name:
  "device_keys_generate lib name a b = Inr k \<Longrightarrow>
     dk_name k = name \<and> check_device_name (dk_name k) = Inr ()"
  by (auto simp: device_keys_generate_def split: sum.splits)

lemma length_chunks4: "length (chunks4 xs) = (length xs + 3) div 4"
proof (induction xs rule: chunks4.induct)
  case (2 v va)
  have "Suc ((length va - 3 + 3) div 4) = (4 + length va) div 4"
    by (cases "length va < 3") simp_all
  with 2 show ?case by simp
qed simp

lemma those_Some: "list_all (\<lambda>x. x \<noteq> None) xs \<Longrightarrow> those xs = Some (map the xs)"
  by (induction xs) auto

lemma from_utf8_ascii: "list_all (\<lambda>c. c < 0x80) s \<Longrightarrow> from_utf8 (map byte_of s) = Some s"
proof -
  assume a: "list_all (\<lambda>c. c < 0x80) s"
  then have "valid_str s" by (auto simp: valid_str_def is_scalar_def list_all_iff)
  from from_utf8_as_bytes [OF this] as_bytes_ascii [OF a] show ?thesis by simp
qed

lemma chunks4_map: "chunks4 (map f xs) = map (map f) (chunks4 xs)"
  by (induction xs rule: chunks4.induct) (simp_all add: take_map drop_map)

lemma chunks4_all: "list_all P xs \<Longrightarrow> list_all (list_all P) (chunks4 xs)"
proof (induction xs rule: chunks4.induct)
  case (2 v va)
  then have "list_all P (take 4 (v # va))" "list_all P (drop 4 (v # va))"
    by (metis append_take_drop_id list_all_append)+
  with 2 show ?case by simp
qed simp

lemma length_join_space: "xs \<noteq> [] \<Longrightarrow> length (join_space xs) + 1 = sum_list (map length xs) + length xs"
  by (induction xs rule: join_space.induct) auto

lemma sum_length_chunks4: "sum_list (map length (chunks4 xs)) = length xs"
  by (induction xs rule: chunks4.induct) auto

lemma concat_chunks4: "concat (chunks4 xs) = xs"
proof (induction xs rule: chunks4.induct)
  case (2 v va)
  then show ?case using append_take_drop_id [of 4 "v # va"] by simp
qed simp

lemma fingerprint_value:
  assumes "wire_ok w"
  shows "key_fingerprint lib w key = Some (join_space (chunks4 (hex_enc w (take 8 (sha256 lib key)))))"
proof -
  let ?h = "hex_enc w (take 8 (sha256 lib key))"
  have "list_all is_hex_lower ?h" using assms unfolding wire_ok_def by blast
  then have a: "list_all (\<lambda>c. c < 0x80) ?h" by (auto simp: list_all_iff is_hex_lower_def)
  then have "map from_utf8 (chunks4 (as_bytes ?h)) = map Some (chunks4 ?h)"
    using chunks4_all [OF a] by (auto simp: as_bytes_ascii chunks4_map from_utf8_ascii list_all_iff)
  then show ?thesis
    by (simp add: key_fingerprint_def Let_def those_Some list_all_iff comp_def)
qed

text \<open>A sample instance of the signature library: keys of one byte, tags that copy key and
  message.\<close>

definition sample_id_lib :: "(byte, byte, byte) id_lib" where
  "sample_id_lib =
     \<lparr>sig_generate = (\<lambda>r. r), sig_public = replicate 32,
      sig_sign = (\<lambda>k m. take 64 (replicate 32 k @ m @ replicate 64 0)),
      sig_key_ok = (\<lambda>k. length k = 32),
      sig_verify = (\<lambda>k m s. s = take 64 (k @ m @ replicate 64 0)),
      xk_generate = (\<lambda>r. r), xk_public = replicate 32,
      sha256 = (\<lambda>m. take 32 (m @ replicate 32 0))\<rparr>"

lemma sample_id_lib_ok: "sigs_ok sample_id_lib"
  by (auto simp: sigs_ok_def sample_id_lib_def min_def)

section \<open>Properties\<close>

text \<open>C25: The session message a Hello signs determines the whole session it is for: two messages
  over 32-byte bindings and fields shorter than 65536 bytes are equal only if role, binding, both
  DTLS fingerprints and the name are.  A signature therefore cannot be carried over to the other
  role, to another session or to swapped fingerprints.\<close>

theorem session_message_binds:
  assumes "length b = 32" "length b' = 32"
    and "short_field f" "short_field f'" "short_field p" "short_field p'"
      "short_field n" "short_field n'"
  shows "session_message r b f p n = session_message r' b' f' p' n' \<longleftrightarrow>
    (r, b, f, p, n) = (r', b', f', p', n')"
  using session_message_inject [OF _ assms] by auto

theorem session_message_binds_witness:
  "session_message RViewer (replicate 32 9) [1] [2, 3] [] \<noteq>
   session_message RViewer (replicate 32 9) [1, 2] [3] []"
  using session_message_binds [of "replicate 32 9" "replicate 32 9" "[1]" "[1, 2]" "[2, 3]" "[3]"
      "[]" "[]" RViewer RViewer]
  by (simp add: short_field_def)

text \<open>C37: Hello round trip: what \<open>make_hello\<close> builds with generated keys is accepted by
  \<open>verify_hello\<close> for the same role, binding and fingerprints, and yields the identity of the
  device that built it.\<close>

theorem hello_roundtrip:
  assumes "sigs_ok lib" and "device_keys_generate lib name rnd1 rnd2 = Inr k"
  shows "verify_hello lib (make_hello lib k r binding own_fp peer_fp) r binding own_fp peer_fp =
    Inr \<lparr>pi_device_key = device_public lib k, pi_name = name,
         pi_reconnect_key = reconnect_public lib k\<rparr>"
proof -
  have k: "dk_name k = name" "check_device_name name = Inr ()"
    using device_keys_generate_name [OF assms(2)] by auto
  have "length (sig_public lib x) = 32" "sig_key_ok lib (sig_public lib x)"
    "length (sig_sign lib x m) = 64" "sig_verify lib (sig_public lib x) m (sig_sign lib x m)"
    "length (xk_public lib y) = 32" for x m y
    using assms(1) by (simp_all add: sigs_ok_def)
  with k show ?thesis
    by (simp add: verify_hello_def make_hello_def Let_def device_public_def reconnect_public_def
        sign_raw_def)
qed

theorem hello_roundtrip_witness:
  "\<exists>k. device_keys_generate sample_id_lib (lit ''pc'') 1 2 = Inr k \<and>
    verify_hello sample_id_lib (make_hello sample_id_lib k RHost [5] [6] [7]) RHost [5] [6] [7] =
      Inr \<lparr>pi_device_key = replicate 32 1, pi_name = lit ''pc'', pi_reconnect_key = replicate 32 2\<rparr>"
proof -
  let ?k = "\<lparr>signing_key = 1, reconnect_secret = 2, dk_name = lit ''pc''\<rparr> :: (byte, byte) device_keys"
  have "length (as_bytes (lit ''pc'')) = 2" "\<not> list_ex is_control (lit ''pc'')"
    by (simp_all add: lit_def as_bytes_def utf8_char_def is_control_def)
  then have c: "check_device_name (lit ''pc'') = Inr ()"
    unfolding check_device_name_Inr by simp
  then have g: "device_keys_generate sample_id_lib (lit ''pc'') 1 2 = Inr ?k"
    by (simp add: device_keys_generate_def sample_id_lib_def)
  have p: "device_public sample_id_lib ?k = replicate 32 1"
    "reconnect_public sample_id_lib ?k = replicate 32 2"
    by (simp_all add: device_public_def reconnect_public_def sample_id_lib_def)
  show ?thesis
    by (rule exI [of _ ?k]) (simp only: g p hello_roundtrip [OF sample_id_lib_ok g] simp_thms)
qed


text \<open>The displayed fingerprint of a 32-byte digest is always four groups of four lower-case
  hexadecimal digits, 19 characters, and building it never panics.\<close>

theorem key_fingerprint_shape:
  assumes "wire_ok w" and "length (sha256 lib key) = 32"
  shows "\<exists>groups. key_fingerprint lib w key = Some (join_space groups) \<and> length groups = 4 \<and>
    length (join_space groups) = 19 \<and> list_all (list_all is_hex_lower) groups \<and>
    concat groups = hex_enc w (take 8 (sha256 lib key))"
proof -
  let ?h = "hex_enc w (take 8 (sha256 lib key))"
  have "length ?h = 2 * length (take 8 (sha256 lib key))"
    using assms(1) unfolding wire_ok_def by blast
  with assms(2) have len: "length ?h = 16" by simp
  have "list_all is_hex_lower ?h" using assms(1) unfolding wire_ok_def by blast
  then have hx: "list_all (list_all is_hex_lower) (chunks4 ?h)" by (rule chunks4_all)
  have four: "length (chunks4 ?h) = 4" by (simp add: length_chunks4 len)
  then have "chunks4 ?h \<noteq> []" by (metis length_0_conv zero_neq_numeral)
  from length_join_space [OF this]
  have "length (join_space (chunks4 ?h)) + 1 = 16 + 4"
    by (simp only: sum_length_chunks4 len four)
  moreover have "concat (chunks4 ?h) = ?h"
    by (rule concat_chunks4)
  ultimately show ?thesis
    using fingerprint_value [OF assms(1)] four hx by auto
qed

theorem key_fingerprint_shape_witness:
  "\<exists>groups. key_fingerprint sample_id_lib sample_wire [0xAB, 1] = Some (join_space groups) \<and>
    length groups = 4 \<and> length (join_space groups) = 19"
  using key_fingerprint_shape [OF sample_wire_ok, of sample_id_lib "[0xAB, 1]"]
  by (auto simp: sample_id_lib_def)

end
