(* ===== verification/Attempts.thy ===== *)
theory Attempts
  imports Protocol
begin

text \<open>
  \<open>apps/host-agent/src/attempts.rs\<close>: the limiter of code guesses. \<open>backoff_gate\<close> is what its
  client (\<open>session.rs\<close>) relies on: a failure closes the gate for a penalty that depends on the
  length of the streak of failures, a success opens it. The counters are \<open>u32\<close> and wrap as in a
  release build; the bounds say where that matters.
\<close>

section \<open>The limiter\<close>

record limiter =
  consecutive_failures :: u32
  failures_on_code :: u32
  wait_until :: "instant option"

definition limiter_new :: limiter where
  "limiter_new = \<lparr>consecutive_failures = 0, failures_on_code = 0, wait_until = None\<rparr>"

definition limiter_check :: "limiter \<Rightarrow> instant \<Rightarrow> duration + unit" where
  "limiter_check l now =
     (case wait_until l of
        Some until \<Rightarrow> if now < until then Inl (until - now) else Inr ()
      | None \<Rightarrow> Inr ())"

definition backoff_secs :: "u32 \<Rightarrow> u64" where
  "backoff_secs n =
     (if n - 1 \<ge> 17 then 86400 else min (push_bit (unat (n - 1)) 1) 86400)"

text \<open>The new limiter and \<open>FailureOutcome::rotate_code\<close>.\<close>

definition limiter_record_failure :: "limiter \<Rightarrow> instant \<Rightarrow> limiter \<times> bool" where
  "limiter_record_failure l now =
     (let consecutive = consecutive_failures l + 1;
          on_code = failures_on_code l + 1;
          until = now + secs (unat (backoff_secs consecutive));
          rotate = on_code \<ge> 5
      in (\<lparr>consecutive_failures = consecutive,
           failures_on_code = (if rotate then 0 else on_code),
           wait_until = Some until\<rparr>, rotate))"

definition limiter_record_success :: "limiter \<Rightarrow> limiter" where
  "limiter_record_success l =
     l\<lparr>consecutive_failures := 0, failures_on_code := 0, wait_until := None\<rparr>"

section \<open>The contract of the limiter\<close>

text \<open>A run of failed attempts, each let through by the gate at its time.\<close>

primrec gated_run ::
  "('l \<Rightarrow> instant \<Rightarrow> duration + unit) \<Rightarrow> ('l \<Rightarrow> instant \<Rightarrow> 'l) \<Rightarrow> 'l \<Rightarrow> instant list \<Rightarrow> bool"
where
  "gated_run gate punish l [] = True"
| "gated_run gate punish l (t # ts) =
     (gate l t = Inr () \<and> gated_run gate punish (punish l t) ts)"

locale backoff_gate =
  fixes gate :: "'l \<Rightarrow> instant \<Rightarrow> duration + unit"
    and punish :: "'l \<Rightarrow> instant \<Rightarrow> 'l"
    and reset :: "'l \<Rightarrow> 'l"
    and streak :: "'l \<Rightarrow> nat"
    and penalty :: "nat \<Rightarrow> duration"
    and cap :: nat
  assumes gate_punish: "Suc (streak l) < cap \<Longrightarrow>
      gate (punish l now) t =
        (if t < now + penalty (streak l) then Inl (now + penalty (streak l) - t) else Inr ())"
    and streak_punish: "Suc (streak l) < cap \<Longrightarrow> streak (punish l now) = Suc (streak l)"
    and gate_reset: "gate (reset l) t = Inr ()"
    and streak_reset: "streak (reset l) = 0"
begin

lemma punished_waits:
  "Suc (streak l) < cap \<Longrightarrow> gate (punish l now) t = Inr () \<Longrightarrow> now + penalty (streak l) \<le> t"
  by (auto simp: gate_punish split: if_splits)

lemma gated_run_elapsed:
  assumes "gated_run gate punish (punish l t0) ts"
    and "streak l + length ts < cap - 1"
  shows "t0 + (\<Sum>i<length ts. penalty (streak l + i)) \<le> last (t0 # ts)"
  using assms
proof (induction ts arbitrary: l t0)
  case (Cons t ts)
  then have l: "Suc (streak l) < cap" by simp
  then have s: "streak (punish l t0) = Suc (streak l)" by (rule streak_punish)
  have "t0 + penalty (streak l) \<le> t"
    using Cons.prems l by (auto intro: punished_waits)
  moreover have "t + (\<Sum>i<length ts. penalty (streak (punish l t0) + i)) \<le> last (t # ts)"
    using Cons.prems s by (intro Cons.IH) auto
  moreover have "(\<Sum>i<Suc (length ts). penalty (streak l + i)) =
      penalty (streak l) + (\<Sum>i<length ts. penalty (streak l + Suc i))"
    by (simp only: sum.lessThan_Suc_shift add_0_right)
  ultimately show ?case by (simp add: s)
qed simp

end

text \<open>The penalty as a number: one second doubled with every failure, one day at most.\<close>

definition penalty :: "nat \<Rightarrow> duration" where
  "penalty k = secs (min (2 ^ k) 86400)"

lemma unat_push_bit_one: "k < 17 \<Longrightarrow> unat (push_bit k 1 :: u64) = 2 ^ k"
proof -
  assume "k < 17"
  then have "(2 :: nat) ^ k < 2 ^ 64" by (intro power_strict_increasing) auto
  moreover have "push_bit k (1 :: u64) = of_nat (2 ^ k)" by (simp add: push_bit_eq_mult)
  ultimately show ?thesis by (simp only: unat_of_nat) simp
qed

lemma unat_Suc_word: "Suc (unat (n :: u32)) < 2 ^ 32 \<Longrightarrow> unat (n + 1) = Suc (unat n)"
  by (simp add: unat_word_ariths)

lemma backoff_secs_Suc:
  assumes "Suc (unat c) < 2 ^ 32"
  shows "unat (backoff_secs (c + 1)) = min (2 ^ unat c) 86400"
proof (cases "17 \<le> unat c")
  case True
  then have "(2 :: nat) ^ 17 \<le> 2 ^ unat c" by (intro power_increasing) auto
  then have "min (2 ^ unat c) 86400 = (86400 :: nat)" by simp
  with True show ?thesis by (simp add: backoff_secs_def word_le_nat_alt)
next
  case False
  then have k: "unat c < 17" by simp
  have "unat (min (push_bit (unat c) 1 :: u64) 86400) = min (2 ^ unat c) 86400"
    using unat_push_bit_one [OF k] by (auto simp: min_def word_le_nat_alt)
  with False show ?thesis by (simp add: backoff_secs_def word_le_nat_alt)
qed

lemma limiter_failure_fields:
  assumes "Suc (unat (consecutive_failures l)) < 2 ^ 32"
  shows "wait_until (fst (limiter_record_failure l now)) =
      Some (now + penalty (unat (consecutive_failures l)))"
    and "unat (consecutive_failures (fst (limiter_record_failure l now))) =
      Suc (unat (consecutive_failures l))"
  using backoff_secs_Suc [OF assms] unat_Suc_word [OF assms]
  by (simp_all add: limiter_record_failure_def Let_def penalty_def)

interpretation limiter: backoff_gate limiter_check "\<lambda>l t. fst (limiter_record_failure l t)"
  limiter_record_success "\<lambda>l. unat (consecutive_failures l)" penalty "2 ^ 32"
proof unfold_locales
  fix l :: limiter and now t
  assume b: "Suc (unat (consecutive_failures l)) < 2 ^ 32"
  show "limiter_check (fst (limiter_record_failure l now)) t =
      (if t < now + penalty (unat (consecutive_failures l))
       then Inl (now + penalty (unat (consecutive_failures l)) - t) else Inr ())"
    by (simp add: limiter_check_def limiter_failure_fields [OF b])
  show "unat (consecutive_failures (fst (limiter_record_failure l now))) =
      Suc (unat (consecutive_failures l))"
    by (rule limiter_failure_fields [OF b])
qed (simp_all add: limiter_check_def limiter_record_success_def)

text \<open>The penalties of a streak add up to the sum of the powers of two below the cap.\<close>

lemma sum_penalty_small:
  "n \<le> 17 \<Longrightarrow> (\<Sum>i<n. penalty i) = secs (2 ^ n - 1)"
proof (induction n)
  case (Suc n)
  then have "(2 :: nat) ^ n \<le> 2 ^ 16" by (intro power_increasing) auto
  then have "penalty n = secs (2 ^ n)" by (simp add: penalty_def)
  moreover have "(1 :: nat) \<le> 2 ^ n" by simp
  ultimately show ?case using Suc by (simp add: secs_def algebra_simps)
qed (simp add: secs_def)

lemma sum_penalty_mono: "m \<le> n \<Longrightarrow> (\<Sum>i<m. penalty i) \<le> (\<Sum>i<n. penalty i)"
  by (intro sum_mono2) auto

text \<open>The code counter: below five, and the number of rotations in a run of failures.\<close>

definition limiter_inv :: "limiter \<Rightarrow> bool" where
  "limiter_inv l \<longleftrightarrow> failures_on_code l < 5"

lemma limiter_inv_new: "limiter_inv limiter_new"
  by (simp add: limiter_inv_def limiter_new_def)

lemma limiter_inv_success: "limiter_inv (limiter_record_success l)"
  by (simp add: limiter_inv_def limiter_record_success_def)

lemma unat_failures_Suc:
  "limiter_inv l \<Longrightarrow> unat (failures_on_code l + 1) = Suc (unat (failures_on_code l))"
  by (simp add: limiter_inv_def word_less_nat_alt unat_word_ariths)

lemma limiter_rotate_iff:
  assumes "limiter_inv l"
  shows "snd (limiter_record_failure l now) \<longleftrightarrow> unat (failures_on_code l) = 4"
  using assms unat_failures_Suc [OF assms]
  by (auto simp: limiter_record_failure_def Let_def limiter_inv_def word_less_nat_alt word_le_nat_alt)

lemma limiter_on_code_failure:
  assumes "limiter_inv l"
  shows "unat (failures_on_code (fst (limiter_record_failure l now))) =
    (if snd (limiter_record_failure l now) then 0 else Suc (unat (failures_on_code l)))"
  using unat_failures_Suc [OF assms] by (simp add: limiter_record_failure_def Let_def)

lemma limiter_inv_failure:
  assumes "limiter_inv l"
  shows "limiter_inv (fst (limiter_record_failure l now))"
  using assms limiter_on_code_failure [OF assms, of now] limiter_rotate_iff [OF assms, of now]
  by (auto simp: limiter_inv_def word_less_nat_alt split: if_splits)

primrec failures :: "limiter \<Rightarrow> instant list \<Rightarrow> limiter \<times> bool list" where
  "failures l [] = (l, [])"
| "failures l (t # ts) =
     (case limiter_record_failure l t of (l', r) \<Rightarrow>
        case failures l' ts of (l'', rs) \<Rightarrow> (l'', r # rs))"


lemma failures_rotations:
  assumes "limiter_inv l"
  shows "limiter_inv (fst (failures l ts)) \<and>
    unat (failures_on_code l) + length ts =
      5 * length (filter id (snd (failures l ts))) + unat (failures_on_code (fst (failures l ts)))"
  using assms
proof (induction ts arbitrary: l)
  case (Cons t ts)
  obtain l' r where lr: "limiter_record_failure l t = (l', r)" by (cases "limiter_record_failure l t")
  have "limiter_inv l'" using limiter_inv_failure [OF Cons.prems, of t] lr by simp
  from Cons.IH [OF this] limiter_on_code_failure [OF Cons.prems, of t]
    limiter_rotate_iff [OF Cons.prems, of t] lr
  show ?case by (auto split: prod.splits)
qed simp

section \<open>Properties\<close>

text \<open>C29: After a failure that extends a streak of \<open>k\<close> failures, \<open>check\<close> refuses every moment
  before \<open>min(2^k, 86400)\<close> seconds have passed, gives the remaining time, and lets every later
  moment through.\<close>

theorem limiter_backoff:
  assumes "Suc (unat (consecutive_failures l)) < 2 ^ 32"
  shows "limiter_check (fst (limiter_record_failure l now)) t =
    (let until = now + secs (min (2 ^ unat (consecutive_failures l)) 86400)
     in if t < until then Inl (until - t) else Inr ())"
  using limiter.gate_punish [OF assms, of now t] by (simp add: penalty_def Let_def)

theorem limiter_backoff_witness:
  "limiter_check (fst (limiter_record_failure limiter_new 5)) (secs 1) = Inl 5"
proof -
  have "Suc (unat (consecutive_failures limiter_new)) < 2 ^ 32" by (simp add: limiter_new_def)
  from limiter_backoff [OF this, of 5 "secs 1"] show ?thesis
    by (simp add: limiter_new_def secs_def Let_def)
qed

text \<open>Code rotation: in a run of \<open>n\<close> failures from a fresh limiter the code is replaced
  exactly \<open>n div 5\<close> times, so no code meets more than five failed guesses.\<close>

theorem limiter_rotates_every_fifth:
  "length (filter id (snd (failures limiter_new ts))) = length ts div 5"
proof -
  have "unat (failures_on_code limiter_new) = 0" by (simp add: limiter_new_def)
  with failures_rotations [OF limiter_inv_new, of ts]
  have "length ts = 5 * length (filter id (snd (failures limiter_new ts))) +
      unat (failures_on_code (fst (failures limiter_new ts)))"
    and "unat (failures_on_code (fst (failures limiter_new ts))) < 5"
    by (auto simp: limiter_inv_def word_less_nat_alt)
  then show ?thesis by presburger
qed

end
