(* ===== verification/Pake.thy ===== *)
theory Pake
  imports Sealed
begin

text \<open>
  \<open>crates/auth/src/pake.rs\<close>: the SPAKE2 exchange that turns a one-time code into session keys.
  The curve, SPAKE2 itself, SHA-512 and HKDF are third-party crates, the fields of \<open>spake\<close>; the
  randomness of a run is an argument.  \<open>spake_ok\<close> is the documented behaviour of the library: two
  parties started with the same scalar, identities and associated data accept each other's
  messages and confirmation values and hold the same key.
\<close>

section \<open>The library\<close>

datatype spake_error = ConfirmationFailed | InvalidPoint | OtherSpake

record ('k, 'st, 'out) spake =
  sha512 :: "bytes \<Rightarrow> bytes"
  scalar_from_wide :: "bytes \<Rightarrow> 'k option"
  a_start :: "'k \<Rightarrow> bytes \<Rightarrow> bytes \<Rightarrow> bytes \<Rightarrow> bytes \<Rightarrow> (bytes \<times> 'st) option"
    \<comment> \<open>\<open>PartyA::start\<close>: scalar, id A, id B, associated data, randomness\<close>
  a_finish :: "'st \<Rightarrow> bytes \<Rightarrow> spake_error + 'out"
  b_start :: "'k \<Rightarrow> bytes \<Rightarrow> bytes \<Rightarrow> bytes \<Rightarrow> bytes \<Rightarrow> (bytes \<times> 'st) option"
  b_finish :: "'st \<Rightarrow> bytes \<Rightarrow> spake_error + 'out"
  sp_verify :: "'out \<Rightarrow> bytes \<Rightarrow> spake_error + unit" \<comment> \<open>\<open>verify_peer_confirmation\<close>\<close>
  sp_mac :: "'out \<Rightarrow> bytes" \<comment> \<open>\<open>confirmation_mac\<close>\<close>
  sp_key :: "'out \<Rightarrow> bytes" \<comment> \<open>\<open>session_key\<close>\<close>
  hkdf_expand :: "bytes \<Rightarrow> bytes \<Rightarrow> nat \<Rightarrow> bytes option" \<comment> \<open>key, info, length\<close>

definition AAD :: bytes where
  "AAD = blit ''simple-remote pake v1''"

definition VIEWER_ID :: bytes where
  "VIEWER_ID = blit ''simple-remote viewer''"

definition HOST_ID_PREFIX :: bytes where
  "HOST_ID_PREFIX = blit ''simple-remote host ''"

definition CODE_CONTEXT :: bytes where
  "CODE_CONTEXT = blit ''simple-remote code v1'' @ [0]"

definition INFO_VIEWER_TO_HOST :: bytes where
  "INFO_VIEWER_TO_HOST = blit ''simple-remote v1 seal viewer->host''"

definition INFO_HOST_TO_VIEWER :: bytes where
  "INFO_HOST_TO_VIEWER = blit ''simple-remote v1 seal host->viewer''"

definition INFO_HELLO_BINDING :: bytes where
  "INFO_HELLO_BINDING = blit ''simple-remote v1 hello binding''"

section \<open>Helpers\<close>

definition host_id_bytes :: "ustr \<Rightarrow> bytes" where
  "host_id_bytes host_id = HOST_ID_PREFIX @ as_bytes host_id"

definition code_input :: "ustr \<Rightarrow> bytes" where
  "code_input code = CODE_CONTEXT @ as_bytes code"

definition code_scalar :: "('k, 'st, 'out) spake \<Rightarrow> ustr \<Rightarrow> auth_error + 'k" where
  "code_scalar sp code =
     (case scalar_from_wide sp (sha512 sp (code_input code)) of
        None \<Rightarrow> Inl (Malformed ''pake'')
      | Some w \<Rightarrow> Inr w)"

definition derive_session_keys ::
  "('k, 'st, 'out) spake \<Rightarrow> bytes \<Rightarrow> ('s, 'x, session_keys) prog"
where
  "derive_session_keys sp ke =
     bnd (expect (hkdf_expand sp ke INFO_VIEWER_TO_HOST 32)) (\<lambda>v2h.
     bnd (expect (hkdf_expand sp ke INFO_HOST_TO_VIEWER 32)) (\<lambda>h2v.
     bnd (expect (hkdf_expand sp ke INFO_HELLO_BINDING 32)) (\<lambda>b.
     ret \<lparr>viewer_to_host = v2h, host_to_viewer = h2v, hello_binding = b\<rparr>)))"

definition to_mac :: "bytes \<Rightarrow> auth_error + bytes" where
  "to_mac bs = (if length bs = 32 then Inr bs else Inl WrongCode)"

fun map_confirmation_err :: "spake_error \<Rightarrow> auth_error" where
  "map_confirmation_err ConfirmationFailed = WrongCode"
| "map_confirmation_err _ = Malformed ''pake''"

fun map_finish_err :: "spake_error \<Rightarrow> auth_error" where
  "map_finish_err InvalidPoint = Malformed ''pake point''"
| "map_finish_err _ = Malformed ''pake''"

section \<open>The two parties\<close>

definition viewer_start ::
  "('k, 'st, 'out) spake \<Rightarrow> ustr \<Rightarrow> ustr \<Rightarrow> bytes \<Rightarrow> ('s, auth_error, 'st \<times> bytes) prog"
where
  "viewer_start sp code host_id rnd =
     bnd (lift_sum (code_scalar sp code)) (\<lambda>w.
     case a_start sp w VIEWER_ID (host_id_bytes host_id) AAD rnd of
       None \<Rightarrow> fail (Malformed ''pake'')
     | Some (pa, state) \<Rightarrow> ret (state, pa))"

definition viewer_finish ::
  "('k, 'st, 'out) spake \<Rightarrow> 'st \<Rightarrow> bytes \<Rightarrow> bytes \<Rightarrow> ('s, auth_error, session_keys \<times> bytes) prog"
where
  "viewer_finish sp state pb mac_b =
     bnd (map_err map_finish_err (lift_sum (a_finish sp state pb))) (\<lambda>out.
     bnd (lift_sum (to_mac mac_b)) (\<lambda>mac.
     bnd (map_err map_confirmation_err (lift_sum (sp_verify sp out mac))) (\<lambda>_.
     bnd (derive_session_keys sp (sp_key sp out)) (\<lambda>keys.
     ret (keys, sp_mac sp out)))))"

definition host_respond ::
  "('k, 'st, 'out) spake \<Rightarrow> ustr \<Rightarrow> ustr \<Rightarrow> bytes \<Rightarrow> bytes \<Rightarrow>
   ('s, auth_error, 'out \<times> bytes \<times> bytes) prog"
where
  "host_respond sp code host_id pa rnd =
     bnd (lift_sum (code_scalar sp code)) (\<lambda>w.
     case b_start sp w VIEWER_ID (host_id_bytes host_id) AAD rnd of
       None \<Rightarrow> fail (Malformed ''pake'')
     | Some (pb, state) \<Rightarrow>
         bnd (map_err map_finish_err (lift_sum (b_finish sp state pa))) (\<lambda>out.
         ret (out, pb, sp_mac sp out)))"

definition host_confirm ::
  "('k, 'st, 'out) spake \<Rightarrow> 'out \<Rightarrow> bytes \<Rightarrow> ('s, auth_error, session_keys) prog"
where
  "host_confirm sp out mac_a =
     bnd (lift_sum (to_mac mac_a)) (\<lambda>mac.
     bnd (map_err map_confirmation_err (lift_sum (sp_verify sp out mac))) (\<lambda>_.
     derive_session_keys sp (sp_key sp out)))"

section \<open>Lemmas\<close>

text \<open>The PAKE has no state of its own: its results do not depend on the state it runs in.\<close>

lemma lift_sum_run: "lift_sum v s = (case v of Inl x \<Rightarrow> (Err x, s) | Inr a \<Rightarrow> (Ok a, s))"
  by (cases v) (simp_all add: run_simps)

lemma expect_run: "expect v s = (case v of None \<Rightarrow> (Panic, s) | Some a \<Rightarrow> (Ok a, s))"
  by (cases v) (simp_all add: run_simps)

lemma viewer_start_result:
  "viewer_start sp code hid rnd s = (r, s') \<Longrightarrow> viewer_start sp code hid rnd u = (r, u) \<and> s' = s"
  by (auto simp: viewer_start_def run_simps lift_sum_run split: sum.splits option.splits prod.splits)

lemma viewer_finish_result:
  "viewer_finish sp st pb mac_b s = (r, s') \<Longrightarrow> viewer_finish sp st pb mac_b u = (r, u) \<and> s' = s"
  by (auto simp: viewer_finish_def derive_session_keys_def run_simps lift_sum_run expect_run
    split: sum.splits option.splits)

lemma host_confirm_result:
  "host_confirm sp out mac s = (Ok sk, s') \<Longrightarrow> host_confirm sp out mac u = (Ok sk, u) \<and> s' = s"
  by (auto simp: host_confirm_def derive_session_keys_def run_simps lift_sum_run expect_run
    split: sum.splits option.splits)

lemma host_respond_result:
  "host_respond sp code hid pa rnd s = (Ok out, s') \<Longrightarrow>
     host_respond sp code hid pa rnd u = (Ok out, u) \<and> s' = s"
  by (auto simp: host_respond_def run_simps lift_sum_run split: sum.splits option.splits prod.splits)

definition hkdf_ok :: "('k, 'st, 'out) spake \<Rightarrow> bool" where
  "hkdf_ok sp \<longleftrightarrow> (\<forall>ke info. \<exists>b. hkdf_expand sp ke info 32 = Some b \<and> length b = 32)"

definition spake_ok :: "('k, 'st, 'out) spake \<Rightarrow> bool" where
  "spake_ok sp \<longleftrightarrow>
     (\<forall>w ida idb aad ra rb pa sa pb sb.
        a_start sp w ida idb aad ra = Some (pa, sa) \<longrightarrow>
        b_start sp w ida idb aad rb = Some (pb, sb) \<longrightarrow>
        (\<exists>oa ob. a_finish sp sa pb = Inr oa \<and> b_finish sp sb pa = Inr ob \<and>
           sp_key sp oa = sp_key sp ob \<and>
           sp_verify sp oa (sp_mac sp ob) = Inr () \<and> sp_verify sp ob (sp_mac sp oa) = Inr () \<and>
           length (sp_mac sp oa) = 32 \<and> length (sp_mac sp ob) = 32)) \<and> hkdf_ok sp"

lemma spake_okD:
  assumes "spake_ok sp" "a_start sp w ida idb aad ra = Some (pa, sa)"
    "b_start sp w ida idb aad rb = Some (pb, sb)"
  shows "\<exists>oa ob. a_finish sp sa pb = Inr oa \<and> b_finish sp sb pa = Inr ob \<and>
     sp_key sp oa = sp_key sp ob \<and>
     sp_verify sp oa (sp_mac sp ob) = Inr () \<and> sp_verify sp ob (sp_mac sp oa) = Inr () \<and>
     length (sp_mac sp oa) = 32 \<and> length (sp_mac sp ob) = 32"
  using assms unfolding spake_ok_def by blast

definition derived_keys :: "('k, 'st, 'out) spake \<Rightarrow> bytes \<Rightarrow> session_keys" where
  "derived_keys sp ke =
     \<lparr>viewer_to_host = the (hkdf_expand sp ke INFO_VIEWER_TO_HOST 32),
      host_to_viewer = the (hkdf_expand sp ke INFO_HOST_TO_VIEWER 32),
      hello_binding = the (hkdf_expand sp ke INFO_HELLO_BINDING 32)\<rparr>"

lemma hkdf_ok_Some: "hkdf_ok sp \<Longrightarrow> hkdf_expand sp ke info 32 = Some (the (hkdf_expand sp ke info 32))"
  unfolding hkdf_ok_def by (metis option.sel)

lemma derive_run:
  assumes "hkdf_ok sp"
  shows "derive_session_keys sp ke s = (Ok (derived_keys sp ke), s)"
proof -
  obtain a b c where
    "hkdf_expand sp ke INFO_VIEWER_TO_HOST 32 = Some a"
    "hkdf_expand sp ke INFO_HOST_TO_VIEWER 32 = Some b"
    "hkdf_expand sp ke INFO_HELLO_BINDING 32 = Some c"
    using hkdf_ok_Some [OF assms] by blast
  then show ?thesis by (simp add: derive_session_keys_def derived_keys_def run_simps)
qed

lemma derived_lengths:
  assumes "hkdf_ok sp"
  shows "length (viewer_to_host (derived_keys sp ke)) = 32"
    "length (host_to_viewer (derived_keys sp ke)) = 32"
    "length (hello_binding (derived_keys sp ke)) = 32"
  using assms unfolding derived_keys_def hkdf_ok_def session_keys.simps by (metis option.sel)+

text \<open>None of the operations touches the state they are sequenced in.\<close>

lemma expect_state: "expect v s = (r, s') \<Longrightarrow> s' = s"
  by (cases v) (auto simp: run_simps)

lemma derive_state: "derive_session_keys sp ke s = (r, s') \<Longrightarrow> s' = s"
  by (auto simp: derive_session_keys_def run_simps dest!: expect_state
      split: prod.splits res.splits)

lemma viewer_start_Ok:
  "viewer_start sp code host_id rnd s = (Ok (st, pa), s') \<longleftrightarrow>
     (\<exists>w. code_scalar sp code = Inr w \<and>
        a_start sp w VIEWER_ID (host_id_bytes host_id) AAD rnd = Some (pa, st)) \<and> s' = s"
  by (cases "code_scalar sp code")
    (auto simp: viewer_start_def run_simps split: option.splits)

lemma host_respond_Ok:
  "host_respond sp code host_id pa rnd s = (Ok (out, pb, mac), s') \<longleftrightarrow>
     (\<exists>w st. code_scalar sp code = Inr w \<and>
        b_start sp w VIEWER_ID (host_id_bytes host_id) AAD rnd = Some (pb, st) \<and>
        b_finish sp st pa = Inr out \<and> mac = sp_mac sp out) \<and> s' = s"
proof (cases "code_scalar sp code")
  case (Inr w)
  have "\<And>st. lift_sum (b_finish sp st pa) s =
      (case b_finish sp st pa of Inl x \<Rightarrow> (Err x, s) | Inr a \<Rightarrow> (Ok a, s))"
    by (auto simp: run_simps split: sum.splits)
  with Inr show ?thesis
    by (auto simp: host_respond_def run_simps split: option.splits sum.splits prod.splits)
qed (simp add: host_respond_def run_simps)

lemma host_confirm_cases:
  "host_confirm sp out mac_a s =
     (if length mac_a \<noteq> 32 then (Err WrongCode, s)
      else case sp_verify sp out mac_a of
          Inl e \<Rightarrow> (Err (map_confirmation_err e), s)
        | Inr _ \<Rightarrow> derive_session_keys sp (sp_key sp out) s)"
  by (auto simp: host_confirm_def to_mac_def bnd_def map_err_def handle_def ret_def fail_def
      lift_sum_run split: sum.splits prod.splits res.splits)

lemma viewer_finish_cases:
  "viewer_finish sp st pb mac_b s =
     (case a_finish sp st pb of
        Inl e \<Rightarrow> (Err (map_finish_err e), s)
      | Inr out \<Rightarrow>
          if length mac_b \<noteq> 32 then (Err WrongCode, s)
          else case sp_verify sp out mac_b of
            Inl e \<Rightarrow> (Err (map_confirmation_err e), s)
          | Inr _ \<Rightarrow>
              bnd (derive_session_keys sp (sp_key sp out)) (\<lambda>keys. ret (keys, sp_mac sp out)) s)"
  by (auto simp: viewer_finish_def to_mac_def bnd_def map_err_def handle_def ret_def fail_def
      lift_sum_run split: sum.splits prod.splits res.splits)

lemma host_id_bytes_inject:
  "valid_str a \<Longrightarrow> valid_str b \<Longrightarrow> host_id_bytes a = host_id_bytes b \<longleftrightarrow> a = b"
  by (auto simp: host_id_bytes_def intro: as_bytes_inject)

lemma code_input_inject:
  "valid_str a \<Longrightarrow> valid_str b \<Longrightarrow> code_input a = code_input b \<longleftrightarrow> a = b"
  by (auto simp: code_input_def intro: as_bytes_inject)

text \<open>A sample instance: the confirmation value is the code and the host id in clear, the key the
  whole transcript.  It shows that the laws below can hold together.\<close>

definition sample_mac :: "bytes \<Rightarrow> bytes \<Rightarrow> bytes" where
  "sample_mac w idb = drop (length CODE_CONTEXT) w @ drop (length HOST_ID_PREFIX) idb @ replicate 17 0"

definition sample_start ::
  "bytes \<Rightarrow> bytes \<Rightarrow> bytes \<Rightarrow> bytes \<Rightarrow> bytes \<Rightarrow> (bytes \<times> bytes \<times> bytes) option"
where
  "sample_start w ida idb aad rnd =
     (if take (length CODE_CONTEXT) w = CODE_CONTEXT \<and> length w = length CODE_CONTEXT + 6 \<and>
        take (length HOST_ID_PREFIX) idb = HOST_ID_PREFIX \<and> length idb = length HOST_ID_PREFIX + 9
      then Some (rnd, sample_mac w idb, rnd) else None)"

definition sample_spake :: "(bytes, bytes \<times> bytes, bytes \<times> bytes) spake" where
  "sample_spake =
     \<lparr>sha512 = (\<lambda>m. m), scalar_from_wide = Some,
      a_start = sample_start, a_finish = (\<lambda>(m, own) other. Inr (m, own @ other)),
      b_start = sample_start, b_finish = (\<lambda>(m, own) other. Inr (m, other @ own)),
      sp_verify = (\<lambda>(m, t) c. if c = m then Inr () else Inl ConfirmationFailed),
      sp_mac = fst, sp_key = (\<lambda>(m, t). m @ t),
      hkdf_expand = (\<lambda>ke info n. Some (take n (rev info @ ke @ replicate n 0)))\<rparr>"

lemma sample_start_Some:
  "sample_start w ida idb aad rnd = Some (p, st) \<Longrightarrow>
     p = rnd \<and> st = (sample_mac w idb, rnd) \<and> w = CODE_CONTEXT @ drop (length CODE_CONTEXT) w \<and>
     idb = HOST_ID_PREFIX @ drop (length HOST_ID_PREFIX) idb \<and>
     length (drop (length CODE_CONTEXT) w) = 6 \<and> length (drop (length HOST_ID_PREFIX) idb) = 9"
  by (auto simp: sample_start_def split: if_splits) (metis append_take_drop_id)+

lemma sample_spake_ok: "spake_ok sample_spake"
  unfolding spake_ok_def
proof (intro conjI allI impI)
  show "hkdf_ok sample_spake" by (simp add: hkdf_ok_def sample_spake_def min_def)
next
  fix w ida idb aad ra rb pa sa pb sb
  assume "a_start sample_spake w ida idb aad ra = Some (pa, sa)"
    and "b_start sample_spake w ida idb aad rb = Some (pb, sb)"
  then have "sample_start w ida idb aad ra = Some (pa, sa)" "sample_start w ida idb aad rb = Some (pb, sb)"
    by (simp_all add: sample_spake_def)
  note f = sample_start_Some [OF this(1)] sample_start_Some [OF this(2)]
  then have "length (sample_mac w idb) = 32" by (simp add: sample_mac_def)
  with f show "\<exists>oa ob. a_finish sample_spake sa pb = Inr oa \<and> b_finish sample_spake sb pa = Inr ob \<and>
      sp_key sample_spake oa = sp_key sample_spake ob \<and>
      sp_verify sample_spake oa (sp_mac sample_spake ob) = Inr () \<and>
      sp_verify sample_spake ob (sp_mac sample_spake oa) = Inr () \<and>
      length (sp_mac sample_spake oa) = 32 \<and> length (sp_mac sample_spake ob) = 32"
    by (simp add: sample_spake_def)
qed

lemma sample_runs:
  assumes "valid_str code" "length (as_bytes code) = 6" "length (as_bytes host_id) = 9"
  shows "viewer_start sample_spake code host_id ra s =
      (Ok ((sample_mac (code_input code) (host_id_bytes host_id), ra), ra), s)"
    and "host_respond sample_spake code host_id pa rb t =
      (Ok ((sample_mac (code_input code) (host_id_bytes host_id), pa @ rb), rb,
           sample_mac (code_input code) (host_id_bytes host_id)), t)"
  using assms
  by (simp_all add: viewer_start_def host_respond_def sample_spake_def code_scalar_def run_simps
      sample_start_def code_input_def host_id_bytes_def)

section \<open>Properties\<close>

text \<open>C9: Agreement: a viewer and a host that run the exchange with the same code and host id both
  finish, hold the same three 32-byte keys, and each side's sealing end is in lockstep with the
  other side's opening end.\<close>

theorem pake_agreement:
  assumes "spake_ok sp"
    and "viewer_start sp code host_id ra s = (Ok (st, pa), s)"
    and "host_respond sp code host_id pa rb t = (Ok (out, pb, mac_b), t)"
  shows "\<exists>keys mac_a. viewer_finish sp st pb mac_b s = (Ok (keys, mac_a), s) \<and>
    host_confirm sp out mac_a t = (Ok keys, t) \<and>
    length (viewer_to_host keys) = 32 \<and> length (host_to_viewer keys) = 32 \<and>
    length (hello_binding keys) = 32 \<and>
    lockstep (fst (viewer_side keys)) (snd (host_side keys)) \<and>
    lockstep (fst (host_side keys)) (snd (viewer_side keys))"
proof -
  obtain w where w: "code_scalar sp code = Inr w"
      "a_start sp w VIEWER_ID (host_id_bytes host_id) AAD ra = Some (pa, st)"
    using assms(2) by (auto simp: viewer_start_Ok)
  obtain stb where b: "b_start sp w VIEWER_ID (host_id_bytes host_id) AAD rb = Some (pb, stb)"
      "b_finish sp stb pa = Inr out" "mac_b = sp_mac sp out"
    using assms(3) w(1) by (auto simp: host_respond_Ok)
  obtain oa where o: "a_finish sp st pb = Inr oa" "sp_key sp oa = sp_key sp out"
      "sp_verify sp oa mac_b = Inr ()" "sp_verify sp out (sp_mac sp oa) = Inr ()"
      "length (sp_mac sp oa) = 32" "length mac_b = 32"
    using spake_okD [OF assms(1) w(2) b(1)] b(2,3) by auto
  have hk: "hkdf_ok sp" using assms(1) by (simp add: spake_ok_def)
  let ?keys = "derived_keys sp (sp_key sp out)"
  have "viewer_finish sp st pb mac_b s = (Ok (?keys, sp_mac sp oa), s)"
    by (simp add: viewer_finish_cases o derive_run [OF hk] run_simps)
  moreover have "host_confirm sp out (sp_mac sp oa) t = (Ok ?keys, t)"
    by (simp add: host_confirm_cases o derive_run [OF hk])
  ultimately show ?thesis
    using derived_lengths [OF hk] by (auto simp: viewer_side_def host_side_def lockstep_def sealed_sender_new_def
        sealed_receiver_new_def)
qed

theorem pake_agreement_witness:
  "\<exists>st pa out pb mac_b keys mac_a.
    viewer_start sample_spake (lit ''123456'') (lit ''123456789'') [1] () = (Ok (st, pa), ()) \<and>
    host_respond sample_spake (lit ''123456'') (lit ''123456789'') pa [2] () = (Ok (out, pb, mac_b), ()) \<and>
    viewer_finish sample_spake st pb mac_b () = (Ok (keys, mac_a), ()) \<and>
    host_confirm sample_spake out mac_a () = (Ok keys, ())"
proof -
  have ascii: "list_all (\<lambda>c. c < 0x80) (lit ''123456'')" "list_all (\<lambda>c. c < 0x80) (lit ''123456789'')"
    by (simp_all add: lit_def)
  have v: "valid_str (lit ''123456'')" by (simp add: lit_def valid_str_def is_scalar_def)
  have l: "length (as_bytes (lit ''123456'')) = 6" "length (as_bytes (lit ''123456789'')) = 9"
    using ascii [THEN as_bytes_ascii] by simp_all
  note r = sample_runs(1) [OF v l, where ra = "[1]" and s = "()"]
    sample_runs(2) [OF v l, where pa = "[1]" and rb = "[2]" and t = "()"]
  from pake_agreement [OF sample_spake_ok r] r show ?thesis by blast
qed



definition spake_binds :: "('k, 'st, 'out) spake \<Rightarrow> bool" where
  "spake_binds sp \<longleftrightarrow>
     (\<forall>w ida idb aad ra pa sa w' ida' idb' aad' rb pb sb oa ob.
        a_start sp w ida idb aad ra = Some (pa, sa) \<longrightarrow>
        b_start sp w' ida' idb' aad' rb = Some (pb, sb) \<longrightarrow>
        a_finish sp sa pb = Inr oa \<longrightarrow> b_finish sp sb pa = Inr ob \<longrightarrow>
        sp_verify sp oa (sp_mac sp ob) = Inr () \<longrightarrow> w = w' \<and> idb = idb')"

lemma spake_bindsD:
  "spake_binds sp \<Longrightarrow> a_start sp w ida idb aad ra = Some (pa, sa) \<Longrightarrow>
   b_start sp w' ida' idb' aad' rb = Some (pb, sb) \<Longrightarrow>
   a_finish sp sa pb = Inr oa \<Longrightarrow> b_finish sp sb pa = Inr ob \<Longrightarrow>
   sp_verify sp oa (sp_mac sp ob) = Inr () \<Longrightarrow> w = w' \<and> idb = idb'"
  unfolding spake_binds_def by blast

lemma sample_mac_inject:
  assumes "length w = length CODE_CONTEXT + 6" "length w' = length CODE_CONTEXT + 6"
    "take (length CODE_CONTEXT) w = take (length CODE_CONTEXT) w'"
    "length i = length HOST_ID_PREFIX + 9" "length i' = length HOST_ID_PREFIX + 9"
    "take (length HOST_ID_PREFIX) i = take (length HOST_ID_PREFIX) i'"
    "sample_mac w i = sample_mac w' i'"
  shows "w = w' \<and> i = i'"
proof -
  have "drop (length CODE_CONTEXT) w = drop (length CODE_CONTEXT) w' \<and>
      drop (length HOST_ID_PREFIX) i = drop (length HOST_ID_PREFIX) i'"
    using assms(1,2,4,5,7) by (simp add: sample_mac_def append_eq_append_conv)
  then show ?thesis using assms(3,6) by (metis append_take_drop_id)
qed

lemma sample_start_shape:
  "sample_start w ida idb aad r = Some (p, st) \<Longrightarrow>
     length w = length CODE_CONTEXT + 6 \<and> take (length CODE_CONTEXT) w = CODE_CONTEXT \<and>
     length idb = length HOST_ID_PREFIX + 9 \<and> take (length HOST_ID_PREFIX) idb = HOST_ID_PREFIX \<and>
     st = (sample_mac w idb, r)"
  by (auto simp: sample_start_def split: if_splits)

lemma sample_spake_binds: "spake_binds sample_spake"
  unfolding spake_binds_def
proof (intro allI impI)
  fix w ida idb aad ra pa sa w' ida' idb' aad' rb pb sb oa ob
  assume a: "a_start sample_spake w ida idb aad ra = Some (pa, sa)"
    "b_start sample_spake w' ida' idb' aad' rb = Some (pb, sb)"
    "a_finish sample_spake sa pb = Inr oa" "b_finish sample_spake sb pa = Inr ob"
    "sp_verify sample_spake oa (sp_mac sample_spake ob) = Inr ()"
  from a(1,2) have s: "sample_start w ida idb aad ra = Some (pa, sa)"
      "sample_start w' ida' idb' aad' rb = Some (pb, sb)"
    by (simp_all add: sample_spake_def)
  note f = sample_start_shape [OF s(1)] sample_start_shape [OF s(2)]
  have "sample_mac w idb = sample_mac w' idb'"
    using a(3-5) f by (auto simp: sample_spake_def split: if_splits)
  with f sample_mac_inject [of w w' idb idb'] show "w = w' \<and> idb = idb'" by simp
qed

text \<open>Keys on the viewer's side mean that the host had the same code and id.\<close>

lemma viewer_finish_binds:
  assumes "spake_binds sp"
    and "viewer_start sp code host_id ra s = (Ok (st, pa), s)"
    and "host_respond sp code' host_id' pa rb t = (Ok (out, pb, mac_b), t)"
    and "valid_str host_id" and "valid_str host_id'"
    and "code_scalar sp code = code_scalar sp code' \<longrightarrow> code = code'"
    and "a_finish sp st pb = Inr oa" and "sp_verify sp oa mac_b = Inr ()"
  shows "code = code' \<and> host_id = host_id'"
proof -
  obtain w where w: "code_scalar sp code = Inr w"
      "a_start sp w VIEWER_ID (host_id_bytes host_id) AAD ra = Some (pa, st)"
    using assms(2) by (auto simp: viewer_start_Ok)
  obtain w' stb where b: "code_scalar sp code' = Inr w'"
      "b_start sp w' VIEWER_ID (host_id_bytes host_id') AAD rb = Some (pb, stb)"
      "b_finish sp stb pa = Inr out" "mac_b = sp_mac sp out"
    using assms(3) by (auto simp: host_respond_Ok)
  have "w = w' \<and> host_id_bytes host_id = host_id_bytes host_id'"
    using spake_bindsD [OF assms(1) w(2) b(2) assms(7) b(3)] b(4) assms(8) by simp
  then show ?thesis
    using assms(4-6) w(1) b(1) by (auto simp: host_id_bytes_inject)
qed

text \<open>C16: The code and the host id are bound: if the library's confirmation values bind the scalar
  and the identities of the parties, and the two codes do not collide in the scalar, then a viewer
  who used another code or another host id than the host that answered gets \<open>WrongCode\<close> or a
  malformed-message error and never keys.\<close>

theorem pake_code_and_host_bound:
  assumes "spake_binds sp" and "hkdf_ok sp"
    and "viewer_start sp code host_id ra s = (Ok (st, pa), s)"
    and "host_respond sp code' host_id' pa rb t = (Ok (out, pb, mac_b), t)"
    and "valid_str host_id" and "valid_str host_id'"
    and "code_scalar sp code = code_scalar sp code' \<longrightarrow> code = code'"
    and "(code, host_id) \<noteq> (code', host_id')"
  shows "\<exists>e. viewer_finish sp st pb mac_b s = (Err e, s) \<and>
    e \<in> {WrongCode, Malformed ''pake point'', Malformed ''pake''}"
proof -
  have bad: "sp_verify sp oa mac_b \<noteq> Inr ()" if o: "a_finish sp st pb = Inr oa" for oa
    using viewer_finish_binds [OF assms(1,3-7) o] assms(8) by auto
  have e: "map_finish_err x \<in> {WrongCode, Malformed ''pake point'', Malformed ''pake''}"
    "map_confirmation_err x \<in> {WrongCode, Malformed ''pake point'', Malformed ''pake''}" for x
    by (cases x; simp)+
  show ?thesis
    using bad e by (cases "a_finish sp st pb") (auto simp: viewer_finish_cases split: sum.splits)
qed

theorem pake_code_and_host_bound_witness:
  "\<exists>st pa out pb mac_b e.
    viewer_start sample_spake (lit ''123456'') (lit ''123456789'') [1] () = (Ok (st, pa), ()) \<and>
    host_respond sample_spake (lit ''123456'') (lit ''223456789'') pa [2] () = (Ok (out, pb, mac_b), ()) \<and>
    viewer_finish sample_spake st pb mac_b () = (Err e, ())"
proof -
  have ascii: "list_all (\<lambda>c. c < 0x80) (lit ''123456'')" "list_all (\<lambda>c. c < 0x80) (lit ''123456789'')"
      "list_all (\<lambda>c. c < 0x80) (lit ''223456789'')"
    by (simp_all add: lit_def)
  have v: "valid_str (lit ''123456'')" "valid_str (lit ''123456789'')" "valid_str (lit ''223456789'')"
    by (simp_all add: lit_def valid_str_def is_scalar_def)
  have l: "length (as_bytes (lit ''123456'')) = 6" "length (as_bytes (lit ''123456789'')) = 9"
      "length (as_bytes (lit ''223456789'')) = 9"
    using ascii [THEN as_bytes_ascii] by simp_all
  have ne: "(lit ''123456'', lit ''123456789'') \<noteq> (lit ''123456'', lit ''223456789'')"
    by (simp add: lit_def)
  have hk: "hkdf_ok sample_spake" using sample_spake_ok by (simp add: spake_ok_def)
  note r = sample_runs(1) [OF v(1) l(1,2), where ra = "[1]" and s = "()"]
    sample_runs(2) [OF v(1) l(1,3), where pa = "[1]" and rb = "[2]" and t = "()"]
  from pake_code_and_host_bound [OF sample_spake_binds hk r v(2,3) _ ne] r
  show ?thesis by blast
qed

end
