(* ===== verification/Net.thy ===== *)
theory Net
  imports Protocol
begin

text \<open>
  The operating system as the transport uses it, \<open>crates/transport/src/net.rs\<close> and
  \<open>crates/transport/src/error.rs\<close>.  The record \<open>os\<close> holds the system calls of the Rust standard
  library as functions on an abstract world \<open>'w\<close>: the monotonic clock, UDP and TCP sockets and
  the random source.  Nothing is assumed of them here.
\<close>

section \<open>Calls into the outside\<close>

text \<open>An outside call is a function from the world to a \<open>Result\<close> and the next world; \<open>ext\<close> makes
  it a program.\<close>

definition ext :: "('w \<Rightarrow> ('x + 'a) \<times> 'w) \<Rightarrow> ('w, 'x, 'a) prog" where
  "ext op w = (case op w of (Inl x, w') \<Rightarrow> (Err x, w') | (Inr a, w') \<Rightarrow> (Ok a, w'))"

text \<open>A call that cannot fail.\<close>

definition ext_total :: "('w \<Rightarrow> 'a \<times> 'w) \<Rightarrow> ('w, 'x, 'a) prog" where
  "ext_total op w = (case op w of (a, w') \<Rightarrow> (Ok a, w'))"

lemma wp_ext [wp_rules]:
  "wp (ext op) Q w = (case op w of (v, w') \<Rightarrow> (case v of Inl x \<Rightarrow> Q (Err x) w' | Inr a \<Rightarrow> Q (Ok a) w'))"
  by (auto simp: wp_def ext_def split: prod.splits sum.splits)

lemma wp_ext_total [wp_rules]:
  "wp (ext_total op) Q w = (case op w of (a, w') \<Rightarrow> Q (Ok a) w')"
  by (auto simp: wp_def ext_total_def split: prod.splits)

text \<open>Programs of one component inside a larger state.\<close>

definition on_snd :: "('b, 'x, 'v) prog \<Rightarrow> ('a \<times> 'b, 'x, 'v) prog" where
  "on_snd m s = (case m (snd s) of (r, b) \<Rightarrow> (r, (fst s, b)))"

lemma wp_on_snd [wp_rules]: "wp (on_snd m) Q s = wp m (\<lambda>r b. Q r (fst s, b)) (snd s)"
  by (auto simp: wp_def on_snd_def split: prod.splits)

text \<open>\<open>let _ = e\<close>: the result is dropped.\<close>

definition ignore :: "('s, 'x, 'a) prog \<Rightarrow> ('s, 'y, unit) prog" where
  "ignore m = handle m (\<lambda>_. ret ()) (\<lambda>_. ret ())"

text \<open>\<open>Result::ok\<close> of a program.\<close>

definition attempt_ok :: "('s, 'x, 'a) prog \<Rightarrow> ('s, 'y, 'a option) prog" where
  "attempt_ok m = handle m (\<lambda>a. ret (Some a)) (\<lambda>_. ret None)"

section \<open>Addresses and errors\<close>

datatype ip_addr = V4 "32 word" | V6 "128 word"

type_synonym sock_addr = "ip_addr \<times> u16"

text \<open>What \<open>UdpSocket::bind\<close> and \<open>connect\<close> take (\<open>ToSocketAddrs\<close>): an address or its text.\<close>

datatype target = TAddr sock_addr | TText ustr

text \<open>\<open>std::io::ErrorKind\<close>; the kinds the code does not name are numbered.\<close>

datatype io_kind =
    WouldBlock
  | TimedOut
  | ConnectionReset
  | ConnectionRefused
  | NotFound
  | InvalidInput
  | OtherKind nat

type_synonym io_error = "io_kind \<times> ustr"

datatype transport_error =
    TIo io_error
  | TRtc ustr
  | Backpressure
  | NoChannel

text \<open>Sockets are handles, natural numbers.\<close>

record 'w os =
  os_now :: "'w \<Rightarrow> instant \<times> 'w"
  os_sleep :: "duration \<Rightarrow> 'w \<Rightarrow> unit \<times> 'w"
  os_random :: "nat \<Rightarrow> 'w \<Rightarrow> bytes option \<times> 'w"
  udp_bind :: "target \<Rightarrow> 'w \<Rightarrow> (io_error + nat) \<times> 'w"
  udp_nonblocking :: "nat \<Rightarrow> 'w \<Rightarrow> (io_error + unit) \<times> 'w"
  udp_local_addr :: "nat \<Rightarrow> 'w \<Rightarrow> (io_error + sock_addr) \<times> 'w"
  udp_connect :: "nat \<Rightarrow> target \<Rightarrow> 'w \<Rightarrow> (io_error + unit) \<times> 'w"
  udp_send :: "nat \<Rightarrow> bytes \<Rightarrow> sock_addr \<Rightarrow> 'w \<Rightarrow> (io_error + nat) \<times> 'w"
  udp_recv :: "nat \<Rightarrow> nat \<Rightarrow> 'w \<Rightarrow> (io_error + bytes \<times> sock_addr) \<times> 'w"
  tcp_resolve :: "ustr \<Rightarrow> u16 \<Rightarrow> 'w \<Rightarrow> (io_error + sock_addr list) \<times> 'w"
  tcp_connect_timeout :: "sock_addr \<Rightarrow> duration \<Rightarrow> 'w \<Rightarrow> (io_error + nat) \<times> 'w"
  tcp_nodelay :: "nat \<Rightarrow> 'w \<Rightarrow> (io_error + unit) \<times> 'w"
  tcp_read_timeout :: "nat \<Rightarrow> duration \<Rightarrow> 'w \<Rightarrow> (io_error + unit) \<times> 'w"
  tcp_write_timeout :: "nat \<Rightarrow> duration \<Rightarrow> 'w \<Rightarrow> (io_error + unit) \<times> 'w"

definition now :: "'w os \<Rightarrow> ('w, 'x, instant) prog" where
  "now sys = ext_total (os_now sys)"

section \<open>A system beside another part of the state\<close>

text \<open>Calls on the second part of the state.\<close>

definition beside :: "('w \<Rightarrow> 'a \<times> 'w) \<Rightarrow> 'l \<times> 'w \<Rightarrow> 'a \<times> 'l \<times> 'w" where
  "beside f s = (case f (snd s) of (a, w) \<Rightarrow> (a, fst s, w))"

definition beside_os :: "'w os \<Rightarrow> ('l \<times> 'w) os" where
  "beside_os sys =
     \<lparr>os_now = beside (os_now sys), os_sleep = (\<lambda>d. beside (os_sleep sys d)),
      os_random = (\<lambda>n. beside (os_random sys n)), udp_bind = (\<lambda>a. beside (udp_bind sys a)),
      udp_nonblocking = (\<lambda>h. beside (udp_nonblocking sys h)),
      udp_local_addr = (\<lambda>h. beside (udp_local_addr sys h)),
      udp_connect = (\<lambda>h a. beside (udp_connect sys h a)),
      udp_send = (\<lambda>h b a. beside (udp_send sys h b a)), udp_recv = (\<lambda>h n. beside (udp_recv sys h n)),
      tcp_resolve = (\<lambda>h p. beside (tcp_resolve sys h p)),
      tcp_connect_timeout = (\<lambda>a d. beside (tcp_connect_timeout sys a d)),
      tcp_nodelay = (\<lambda>h. beside (tcp_nodelay sys h)),
      tcp_read_timeout = (\<lambda>h d. beside (tcp_read_timeout sys h d)),
      tcp_write_timeout = (\<lambda>h d. beside (tcp_write_timeout sys h d))\<rparr>"

section \<open>The local addresses\<close>

definition is_loopback :: "ip_addr \<Rightarrow> bool" where
  "is_loopback ip = (case ip of V4 a \<Rightarrow> unat a div 2 ^ 24 = 127 | V6 a \<Rightarrow> a = 1)"

definition is_unspecified :: "ip_addr \<Rightarrow> bool" where
  "is_unspecified ip = (case ip of V4 a \<Rightarrow> a = 0 | V6 a \<Rightarrow> a = 0)"

definition starts_with :: "ustr \<Rightarrow> ustr \<Rightarrow> bool" where
  "starts_with p s \<longleftrightarrow> take (length p) s = p"

definition local_ip_for :: "'w os \<Rightarrow> ustr \<Rightarrow> ('w, 'x, ip_addr option) prog" where
  "local_ip_for sys tgt =
     (let bind_addr = (if starts_with (lit ''['') tgt then lit ''[::]:0'' else lit ''0.0.0.0:0'')
      in bnd (attempt_ok (ext (udp_bind sys (TText bind_addr)))) (\<lambda>v.
         case v of None \<Rightarrow> ret None
         | Some sock \<Rightarrow>
             bnd (attempt_ok (ext (udp_connect sys sock (TText tgt)))) (\<lambda>c.
             case c of None \<Rightarrow> ret None
             | Some _ \<Rightarrow>
                 bnd (attempt_ok (ext (udp_local_addr sys sock))) (\<lambda>a. ret (map_option fst a)))))"

primrec local_ips_for :: "'w os \<Rightarrow> ustr list \<Rightarrow> ip_addr list \<Rightarrow> ('w, 'x, ip_addr list) prog" where
  "local_ips_for sys [] out = ret out"
| "local_ips_for sys (tgt # tgts) out =
     bnd (local_ip_for sys tgt) (\<lambda>v.
       case v of
         None \<Rightarrow> local_ips_for sys tgts out
       | Some ip \<Rightarrow>
           local_ips_for sys tgts
             (if \<not> is_loopback ip \<and> \<not> is_unspecified ip then out @ [ip] else out))"

definition local_ips :: "'w os \<Rightarrow> ('w, 'x, ip_addr list) prog" where
  "local_ips sys =
     local_ips_for sys [lit ''1.1.1.1:53'', lit ''[2606:4700:4700::1111]:53''] []"

section \<open>Lemmas\<close>

lemma wp_ignore [wp_rules]:
  "wp (ignore m) Q s = wp m (after (\<lambda>_. Q (Ok ())) (\<lambda>_. Q (Ok ())) Q) s"
  by (simp add: ignore_def wp_handle wp_ret)

lemma wp_attempt_ok [wp_rules]:
  "wp (attempt_ok m) Q s = wp m (after (\<lambda>a. Q (Ok (Some a))) (\<lambda>_. Q (Ok None)) Q) s"
  by (simp add: attempt_ok_def wp_handle wp_ret)

lemma wp_ignore_ext:
  "(\<And>w'. Q (Ok ()) (fst s, w')) \<Longrightarrow> wp (ignore (on_snd (ext op))) Q s"
  by (simp add: wp_ignore wp_on_snd wp_ext split: prod.splits sum.splits)

lemma preserves_on_snd [preserves_intros]: "preserves (\<lambda>s. I (fst s)) (on_snd m)"
  by (rule preservesI) (simp add: wp_on_snd wp_any)

lemma preserves_ignore [preserves_intros]: "preserves I m \<Longrightarrow> preserves I (ignore m)"
  unfolding ignore_def by (intro preserves_intros)

lemma preserves_attempt_ok [preserves_intros]: "preserves I m \<Longrightarrow> preserves I (attempt_ok m)"
  unfolding attempt_ok_def by (intro preserves_intros)

lemma wp_now [wp_rules]: "wp (now sys) Q w = (case os_now sys w of (t, w') \<Rightarrow> Q (Ok t) w')"
  by (simp add: now_def wp_ext_total)

lemma wp_local_ip_for:
  "(\<And>v w'. Q (Ok v) w') \<Longrightarrow> wp (local_ip_for sys tgt) Q w"
  by (simp add: local_ip_for_def Let_def wp_rules split: prod.splits sum.splits option.splits)

lemma attempt_ok_no_error [simp]: "fst (attempt_ok m s) \<noteq> Err x"
  by (auto simp: attempt_ok_def handle_def ret_def split: prod.splits res.splits)

text \<open>Every address \<open>local_ips\<close> gives back can be reached from outside the machine.\<close>

lemma local_ips_for_usable:
  "list_all (\<lambda>ip. \<not> is_loopback ip \<and> \<not> is_unspecified ip) out \<Longrightarrow>
   length out + length tgts \<le> n \<Longrightarrow>
   wp (local_ips_for sys tgts out)
     (\<lambda>r w'. \<exists>ips. r = Ok ips \<and> length ips \<le> n \<and>
        list_all (\<lambda>ip. \<not> is_loopback ip \<and> \<not> is_unspecified ip) ips) w"
  by (induction tgts arbitrary: out w)
    (auto simp: wp_rules intro!: wp_local_ip_for split: option.splits)

text \<open>A clock that moves forward with every reading, and calls that never turn it back: what the
  termination arguments of the loops with a deadline use.\<close>

definition ticking :: "('w \<Rightarrow> nat) \<Rightarrow> 'w os \<Rightarrow> bool" where
  "ticking clk sys \<longleftrightarrow> (\<forall>w. fst (os_now sys w) = clk w \<and> clk w < clk (snd (os_now sys w)))"

definition keeps :: "('s \<Rightarrow> nat) \<Rightarrow> ('s \<Rightarrow> 'a \<times> 's) \<Rightarrow> bool" where
  "keeps clk op \<longleftrightarrow> (\<forall>s. clk s \<le> clk (snd (op s)))"

lemma tickingD: "ticking clk sys \<Longrightarrow> os_now sys w = (t, w') \<Longrightarrow> t = clk w \<and> clk w < clk w'"
  unfolding ticking_def by (metis fst_conv snd_conv)

lemma keepsD: "keeps clk op \<Longrightarrow> op s = (a, s') \<Longrightarrow> clk s \<le> clk s'"
  unfolding keeps_def by (metis snd_conv)

text \<open>A program that returns from every state and never turns the clock back.\<close>

definition tame :: "('s \<Rightarrow> nat) \<Rightarrow> ('s, 'x, 'a) prog \<Rightarrow> bool" where
  "tame clk m \<longleftrightarrow> (\<forall>s. wp m (\<lambda>r s'. r \<noteq> Hang \<and> clk s \<le> clk s') s)"

lemma tameI: "(\<And>s. wp m (\<lambda>r s'. r \<noteq> Hang \<and> clk s \<le> clk s') s) \<Longrightarrow> tame clk m"
  by (simp add: tame_def)

lemma wp_tame:
  "tame clk m \<Longrightarrow> (\<And>r s'. r \<noteq> Hang \<Longrightarrow> clk s \<le> clk s' \<Longrightarrow> Q r s') \<Longrightarrow> wp m Q s"
  unfolding tame_def by (rule wp_mono [where P = "\<lambda>r s'. r \<noteq> Hang \<and> clk s \<le> clk s'"]) auto

lemma tame_ret [tame_intros]: "tame clk (ret a)"
  by (simp add: tame_def wp_ret)

lemma tame_fail [tame_intros]: "tame clk (fail x)"
  by (simp add: tame_def wp_fail)

lemma tame_panic [tame_intros]: "tame clk panic"
  by (simp add: tame_def wp_panic)

lemma tame_gets [tame_intros]: "tame clk (gets f)"
  by (simp add: tame_def wp_gets)

lemma tame_modify: "(\<And>s. clk s \<le> clk (f s)) \<Longrightarrow> tame clk (modify f)"
  by (simp add: tame_def wp_modify)

lemma tame_lift_sum [tame_intros]: "tame clk (lift_sum v)"
  by (cases v) (simp_all add: tame_def wp_rules)

lemma tame_expect [tame_intros]: "tame clk (expect v)"
  by (cases v) (simp_all add: tame_def wp_rules)

lemma tame_handle [tame_intros]:
  assumes "tame clk m" "\<And>a. tame clk (f a)" "\<And>x. tame clk (g x)"
  shows "tame clk (handle m f g)"
proof (rule tameI)
  fix s
  have "after (\<lambda>a. wp (f a) (\<lambda>r s'. r \<noteq> Hang \<and> clk s \<le> clk s'))
      (\<lambda>x. wp (g x) (\<lambda>r s'. r \<noteq> Hang \<and> clk s \<le> clk s')) (\<lambda>r s'. r \<noteq> Hang \<and> clk s \<le> clk s') r t"
    if "r \<noteq> Hang" "clk s \<le> clk t" for r t
    using that by (cases r) (auto intro: wp_tame [OF assms(2)] wp_tame [OF assms(3)])
  then show "wp (handle m f g) (\<lambda>r s'. r \<noteq> Hang \<and> clk s \<le> clk s') s"
    unfolding wp_handle by (rule wp_tame [OF assms(1)])
qed

lemma tame_bnd [tame_intros]: "tame clk m \<Longrightarrow> (\<And>a. tame clk (f a)) \<Longrightarrow> tame clk (bnd m f)"
  unfolding bnd_def by (intro tame_intros)

lemma tame_map_err [tame_intros]: "tame clk m \<Longrightarrow> tame clk (map_err h m)"
  unfolding map_err_def by (intro tame_intros)

lemma tame_ignore [tame_intros]: "tame clk m \<Longrightarrow> tame clk (ignore m)"
  unfolding ignore_def by (intro tame_intros)

lemma tame_attempt_ok [tame_intros]: "tame clk m \<Longrightarrow> tame clk (attempt_ok m)"
  unfolding attempt_ok_def by (intro tame_intros)

lemma tame_ext [tame_intros]: "keeps clk op \<Longrightarrow> tame clk (ext op)"
  by (auto simp: tame_def wp_ext split: prod.splits sum.splits dest: keepsD)

lemma tame_ext_total [tame_intros]: "keeps clk op \<Longrightarrow> tame clk (ext_total op)"
  by (auto simp: tame_def wp_ext_total split: prod.splits dest: keepsD)

lemma tame_now [tame_intros]: "ticking clk sys \<Longrightarrow> tame clk (now sys)"
  by (auto simp: tame_def wp_now split: prod.splits dest: tickingD)

lemma tame_on_snd [tame_intros]: "tame clk m \<Longrightarrow> tame (\<lambda>s. clk (snd s)) (on_snd m)"
  by (simp add: tame_def wp_on_snd)

text \<open>The same from one state: a loop with a deadline is shown to return by following the clock
  through its tame steps.\<close>

definition tame_at :: "('s \<Rightarrow> nat) \<Rightarrow> ('s, 'x, 'a) prog \<Rightarrow> 's \<Rightarrow> bool" where
  "tame_at clk m s \<longleftrightarrow> wp m (\<lambda>r s'. r \<noteq> Hang \<and> clk s \<le> clk s') s"

lemma tame_at: "tame clk m \<Longrightarrow> tame_at clk m s"
  by (simp add: tame_def tame_at_def)

lemma tame_at_all: "(\<And>s. tame_at clk m s) \<Longrightarrow> tame clk m"
  by (simp add: tame_def tame_at_def)

lemma tame_at_no_hang: "tame_at clk m s \<Longrightarrow> fst (m s) \<noteq> Hang"
  by (auto simp: tame_at_def wp_def split: prod.splits)

lemma tame_at_weaken:
  "tame_at clk m s' \<Longrightarrow> clk s \<le> clk s' \<Longrightarrow> wp m (\<lambda>r u. r \<noteq> Hang \<and> clk s \<le> clk u) s'"
  unfolding tame_at_def by (erule wp_mono) auto

lemma tame_at_handle:
  fixes m :: "('s, 'x, 'a) prog"
  assumes "tame_at clk m s"
    "\<And>a s'. clk s \<le> clk s' \<Longrightarrow> tame_at clk (f a) s'" "\<And>x s'. clk s \<le> clk s' \<Longrightarrow> tame_at clk (g x) s'"
  shows "tame_at clk (handle m f g) s"
proof -
  have "after (\<lambda>a. wp (f a) (\<lambda>r u. r \<noteq> Hang \<and> clk s \<le> clk u))
      (\<lambda>x. wp (g x) (\<lambda>r u. r \<noteq> Hang \<and> clk s \<le> clk u)) (\<lambda>r u. r \<noteq> Hang \<and> clk s \<le> clk u) r s'"
    if "r \<noteq> Hang \<and> clk s \<le> clk s'" for r :: "('x, 'a) res" and s'
    using that by (cases r) (auto intro: tame_at_weaken assms(2,3))
  with assms(1) show ?thesis
    unfolding tame_at_def wp_handle by (rule wp_mono)
qed

lemma tame_at_bnd:
  "tame_at clk m s \<Longrightarrow> (\<And>a s'. clk s \<le> clk s' \<Longrightarrow> tame_at clk (f a) s') \<Longrightarrow> tame_at clk (bnd m f) s"
  unfolding bnd_def by (rule tame_at_handle) (auto intro: tame_at tame_intros)

lemma tame_at_now:
  assumes "ticking clk sys"
    "\<And>s'. clk (snd s) < clk (snd s') \<Longrightarrow> tame_at (\<lambda>s. clk (snd s)) (f (clk (snd s))) s'"
  shows "tame_at (\<lambda>s. clk (snd s)) (bnd (on_snd (now sys)) f) s"
proof (cases "os_now sys (snd s)")
  case (Pair t w)
  have "t = clk (snd s)" "clk (snd s) < clk w" using tickingD [OF assms(1) Pair] by auto
  with assms(2) [of "(fst s, w)"] Pair show ?thesis
    by (auto simp: tame_at_def wp_rules elim!: wp_mono)
qed

text \<open>A refinement of what is known after the first step.\<close>

lemma tame_at_gets: "(\<And>a. a = f s \<Longrightarrow> tame_at clk (k a) s) \<Longrightarrow> tame_at clk (bnd (gets f) k) s"
  by (simp add: tame_at_def wp_rules)

text \<open>A system for the witnesses: a clock and nothing else.\<close>

definition sample_os :: "nat os" where
  "sample_os =
     \<lparr>os_now = (\<lambda>w. (w, Suc w)), os_sleep = (\<lambda>d w. ((), w + d)), os_random = (\<lambda>n w. (Some (replicate n 0), w)),
      udp_bind = (\<lambda>a w. (Inr 0, w)), udp_nonblocking = (\<lambda>h w. (Inr (), w)),
      udp_local_addr = (\<lambda>h w. (Inr (V4 0x0A000001, 9), w)), udp_connect = (\<lambda>h a w. (Inr (), w)),
      udp_send = (\<lambda>h b a w. (Inr (length b), w)), udp_recv = (\<lambda>h n w. (Inl (WouldBlock, []), w)),
      tcp_resolve = (\<lambda>h p w. (Inr [], w)), tcp_connect_timeout = (\<lambda>a d w. (Inr 0, w)),
      tcp_nodelay = (\<lambda>h w. (Inr (), w)), tcp_read_timeout = (\<lambda>h d w. (Inr (), w)),
      tcp_write_timeout = (\<lambda>h d w. (Inr (), w))\<rparr>"

lemma sample_os_ticking: "ticking (\<lambda>w. w) sample_os"
  by (simp add: ticking_def sample_os_def)

section \<open>Properties\<close>

text \<open>Local addresses: whatever the system answers, \<open>local_ips\<close> returns (no error, no panic) at
  most one address per family tried, and none of them is a loopback or unspecified address.\<close>

theorem local_ips_usable:
  "\<exists>ips w'. (local_ips sys w :: ('x, ip_addr list) res \<times> 'w) = (Ok ips, w') \<and> length ips \<le> 2 \<and>
     list_all (\<lambda>ip. \<not> is_loopback ip \<and> \<not> is_unspecified ip) ips"
proof -
  have "wp (local_ips sys :: ('w, 'x, ip_addr list) prog)
     (\<lambda>r w'. \<exists>ips. r = Ok ips \<and> length ips \<le> 2 \<and>
        list_all (\<lambda>ip. \<not> is_loopback ip \<and> \<not> is_unspecified ip) ips) w"
    unfolding local_ips_def by (rule local_ips_for_usable) simp_all
  then show ?thesis
    by (cases "local_ips sys w :: ('x, ip_addr list) res \<times> 'w") (auto simp: wp_def)
qed

end
