(* ===== verification/Link.thy ===== *)
theory Link
  imports Net
begin

text \<open>
  \<open>crates/transport/src/link.rs\<close>: a signaling channel over a WebSocket.  tungstenite, the
  \<open>http::Uri\<close> parser, rustls and serde_json are third-party crates, the fields of \<open>ws_lib\<close> and
  \<open>json\<close>.  The contract of the trait \<open>Link\<close> the rest of the program relies on is the locale
  \<open>sticky_link\<close>: once a receive has reported that the link is closed, every later call reports
  the same.
\<close>

section \<open>The library\<close>

datatype link_error =
    LClosed "u16 option"
  | LHttp u16
  | LInsecureUrl
  | LIo io_error
  | LProtocol ustr

datatype ws_error =
    WsConnectionClosed
  | WsAlreadyClosed
  | WsIo io_error
  | WsHttp u16
  | WsOther nat

datatype ws_msg =
    WText ustr
  | WBinary bytes
  | WPing bytes
  | WPong bytes
  | WClose "u16 option"
  | WFrame

datatype handshake_error = HsFailure ws_error | HsInterrupted

datatype stream_kind = Plain | Rustls | OtherStream

record uri =
  u_scheme :: "ustr option"
  u_authority :: "ustr option"
  u_port :: "u16 option"

record ('ws, 'w) ws_lib =
  uri_parse :: "ustr \<Rightarrow> uri option"
  authority_host :: "ustr \<Rightarrow> ustr"
  tls_provider :: "'w \<Rightarrow> unit \<times> 'w" \<comment> \<open>\<open>install_default\<close>, its \<open>Err\<close> ignored\<close>
  tls_connect :: "ustr \<Rightarrow> nat \<Rightarrow> nat \<Rightarrow> nat \<Rightarrow> 'w \<Rightarrow> (handshake_error + 'ws) \<times> 'w"
    \<comment> \<open>url, stream, largest message, largest frame\<close>
  ws_stream :: "'ws \<Rightarrow> stream_kind"
  ws_read_timeout :: "duration \<Rightarrow> 'ws \<times> 'w \<Rightarrow> (io_error + unit) \<times> 'ws \<times> 'w"
  ws_write :: "ustr \<Rightarrow> 'ws \<times> 'w \<Rightarrow> (ws_error + unit) \<times> 'ws \<times> 'w"
  ws_read :: "'ws \<times> 'w \<Rightarrow> (ws_error + ws_msg) \<times> 'ws \<times> 'w"
  ws_error_text :: "ws_error \<Rightarrow> ustr"

record ('i, 'o) json =
  json_to :: "'o \<Rightarrow> ustr + ustr" \<comment> \<open>\<open>Inl\<close>: the text of the error\<close>
  json_from :: "ustr \<Rightarrow> ustr + 'i"

section \<open>The URL check\<close>

definition CONNECT_TIMEOUT :: duration where
  "CONNECT_TIMEOUT = secs 10"

definition MAX_MESSAGE_BYTES :: nat where
  "MAX_MESSAGE_BYTES = 128 * 1024"

definition ascii_lower :: "nat \<Rightarrow> nat" where
  "ascii_lower c = (if 65 \<le> c \<and> c \<le> 90 then c + 32 else c)"

definition eq_ignore_ascii_case :: "ustr \<Rightarrow> ustr \<Rightarrow> bool" where
  "eq_ignore_ascii_case a b \<longleftrightarrow> map ascii_lower a = map ascii_lower b"

definition strip_prefix :: "ustr \<Rightarrow> ustr \<Rightarrow> ustr option" where
  "strip_prefix p s = (if starts_with p s then Some (drop (length p) s) else None)"

definition strip_suffix :: "ustr \<Rightarrow> ustr \<Rightarrow> ustr option" where
  "strip_suffix p s = map_option rev (strip_prefix (rev p) (rev s))"

definition strip_ipv6_brackets :: "ustr \<Rightarrow> ustr" where
  "strip_ipv6_brackets host =
     (case Option.bind (strip_prefix (lit ''['') host) (strip_suffix (lit '']'')) of
        None \<Rightarrow> host
      | Some h \<Rightarrow> h)"

definition ensure_secure_url :: "('ws, 'w) ws_lib \<Rightarrow> ustr \<Rightarrow> link_error + uri" where
  "ensure_secure_url lib url =
     (case uri_parse lib url of
        None \<Rightarrow> Inl LInsecureUrl
      | Some u \<Rightarrow>
        let scheme = (case u_scheme u of None \<Rightarrow> [] | Some s \<Rightarrow> s)
        in if eq_ignore_ascii_case scheme (lit ''wss'') then Inr u
           else if \<not> eq_ignore_ascii_case scheme (lit ''ws'') then Inl LInsecureUrl
           else case u_authority u of
             None \<Rightarrow> Inl LInsecureUrl
           | Some raw_authority \<Rightarrow>
               if 64 \<in> set raw_authority then Inl LInsecureUrl
               else
                 let raw_host = authority_host lib raw_authority
                 in case strip_prefix raw_host raw_authority of
                      None \<Rightarrow> Inl LInsecureUrl
                    | Some rest \<Rightarrow>
                        if rest = [] \<or> starts_with (lit '':'') rest then
                          (let host = strip_ipv6_brackets raw_host
                           in if eq_ignore_ascii_case host (lit ''127.0.0.1'') \<or> host = lit ''::1'' \<or>
                                 eq_ignore_ascii_case host (lit ''localhost'')
                              then Inr u else Inl LInsecureUrl)
                        else Inl LInsecureUrl)"

section \<open>Connecting\<close>

primrec connect_addrs :: "'w os \<Rightarrow> sock_addr list \<Rightarrow> io_error \<Rightarrow> ('w, link_error, nat) prog" where
  "connect_addrs sys [] last_err = fail (LIo last_err)"
| "connect_addrs sys (addr # addrs) last_err =
     handle (ext (tcp_connect_timeout sys addr CONNECT_TIMEOUT))
       ret
       (connect_addrs sys addrs)"

definition connect_tcp :: "'w os \<Rightarrow> ustr \<Rightarrow> u16 \<Rightarrow> ('w, link_error, nat) prog" where
  "connect_tcp sys host port =
     (let last_err = (NotFound, lit ''host resolved to no address'')
      in bnd (map_err LIo (ext (tcp_resolve sys host port))) (\<lambda>addrs.
         connect_addrs sys addrs last_err))"

fun map_tungstenite_err :: "('ws, 'w) ws_lib \<Rightarrow> ws_error \<Rightarrow> link_error" where
  "map_tungstenite_err lib (WsHttp status) = LHttp status"
| "map_tungstenite_err lib (WsIo io) = LIo io"
| "map_tungstenite_err lib other = LProtocol (ws_error_text lib other)"

record 'ws ws_link =
  ws_sock :: 'ws
  ws_closed :: "u16 option option"

definition ws_connect ::
  "'w os \<Rightarrow> ('ws, 'w) ws_lib \<Rightarrow> ustr \<Rightarrow> ('w, link_error, 'ws ws_link) prog"
where
  "ws_connect sys lib url =
     bnd (lift_sum (ensure_secure_url lib url)) (\<lambda>u.
     bnd (ext_total (tls_provider lib)) (\<lambda>_.
     case map_option (authority_host lib) (u_authority u) of
       None \<Rightarrow> fail LInsecureUrl
     | Some raw_host \<Rightarrow>
        let host = strip_ipv6_brackets raw_host;
            scheme = (case u_scheme u of None \<Rightarrow> [] | Some s \<Rightarrow> s);
            default_port = (if eq_ignore_ascii_case scheme (lit ''wss'') then 443 else 80);
            port = (case u_port u of None \<Rightarrow> default_port | Some p \<Rightarrow> p)
        in bnd (connect_tcp sys host port) (\<lambda>stream.
           bnd (map_err LIo (ext (tcp_nodelay sys stream))) (\<lambda>_.
           bnd (map_err LIo (ext (tcp_read_timeout sys stream CONNECT_TIMEOUT))) (\<lambda>_.
           bnd (map_err LIo (ext (tcp_write_timeout sys stream CONNECT_TIMEOUT))) (\<lambda>_.
           handle (ext (tls_connect lib url stream MAX_MESSAGE_BYTES MAX_MESSAGE_BYTES))
             (\<lambda>ws. ret \<lparr>ws_sock = ws, ws_closed = None\<rparr>)
             (\<lambda>e. case e of
                HsFailure x \<Rightarrow> fail (map_tungstenite_err lib x)
              | HsInterrupted \<Rightarrow> fail (LIo (TimedOut, lit ''websocket handshake timed out'')))))))))"

section \<open>Sending and receiving\<close>

definition on_ws :: "('ws \<times> 'w, 'x, 'a) prog \<Rightarrow> ('ws ws_link \<times> 'w, 'x, 'a) prog" where
  "on_ws m s = (case m (ws_sock (fst s), snd s) of (r, ws, w) \<Rightarrow> (r, (fst s)\<lparr>ws_sock := ws\<rparr>, w))"

definition set_closed :: "u16 option \<Rightarrow> ('ws ws_link \<times> 'w, 'x, unit) prog" where
  "set_closed code = modify (\<lambda>(l, w). (l\<lparr>ws_closed := Some code\<rparr>, w))"

definition set_read_timeout ::
  "('ws, 'w) ws_lib \<Rightarrow> duration \<Rightarrow> ('ws ws_link \<times> 'w, link_error, unit) prog"
where
  "set_read_timeout lib dur =
     bnd (gets (\<lambda>(l, w). ws_stream lib (ws_sock l))) (\<lambda>kind.
     case kind of
       Plain \<Rightarrow> map_err LIo (on_ws (ext (ws_read_timeout lib dur)))
     | Rustls \<Rightarrow> map_err LIo (on_ws (ext (ws_read_timeout lib dur)))
     | OtherStream \<Rightarrow> fail (LProtocol (lit ''unsupported stream type'')))"

text \<open>The mutation of \<open>closed\<close> and the error it returns.\<close>

definition map_after_error ::
  "('ws, 'w) ws_lib \<Rightarrow> ws_error \<Rightarrow> ('ws ws_link \<times> 'w, link_error, 'a) prog"
where
  "map_after_error lib e =
     (case e of
        WsConnectionClosed \<Rightarrow> bnd (set_closed None) (\<lambda>_. fail (LClosed None))
      | WsAlreadyClosed \<Rightarrow> bnd (set_closed None) (\<lambda>_. fail (LClosed None))
      | WsIo io \<Rightarrow> fail (LIo io)
      | _ \<Rightarrow> fail (LProtocol (ws_error_text lib e)))"

definition is_timeout :: "io_error \<Rightarrow> bool" where
  "is_timeout io \<longleftrightarrow> fst io = WouldBlock \<or> fst io = TimedOut"

definition ws_send ::
  "('ws, 'w) ws_lib \<Rightarrow> ('i, 'o) json \<Rightarrow> 'o \<Rightarrow> ('ws ws_link \<times> 'w, link_error, unit) prog"
where
  "ws_send lib js msg =
     bnd (gets (\<lambda>(l, w). ws_closed l)) (\<lambda>c.
     case c of
       Some code \<Rightarrow> fail (LClosed code)
     | None \<Rightarrow>
        bnd (map_err LProtocol (lift_sum (json_to js msg))) (\<lambda>txt.
        handle (on_ws (ext (ws_write lib txt))) ret (map_after_error lib)))"

text \<open>The arms of the two matches of \<open>recv\<close>; \<open>continue\<close> is the next round of its loop.\<close>

fun ws_message ::
  "('i, 'o) json \<Rightarrow> ('ws ws_link \<times> 'w, link_error, 'i option) prog \<Rightarrow> ws_msg \<Rightarrow>
   ('ws ws_link \<times> 'w, link_error, 'i option) prog"
where
  "ws_message js continue (WText txt) =
     bnd (map_err LProtocol (lift_sum (json_from js txt))) (\<lambda>v. ret (Some v))"
| "ws_message js continue (WBinary b) = fail (LProtocol (lit ''unexpected binary frame''))"
| "ws_message js continue (WPing b) = continue"
| "ws_message js continue (WPong b) = continue"
| "ws_message js continue (WClose code) = bnd (set_closed code) (\<lambda>_. fail (LClosed code))"
| "ws_message js continue WFrame = fail (LProtocol (lit ''raw frame from read()''))"

definition ws_read_error ::
  "('ws, 'w) ws_lib \<Rightarrow> ws_error \<Rightarrow> ('ws ws_link \<times> 'w, link_error, 'i option) prog"
where
  "ws_read_error lib e =
     (case e of
        WsIo io \<Rightarrow> if is_timeout io then ret None else map_after_error lib e
      | _ \<Rightarrow> map_after_error lib e)"

primrec ws_recv_loop ::
  "'w os \<Rightarrow> ('ws, 'w) ws_lib \<Rightarrow> ('i, 'o) json \<Rightarrow> nat \<Rightarrow> instant \<Rightarrow>
   ('ws ws_link \<times> 'w, link_error, 'i option) prog"
where
  "ws_recv_loop sys lib js 0 deadline = hang"
| "ws_recv_loop sys lib js (Suc n) deadline =
     bnd (on_snd (now sys)) (\<lambda>t.
     let remaining = deadline - t
     in if remaining = 0 then ret None
        else
          bnd (set_read_timeout lib remaining) (\<lambda>_.
          handle (on_ws (ext (ws_read lib)))
            (ws_message js (ws_recv_loop sys lib js n deadline))
            (ws_read_error lib)))"

definition ws_recv ::
  "'w os \<Rightarrow> ('ws, 'w) ws_lib \<Rightarrow> ('i, 'o) json \<Rightarrow> nat \<Rightarrow> duration \<Rightarrow>
   ('ws ws_link \<times> 'w, link_error, 'i option) prog"
where
  "ws_recv sys lib js fuel timeout =
     bnd (gets (\<lambda>(l, w). ws_closed l)) (\<lambda>c.
     case c of
       Some code \<Rightarrow> fail (LClosed code)
     | None \<Rightarrow>
        bnd (on_snd (now sys)) (\<lambda>t. ws_recv_loop sys lib js fuel (t + timeout)))"

section \<open>The contract of a link\<close>

datatype 'o link_op = OpSend 'o | OpRecv duration

text \<open>Every call of a sequence reports that the link is closed with this code.\<close>

primrec calls_closed ::
  "('o \<Rightarrow> ('s, link_error, unit) prog) \<Rightarrow> (duration \<Rightarrow> ('s, link_error, 'i option) prog) \<Rightarrow>
   u16 option \<Rightarrow> 'o link_op list \<Rightarrow> 's \<Rightarrow> bool"
where
  "calls_closed send recv c [] s = True"
| "calls_closed send recv c (x # xs) s =
     (case x of
        OpSend m \<Rightarrow> (case send m s of (r, s') \<Rightarrow> r = Err (LClosed c) \<and> calls_closed send recv c xs s')
      | OpRecv t \<Rightarrow> (case recv t s of (r, s') \<Rightarrow> r = Err (LClosed c) \<and> calls_closed send recv c xs s'))"

locale sticky_link =
  fixes send :: "'o \<Rightarrow> ('s, link_error, unit) prog"
    and recv :: "duration \<Rightarrow> ('s, link_error, 'i option) prog"
    and closed :: "'s \<Rightarrow> u16 option option"
  assumes send_closed: "closed s = Some c \<Longrightarrow> send m s = (Err (LClosed c), s)"
    and recv_closed: "closed s = Some c \<Longrightarrow> recv t s = (Err (LClosed c), s)"
    and recv_reports: "recv t s = (Err (LClosed c), s') \<Longrightarrow> closed s' = Some c"
begin

lemma closed_calls: "closed s = Some c \<Longrightarrow> calls_closed send recv c ops s"
  by (induction ops) (auto simp: send_closed recv_closed split: link_op.splits)

lemma closed_for_good:
  "recv t s = (Err (LClosed c), s') \<Longrightarrow> calls_closed send recv c ops s'"
  by (rule closed_calls) (rule recv_reports)

end

section \<open>Lemmas\<close>

lemma wp_on_ws [wp_rules]:
  "wp (on_ws m) Q s =
     wp m (\<lambda>r t. Q r ((fst s)\<lparr>ws_sock := fst t\<rparr>, snd t)) (ws_sock (fst s), snd s)"
  by (auto simp: wp_def on_ws_def split: prod.splits)

lemma wp_set_closed [wp_rules]:
  "wp (set_closed code) Q s = Q (Ok ()) ((fst s)\<lparr>ws_closed := Some code\<rparr>, snd s)"
  by (simp add: set_closed_def wp_modify split: prod.splits)

text \<open>What an error report says of the mark \<open>closed\<close>.\<close>

definition marked :: "(link_error, 'a) res \<Rightarrow> 'ws ws_link \<times> 'w \<Rightarrow> bool" where
  "marked r s \<longleftrightarrow> (\<forall>c. r = Err (LClosed c) \<longrightarrow> ws_closed (fst s) = Some c)"

lemma marked_simps [simp]:
  "marked (Ok a) s" "marked Hang s" "marked Panic s" "marked (Err (LIo io)) s"
  "marked (Err (LProtocol m)) s" "marked (Err (LClosed c)) s \<longleftrightarrow> ws_closed (fst s) = Some c"
  by (auto simp: marked_def)

lemma map_after_error_marked: "wp (map_after_error lib e) marked s"
  by (cases e) (auto simp: map_after_error_def wp_rules)

lemma wp_set_read_timeout:
  assumes "\<And>w'. \<And>ws. Q (Ok ()) ((fst s)\<lparr>ws_sock := ws\<rparr>, w')"
    and "\<And>w' ws io. Q (Err (LIo io)) ((fst s)\<lparr>ws_sock := ws\<rparr>, w')"
    and "\<And>m. Q (Err (LProtocol m)) s"
  shows "wp (set_read_timeout lib d) Q s"
  using assms
  by (auto simp: set_read_timeout_def wp_rules split: prod.splits sum.splits stream_kind.splits)

lemma ws_message_wp:
  "wp k Q s \<Longrightarrow> (\<And>a. Q (Ok a) s) \<Longrightarrow> (\<And>e. Q (Err (LProtocol e)) s) \<Longrightarrow>
   (\<And>c. Q (Err (LClosed c)) ((fst s)\<lparr>ws_closed := Some c\<rparr>, snd s)) \<Longrightarrow>
   wp (ws_message js k m) Q s"
  by (cases m) (auto simp: wp_rules split: sum.splits)

lemma ws_read_error_marked: "wp (ws_read_error lib e) marked s"
  by (cases e) (auto simp: ws_read_error_def map_after_error_marked wp_rules)

lemma ws_recv_loop_marked: "wp (ws_recv_loop sys lib js n deadline) marked s"
proof (induction n arbitrary: s)
  case (Suc n)
  show ?case
    by (auto simp: wp_rules Let_def Suc.IH ws_read_error_marked
        intro!: wp_set_read_timeout ws_message_wp split: prod.splits sum.splits)
qed (simp add: wp_rules)

lemma ws_recv_marked: "wp (ws_recv sys lib js n t) marked s"
  by (auto simp: ws_recv_def wp_rules ws_recv_loop_marked split: option.splits prod.splits)

interpretation wslink: sticky_link "ws_send lib js"
  "ws_recv sys lib js n" "\<lambda>s. ws_closed (fst s :: 'ws ws_link)"
  for sys :: "'w os" and lib :: "('ws, 'w) ws_lib" and js :: "('i, 'o) json" and n
proof unfold_locales
  fix s :: "'ws ws_link \<times> 'w" and c m
  assume "ws_closed (fst s) = Some c"
  then show "ws_send lib js m s = (Err (LClosed c), s)"
    by (cases s) (simp add: ws_send_def run_simps)
next
  fix s :: "'ws ws_link \<times> 'w" and c t
  assume "ws_closed (fst s) = Some c"
  then show "ws_recv sys lib js n t s = (Err (LClosed c), s)"
    by (cases s) (simp add: ws_recv_def run_simps)
next
  fix t c and s s' :: "'ws ws_link \<times> 'w"
  assume "ws_recv sys lib js n t s = (Err (LClosed c), s')"
  from wpD [OF ws_recv_marked this] show "ws_closed (fst s') = Some c" by simp
qed

text \<open>The loop of \<open>recv\<close> reads the clock in every round.\<close>

abbreviation link_clock :: "('w \<Rightarrow> nat) \<Rightarrow> 'a \<times> 'w \<Rightarrow> nat" where
  "link_clock clk \<equiv> \<lambda>s. clk (snd s)"

lemma tame_on_ws [tame_intros]: "tame (link_clock clk) m \<Longrightarrow> tame (link_clock clk) (on_ws m)"
  by (auto simp: tame_def wp_on_ws elim!: wp_mono dest!: spec)

lemma tame_map_after_error [tame_intros]: "tame (link_clock clk) (map_after_error lib e)"
  by (cases e) (auto simp: map_after_error_def set_closed_def intro!: tame_intros tame_modify)

lemma tame_ws_read_error [tame_intros]: "tame (link_clock clk) (ws_read_error lib e)"
  by (cases e) (auto simp: ws_read_error_def intro!: tame_intros)

lemma tame_set_read_timeout [tame_intros]:
  "(\<And>d. keeps (link_clock clk) (ws_read_timeout lib d)) \<Longrightarrow>
   tame (link_clock clk) (set_read_timeout lib d)"
  unfolding set_read_timeout_def
  by (intro tame_intros) (auto split: stream_kind.splits intro!: tame_intros)

lemma ws_message_returns:
  "tame_at (link_clock clk) k s \<Longrightarrow> tame_at (link_clock clk) (ws_message js k m) s"
  unfolding tame_at_def by (rule ws_message_wp) auto

lemma ws_recv_loop_returns:
  fixes s :: "'ws ws_link \<times> 'w"
  assumes "ticking clk sys" "keeps (link_clock clk) (ws_read lib)"
    "\<And>d. keeps (link_clock clk) (ws_read_timeout lib d)" "0 < n" "deadline < clk (snd s) + n"
  shows "tame_at (link_clock clk) (ws_recv_loop sys lib js n deadline) s"
  using assms(4,5)
proof (induction n arbitrary: s)
  case (Suc n)
  have round: "tame_at (link_clock clk) (handle (on_ws (ext (ws_read lib)))
        (ws_message js (ws_recv_loop sys lib js n deadline)) (ws_read_error lib)) u"
    if "0 < n" "deadline < clk (snd u) + n" for u
    by (rule tame_at_handle [OF tame_at [OF tame_on_ws [OF tame_ext [OF assms(2)]]] _
          tame_at [OF tame_ws_read_error]])
      (use that in \<open>auto intro!: ws_message_returns Suc.IH\<close>)
  show ?case
    unfolding ws_recv_loop.simps Let_def
  proof (rule tame_at_now [OF assms(1)])
    fix s' :: "'ws ws_link \<times> 'w"
    assume t: "clk (snd s) < clk (snd s')"
    have "tame_at (link_clock clk) (bnd (set_read_timeout lib d) (\<lambda>_. handle (on_ws (ext (ws_read lib)))
        (ws_message js (ws_recv_loop sys lib js n deadline)) (ws_read_error lib))) s'"
      if "clk (snd s) < deadline" for d
      by (rule tame_at_bnd [OF tame_at [OF tame_set_read_timeout [OF assms(3)]]], rule round)
        (use t that Suc.prems in linarith)+
    then show "tame_at (link_clock clk) (if deadline - clk (snd s) = 0 then ret None
        else bnd (set_read_timeout lib (deadline - clk (snd s))) (\<lambda>_. handle (on_ws (ext (ws_read lib)))
        (ws_message js (ws_recv_loop sys lib js n deadline)) (ws_read_error lib))) s'"
      by (auto intro: tame_at tame_intros)
  qed
qed simp

lemma ws_recv_returns:
  assumes "ticking clk sys" "keeps (link_clock clk) (ws_read lib)"
    "\<And>d. keeps (link_clock clk) (ws_read_timeout lib d)" "timeout < n"
  shows "tame_at (link_clock clk) (ws_recv sys lib js n timeout) s"
  unfolding ws_recv_def
  using assms by (auto split: option.splits intro!: tame_at_gets tame_at_now [OF assms(1)]
      ws_recv_loop_returns tame_at [OF tame_fail])

text \<open>A sample socket, which delivers a list of messages, and a JSON codec for texts.\<close>

definition sample_ws :: "(ws_msg list, nat) ws_lib" where
  "sample_ws =
     \<lparr>uri_parse = (\<lambda>u. None), authority_host = (\<lambda>a. a), tls_provider = (\<lambda>w. ((), w)),
      tls_connect = (\<lambda>u h a b w. (Inr [], w)), ws_stream = (\<lambda>x. Plain),
      ws_read_timeout = (\<lambda>d (x, w). (Inr (), x, w)), ws_write = (\<lambda>txt (x, w). (Inr (), x, w)),
      ws_read = (\<lambda>(x, w). case x of [] \<Rightarrow> (Inl (WsIo (TimedOut, [])), x, w) | m # ms \<Rightarrow> (Inr m, ms, w)),
      ws_error_text = (\<lambda>e. [])\<rparr>"

definition sample_json :: "(ustr, ustr) json" where
  "sample_json = \<lparr>json_to = Inr, json_from = Inr\<rparr>"

definition sample_link :: "ws_msg list \<Rightarrow> ws_msg list ws_link \<times> nat" where
  "sample_link ms = (\<lparr>ws_sock = ms, ws_closed = None\<rparr>, 0)"

lemmas sample_link_defs = sample_ws_def sample_json_def sample_link_def sample_os_def

lemma sample_ws_keeps:
  "keeps (link_clock (\<lambda>w. w)) (ws_read sample_ws)"
  "keeps (link_clock (\<lambda>w. w)) (ws_read_timeout sample_ws d)"
  by (auto simp: keeps_def sample_ws_def split: list.splits)

section \<open>Properties\<close>

text \<open>What the URL check means: TLS, or a plain connection whose host is this machine and whose
  authority is that host with nothing but a port behind it.\<close>

definition secure_uri :: "('ws, 'w) ws_lib \<Rightarrow> uri \<Rightarrow> bool" where
  "secure_uri lib u \<longleftrightarrow>
     (\<exists>scheme. u_scheme u = Some scheme \<and>
       (map ascii_lower scheme = lit ''wss'' \<or>
        map ascii_lower scheme = lit ''ws'' \<and>
        (\<exists>host port. u_authority u = Some (host @ port) \<and> authority_host lib (host @ port) = host \<and>
           64 \<notin> set (host @ port) \<and> (port = [] \<or> hd port = 58) \<and>
           (let h = strip_ipv6_brackets host
            in h = lit ''::1'' \<or> map ascii_lower h \<in> {lit ''127.0.0.1'', lit ''localhost''}))))"

lemma starts_with_iff: "starts_with p s \<longleftrightarrow> (\<exists>t. s = p @ t)"
  unfolding starts_with_def by (metis append_eq_conv_conj append_take_drop_id)

lemma strip_prefix_Some: "strip_prefix p s = Some t \<longleftrightarrow> s = p @ t"
  by (auto simp: strip_prefix_def starts_with_iff)

lemma starts_with_colon: "rest = [] \<or> starts_with (lit '':'') rest \<longleftrightarrow> rest = [] \<or> hd rest = 58"
  by (cases rest) (auto simp: starts_with_def lit_def)

lemma lower_lits:
  "map ascii_lower (lit ''wss'') = lit ''wss''" "map ascii_lower (lit ''ws'') = lit ''ws''"
  "map ascii_lower (lit ''127.0.0.1'') = lit ''127.0.0.1''"
  "map ascii_lower (lit ''localhost'') = lit ''localhost''"
  by (simp_all add: lit_def ascii_lower_def)

lemma lit_schemes: "lit ''ws'' \<noteq> lit ''wss''" "lit ''wss'' \<noteq> []" "lit ''ws'' \<noteq> []"
  by (simp_all add: lit_def)

definition plain_ok :: "('ws, 'w) ws_lib \<Rightarrow> ustr \<Rightarrow> bool" where
  "plain_ok lib a \<longleftrightarrow>
     64 \<notin> set a \<and>
     (\<exists>rest. strip_prefix (authority_host lib a) a = Some rest \<and> (rest = [] \<or> hd rest = 58)) \<and>
     (let h = strip_ipv6_brackets (authority_host lib a)
      in h = lit ''::1'' \<or> map ascii_lower h \<in> {lit ''127.0.0.1'', lit ''localhost''})"

lemma plain_ok_iff:
  "plain_ok lib a \<longleftrightarrow>
     (\<exists>host port. a = host @ port \<and> authority_host lib (host @ port) = host \<and>
        64 \<notin> set (host @ port) \<and> (port = [] \<or> hd port = 58) \<and>
        (let h = strip_ipv6_brackets host
         in h = lit ''::1'' \<or> map ascii_lower h \<in> {lit ''127.0.0.1'', lit ''localhost''}))"
proof
  assume "plain_ok lib a"
  then show "\<exists>host port. a = host @ port \<and> authority_host lib (host @ port) = host \<and>
        64 \<notin> set (host @ port) \<and> (port = [] \<or> hd port = 58) \<and>
        (let h = strip_ipv6_brackets host
         in h = lit ''::1'' \<or> map ascii_lower h \<in> {lit ''127.0.0.1'', lit ''localhost''})"
    unfolding plain_ok_def strip_prefix_Some by metis
qed (auto simp: plain_ok_def strip_prefix_Some)

lemma ensure_plain:
  "(if 64 \<in> set a then Inl LInsecureUrl
    else
      let raw_host = authority_host lib a
      in case strip_prefix raw_host a of
           None \<Rightarrow> Inl LInsecureUrl
         | Some rest \<Rightarrow>
             if rest = [] \<or> starts_with (lit '':'') rest then
               (let host = strip_ipv6_brackets raw_host
                in if eq_ignore_ascii_case host (lit ''127.0.0.1'') \<or> host = lit ''::1'' \<or>
                      eq_ignore_ascii_case host (lit ''localhost'')
                   then Inr u else Inl LInsecureUrl)
             else Inl LInsecureUrl) = (if plain_ok lib a then Inr u else Inl LInsecureUrl)"
  unfolding plain_ok_def starts_with_colon eq_ignore_ascii_case_def lower_lits Let_def
  by (cases "strip_prefix (authority_host lib a) a") auto

lemma ensure_secure_url_eq:
  "ensure_secure_url lib url =
     (case uri_parse lib url of
        Some u \<Rightarrow> if secure_uri lib u then Inr u else Inl LInsecureUrl
      | None \<Rightarrow> Inl LInsecureUrl)"
proof (cases "uri_parse lib url")
  case (Some u)
  have "secure_uri lib u \<longleftrightarrow>
      (\<exists>sc. u_scheme u = Some sc \<and> (map ascii_lower sc = lit ''wss'' \<or>
         map ascii_lower sc = lit ''ws'' \<and> (\<exists>a. u_authority u = Some a \<and> plain_ok lib a)))"
    unfolding secure_uri_def plain_ok_iff by blast
  then show ?thesis
    using Some lit_schemes
    by (cases "u_scheme u"; cases "u_authority u")
      (simp_all only: ensure_secure_url_def ensure_plain, auto simp: eq_ignore_ascii_case_def lower_lits)
qed (simp add: ensure_secure_url_def)

text \<open>C32: No connection to an insecure URL: unless the URL parses to a TLS address or to a plain one
  on this machine, \<open>ws_connect\<close> is the error \<open>InsecureUrl\<close> and has made no outside call at all
  (the world is unchanged); with a secure URL the check lets exactly the parsed address through.\<close>

theorem ws_connect_insecure:
  "(case uri_parse lib url of
      Some u \<Rightarrow>
        if secure_uri lib u then ensure_secure_url lib url = Inr u
        else ws_connect sys lib url w = (Err LInsecureUrl, w)
    | None \<Rightarrow> ws_connect sys lib url w = (Err LInsecureUrl, w))"
  by (auto simp: ws_connect_def ensure_secure_url_eq run_simps split: option.splits)



text \<open>\<open>recv\<close> returns: with a clock that advances at each reading and socket calls that do not
  turn it back, the receive loop is over after at most one round per unit of the timeout, however
  many ping frames the peer sends.\<close>

theorem ws_recv_terminates:
  assumes "ticking clk sys" "keeps (link_clock clk) (ws_read lib)"
    "\<forall>d. keeps (link_clock clk) (ws_read_timeout lib d)" and "timeout < n"
  shows "fst (ws_recv sys lib js n timeout s) \<noteq> Hang"
  by (rule tame_at_no_hang [OF ws_recv_returns [OF assms(1,2) spec [OF assms(3)] assms(4)]])

theorem ws_recv_terminates_witness:
  "fst (ws_recv sample_os sample_ws sample_json 3 2 (sample_link [WPing [], WPong [], WPing []])) \<noteq> Hang"
  by (rule ws_recv_terminates [OF sample_os_ticking sample_ws_keeps(1)])
    (simp_all add: sample_ws_keeps(2))

end
