(* ===== verification/Peer.thy ===== *)
theory Peer
  imports Net
begin

text \<open>
  \<open>crates/transport/src/peer.rs\<close>: a WebRTC peer driven by polling.  The sans-IO engine str0m is a
  third-party crate, the functions of \<open>rtc_lib\<close> on an abstract engine state \<open>'rtc\<close>; the UDP sockets
  are the system calls of \<open>os\<close>.  The iteration order of the socket map is the order of the list
  that models it; nothing here depends on it.  \<open>fl\<close> is the fuel of every loop.
\<close>

section \<open>The engine\<close>

datatype rtc_event =
    EvConnected
  | EvChannelOpen nat ustr
  | EvChannelData nat bytes
  | EvChannelClose nat
  | EvClosed
  | EvOther nat

datatype rtc_output =
    OTimeout instant
  | OTransmit sock_addr sock_addr bytes \<comment> \<open>source, destination, contents\<close>
  | OEvent rtc_event

text \<open>Parsed descriptions and candidates are represented by their text.\<close>

record ('rtc, 'p) rtc_lib =
  rtc_build :: "instant \<Rightarrow> 'rtc"
  rtc_candidate :: "sock_addr \<Rightarrow> ustr + ustr" \<comment> \<open>\<open>Candidate::host(addr, "udp")\<close>\<close>
  rtc_add_candidate :: "ustr \<Rightarrow> 'rtc \<Rightarrow> 'rtc"
  rtc_poll_output :: "'rtc \<Rightarrow> (ustr + rtc_output) \<times> 'rtc"
  rtc_timeout :: "instant \<Rightarrow> 'rtc \<Rightarrow> (ustr + unit) \<times> 'rtc" \<comment> \<open>\<open>Input::Timeout\<close>\<close>
  rtc_datagram_ok :: "bytes \<Rightarrow> bool"
  rtc_receive :: "instant \<Rightarrow> sock_addr \<Rightarrow> sock_addr \<Rightarrow> bytes \<Rightarrow> 'rtc \<Rightarrow> (ustr + unit) \<times> 'rtc"
  rtc_offer :: "ustr \<Rightarrow> 'rtc \<Rightarrow> (ustr \<times> 'p) option \<times> 'rtc"
    \<comment> \<open>\<open>add_channel_with_config\<close> (ordered, reliable) with the label, then \<open>apply\<close>\<close>
  sdp_offer :: "ustr \<Rightarrow> ustr + ustr" \<comment> \<open>\<open>SdpOffer::from_sdp_string\<close>\<close>
  rtc_accept_offer :: "ustr \<Rightarrow> 'rtc \<Rightarrow> (ustr + ustr) \<times> 'rtc"
  sdp_answer :: "ustr \<Rightarrow> ustr + ustr"
  rtc_accept_answer :: "'p \<Rightarrow> ustr \<Rightarrow> 'rtc \<Rightarrow> (ustr + unit) \<times> 'rtc"
  rtc_has_channel :: "nat \<Rightarrow> 'rtc \<Rightarrow> bool"
  rtc_write :: "nat \<Rightarrow> bytes \<Rightarrow> 'rtc \<Rightarrow> (ustr + bool) \<times> 'rtc"
  rtc_local_fp :: "'rtc \<Rightarrow> bytes"
  rtc_remote_fp :: "'rtc \<Rightarrow> bytes option"
  rtc_close :: "'rtc \<Rightarrow> (ustr + unit) \<times> 'rtc"

datatype peer_event =
    PConnected
  | PChannelOpen
  | PData bytes
  | PClosed

definition CONTROL_LABEL :: ustr where
  "CONTROL_LABEL = lit ''control''"

record 'rtc peer =
  rtc :: 'rtc
  sockets :: "(sock_addr \<times> nat) list"
  control_id :: "nat option"

definition rtc_call ::
  "('rtc \<Rightarrow> (ustr + 'a) \<times> 'rtc) \<Rightarrow> ('rtc peer \<times> 'w, transport_error, 'a) prog"
where
  "rtc_call op s =
     (case op (rtc (fst s)) of
        (Inl e, r) \<Rightarrow> (Err (TRtc e), (fst s)\<lparr>rtc := r\<rparr>, snd s)
      | (Inr a, r) \<Rightarrow> (Ok a, (fst s)\<lparr>rtc := r\<rparr>, snd s))"

section \<open>Construction and negotiation\<close>

definition insert_socket ::
  "sock_addr \<Rightarrow> nat \<Rightarrow> (sock_addr \<times> nat) list \<Rightarrow> (sock_addr \<times> nat) list"
where
  "insert_socket a h socks = filter (\<lambda>(b, _). b \<noteq> a) socks @ [(a, h)]"

primrec add_ips ::
  "'w os \<Rightarrow> ('rtc, 'p) rtc_lib \<Rightarrow> ip_addr list \<Rightarrow> 'rtc peer \<Rightarrow> ('w, transport_error, 'rtc peer) prog"
where
  "add_ips sys lib [] p = ret p"
| "add_ips sys lib (ip # ips) p =
     bnd (map_err TIo (ext (udp_bind sys (TAddr (ip, 0))))) (\<lambda>sock.
     bnd (map_err TIo (ext (udp_nonblocking sys sock))) (\<lambda>_.
     bnd (map_err TIo (ext (udp_local_addr sys sock))) (\<lambda>addr.
     bnd (map_err TRtc (lift_sum (rtc_candidate lib addr))) (\<lambda>candidate.
     add_ips sys lib ips
       (p\<lparr>rtc := rtc_add_candidate lib candidate (rtc p),
          sockets := insert_socket addr sock (sockets p)\<rparr>)))))"

definition peer_new ::
  "'w os \<Rightarrow> ('rtc, 'p) rtc_lib \<Rightarrow> ip_addr list \<Rightarrow> ('w, transport_error, 'rtc peer) prog"
where
  "peer_new sys lib bind_ips =
     (if bind_ips = [] then fail (TIo (InvalidInput, lit ''bind_ips must not be empty''))
      else bnd (now sys) (\<lambda>t.
        add_ips sys lib bind_ips \<lparr>rtc = rtc_build lib t, sockets = [], control_id = None\<rparr>))"

definition peer_create_offer ::
  "('rtc, 'p) rtc_lib \<Rightarrow> ('rtc peer \<times> 'w, transport_error, ustr \<times> 'p) prog"
where
  "peer_create_offer lib s =
     (case rtc_offer lib CONTROL_LABEL (rtc (fst s)) of
        (None, r) \<Rightarrow> (Panic, (fst s)\<lparr>rtc := r\<rparr>, snd s)
      | (Some v, r) \<Rightarrow> (Ok v, (fst s)\<lparr>rtc := r\<rparr>, snd s))"

definition peer_accept_offer ::
  "('rtc, 'p) rtc_lib \<Rightarrow> ustr \<Rightarrow> ('rtc peer \<times> 'w, transport_error, ustr) prog"
where
  "peer_accept_offer lib sdp =
     bnd (map_err TRtc (lift_sum (sdp_offer lib sdp))) (\<lambda>offer.
     rtc_call (rtc_accept_offer lib offer))"

definition peer_accept_answer ::
  "('rtc, 'p) rtc_lib \<Rightarrow> 'p \<Rightarrow> ustr \<Rightarrow> ('rtc peer \<times> 'w, transport_error, unit) prog"
where
  "peer_accept_answer lib pending sdp =
     bnd (map_err TRtc (lift_sum (sdp_answer lib sdp))) (\<lambda>answer.
     rtc_call (rtc_accept_answer lib pending answer))"

section \<open>Polling\<close>

text \<open>\<open>map_event\<close>: the event for the caller, if any, and the recorded control channel.\<close>

definition map_event :: "rtc_event \<Rightarrow> 'rtc peer \<Rightarrow> peer_event option \<times> 'rtc peer" where
  "map_event ev p =
     (case ev of
        EvConnected \<Rightarrow> (Some PConnected, p)
      | EvChannelOpen i label \<Rightarrow>
          if label = CONTROL_LABEL then (Some PChannelOpen, p\<lparr>control_id := Some i\<rparr>) else (None, p)
      | EvChannelData i d \<Rightarrow> (Some (PData d), p)
      | EvChannelClose i \<Rightarrow> (if control_id p = Some i then Some PClosed else None, p)
      | EvClosed \<Rightarrow> (Some PClosed, p)
      | EvOther _ \<Rightarrow> (None, p))"

definition take_event :: "rtc_event \<Rightarrow> ('rtc peer \<times> 'w, 'x, peer_event option) prog" where
  "take_event ev s = (case map_event ev (fst s) of (e, p) \<Rightarrow> (Ok e, p, snd s))"

primrec drain_output ::
  "'w os \<Rightarrow> ('rtc, 'p) rtc_lib \<Rightarrow> nat \<Rightarrow> peer_event list \<Rightarrow>
   ('rtc peer \<times> 'w, transport_error, peer_event list) prog"
where
  "drain_output sys lib 0 events = hang"
| "drain_output sys lib (Suc n) events =
     bnd (rtc_call (rtc_poll_output lib)) (\<lambda>output.
     case output of
       OTimeout _ \<Rightarrow> ret events
     | OTransmit src dest contents \<Rightarrow>
         bnd (gets (\<lambda>s. map_of (sockets (fst s)) src)) (\<lambda>sock.
         case sock of
           None \<Rightarrow> drain_output sys lib n events
         | Some h \<Rightarrow>
             bnd (ignore (on_snd (ext (udp_send sys h contents dest)))) (\<lambda>_.
             drain_output sys lib n events))
     | OEvent ev \<Rightarrow>
         bnd (take_event ev) (\<lambda>e.
         drain_output sys lib n (case e of None \<Rightarrow> events | Some x \<Rightarrow> events @ [x])))"

definition recv_error_is_transient :: "io_kind \<Rightarrow> bool" where
  "recv_error_is_transient kind \<longleftrightarrow>
     kind = WouldBlock \<or> kind = TimedOut \<or> kind = ConnectionReset \<or> kind = ConnectionRefused"

primrec pump_list ::
  "'w os \<Rightarrow> ('rtc, 'p) rtc_lib \<Rightarrow> (sock_addr \<times> nat) list \<Rightarrow> bool \<Rightarrow>
   ('rtc peer \<times> 'w, transport_error, bool) prog"
where
  "pump_list sys lib [] got_input = ret got_input"
| "pump_list sys lib (sk # rest) got_input =
     handle (on_snd (ext (udp_recv sys (snd sk) 2000)))
       (\<lambda>(buf, source).
          bnd (on_snd (now sys)) (\<lambda>t.
          if \<not> rtc_datagram_ok lib buf then fail (TRtc (lit ''datagram too large''))
          else
            bnd (rtc_call (rtc_receive lib t source (fst sk) buf)) (\<lambda>_.
            pump_list sys lib rest True)))
       (\<lambda>e. if recv_error_is_transient (fst e) then pump_list sys lib rest got_input
             else fail (TIo e))"

definition pump_sockets ::
  "'w os \<Rightarrow> ('rtc, 'p) rtc_lib \<Rightarrow> ('rtc peer \<times> 'w, transport_error, bool) prog"
where
  "pump_sockets sys lib =
     bnd (gets (\<lambda>s. sockets (fst s))) (\<lambda>socks. pump_list sys lib socks False)"

primrec poll_loop ::
  "'w os \<Rightarrow> ('rtc, 'p) rtc_lib \<Rightarrow> nat \<Rightarrow> nat \<Rightarrow> instant \<Rightarrow>
   ('rtc peer \<times> 'w, transport_error, peer_event list) prog"
where
  "poll_loop sys lib fl 0 end_at = hang"
| "poll_loop sys lib fl (Suc n) end_at =
     bnd (drain_output sys lib fl []) (\<lambda>events.
     if events \<noteq> [] then ret events
     else
       bnd (on_snd (now sys)) (\<lambda>t.
       if end_at \<le> t then ret events
       else
         bnd (pump_sockets sys lib) (\<lambda>got_input.
         bnd (on_snd (now sys)) (\<lambda>t2.
         bnd (rtc_call (rtc_timeout lib t2)) (\<lambda>_.
         if got_input then poll_loop sys lib fl n end_at
         else
           bnd (on_snd (ext_total (os_sleep sys (millis 1)))) (\<lambda>_.
           poll_loop sys lib fl n end_at))))))"

definition peer_poll ::
  "'w os \<Rightarrow> ('rtc, 'p) rtc_lib \<Rightarrow> nat \<Rightarrow> duration \<Rightarrow>
   ('rtc peer \<times> 'w, transport_error, peer_event list) prog"
where
  "peer_poll sys lib fl max_wait =
     bnd (on_snd (now sys)) (\<lambda>t. poll_loop sys lib fl fl (t + max_wait))"

section \<open>Sending and closing\<close>

definition peer_send ::
  "('rtc, 'p) rtc_lib \<Rightarrow> bytes \<Rightarrow> ('rtc peer \<times> 'w, transport_error, unit) prog"
where
  "peer_send lib data =
     bnd (gets (\<lambda>s. control_id (fst s))) (\<lambda>c.
     case c of
       None \<Rightarrow> fail NoChannel
     | Some i \<Rightarrow>
         bnd (gets (\<lambda>s. rtc_has_channel lib i (rtc (fst s)))) (\<lambda>has.
         if \<not> has then fail NoChannel
         else
           bnd (rtc_call (rtc_write lib i data)) (\<lambda>wrote.
           if \<not> wrote then fail Backpressure else ret ())))"

definition peer_local_fp :: "('rtc, 'p) rtc_lib \<Rightarrow> ('rtc peer \<times> 'w, 'x, bytes) prog" where
  "peer_local_fp lib = gets (\<lambda>s. rtc_local_fp lib (rtc (fst s)))"

definition peer_remote_fp :: "('rtc, 'p) rtc_lib \<Rightarrow> ('rtc peer \<times> 'w, 'x, bytes option) prog" where
  "peer_remote_fp lib = gets (\<lambda>s. rtc_remote_fp lib (rtc (fst s)))"

definition peer_close :: "('rtc, 'p) rtc_lib \<Rightarrow> ('rtc peer \<times> 'w, 'x, unit) prog" where
  "peer_close lib = ignore (rtc_call (rtc_close lib))"

section \<open>Returning\<close>

text \<open>The system calls a poll makes do not turn the clock back; the engine gives only finitely many
  outputs before a \<open>Timeout\<close>, as its documentation promises: \<open>work\<close> bounds how many are left.\<close>

definition os_ok :: "('w \<Rightarrow> nat) \<Rightarrow> 'w os \<Rightarrow> bool" where
  "os_ok clk sys \<longleftrightarrow> ticking clk sys \<and> (\<forall>h b a p. keeps clk (udp_send sys h b (a, p))) \<and>
     (\<forall>h n. keeps clk (udp_recv sys h n)) \<and> (\<forall>d. keeps clk (os_sleep sys d))"

definition drains :: "('rtc, 'p) rtc_lib \<Rightarrow> ('rtc \<Rightarrow> nat) \<Rightarrow> nat \<Rightarrow> bool" where
  "drains lib work k \<longleftrightarrow>
     (\<forall>r. work r < k) \<and>
     (\<forall>r out r'. rtc_poll_output lib r = (Inr out, r') \<longrightarrow>
        (\<exists>t. out = OTimeout t) \<or> work r' < work r)"

abbreviation peer_clock :: "('w \<Rightarrow> nat) \<Rightarrow> 'rtc peer \<times> 'w \<Rightarrow> nat" where
  "peer_clock clk \<equiv> \<lambda>s. clk (snd s)"

lemma wp_rtc_call [wp_rules]:
  "wp (rtc_call op) Q s =
     (case op (rtc (fst s)) of
        (Inl e, r) \<Rightarrow> Q (Err (TRtc e)) ((fst s)\<lparr>rtc := r\<rparr>, snd s)
      | (Inr a, r) \<Rightarrow> Q (Ok a) ((fst s)\<lparr>rtc := r\<rparr>, snd s))"
  by (auto simp: wp_def rtc_call_def split: prod.splits sum.splits)

lemma wp_take_event [wp_rules]:
  "wp (take_event ev) Q s = (case map_event ev (fst s) of (e, p) \<Rightarrow> Q (Ok e) (p, snd s))"
  by (auto simp: wp_def take_event_def split: prod.splits)

lemma rtc_map_event [simp]: "rtc (snd (map_event ev p)) = rtc p"
  by (simp add: map_event_def split: rtc_event.splits)

lemma tame_rtc_call [tame_intros]: "tame (peer_clock clk) (rtc_call op)"
  by (auto simp: tame_def wp_rtc_call split: prod.splits sum.splits)

lemma os_okD:
  assumes "os_ok clk sys"
  shows "ticking clk sys" "keeps clk (udp_send sys h b a)" "keeps clk (udp_recv sys h n)"
    "keeps clk (os_sleep sys d)"
  using assms by (cases a; simp add: os_ok_def)+

lemma drainsD:
  "drains lib work k \<Longrightarrow> rtc_poll_output lib r = (Inr out, r') \<Longrightarrow>
   (\<exists>t. out = OTimeout t) \<or> work r' < work r"
  unfolding drains_def by blast

lemma drain_output_wp:
  assumes "os_ok clk sys" "drains lib work k" "work (rtc (fst s)) < n"
  shows "wp (drain_output sys lib n events) (\<lambda>r s'. r \<noteq> Hang \<and> clk (snd s) \<le> clk (snd s')) s"
  using assms(3)
proof (induction n arbitrary: s events)
  case (Suc n)
  show ?case
  proof (cases "rtc_poll_output lib (rtc (fst s))")
    case (Pair v r)
    have IH: "wp (drain_output sys lib n evs) (\<lambda>x s'. x \<noteq> Hang \<and> clk (snd s) \<le> clk (snd s')) (p, w)"
      if "rtc p = r" "v = Inr out" "\<nexists>t. out = OTimeout t" "clk (snd s) \<le> clk w" for evs p w out
    proof -
      have "work r < work (rtc (fst s))"
        using drainsD [OF assms(2) Pair [unfolded that(2)]] that(3) by blast
      with Suc.prems have "work (rtc (fst (p, w))) < n" using that(1) by simp
      from Suc.IH [OF this, of evs] show ?thesis
        by (rule wp_mono) (use that(4) in auto)
    qed
    have snd_clk: "clk (snd s) \<le> clk w'" if "udp_send sys h b a (snd s) = (x, w')" for h b a x w'
      using keepsD [OF os_okD(2) [OF assms(1)] that] .
    have ev: "rtc p = r" if "map_event e (fst s\<lparr>rtc := r\<rparr>) = (x, p)" for e x p
      using rtc_map_event [of e "fst s\<lparr>rtc := r\<rparr>"] that by simp
    show ?thesis
      using Pair
      by (auto simp: wp_rules split: sum.splits rtc_output.splits option.splits prod.splits
          intro!: IH dest: snd_clk ev)
  qed
qed simp

lemma tame_drain [tame_intros]:
  assumes "os_ok clk sys" "drains lib work k" "k \<le> n"
  shows "tame (peer_clock clk) (drain_output sys lib n events)"
proof (rule tameI)
  fix s :: "'b peer \<times> 'a"
  have "work (rtc (fst s)) < n" using assms(2,3) by (auto simp: drains_def intro: less_le_trans)
  then show "wp (drain_output sys lib n events) (\<lambda>r s'. r \<noteq> Hang \<and> clk (snd s) \<le> clk (snd s')) s"
    using assms(1,2) by (intro drain_output_wp)
qed

lemma tame_pump_list:
  "os_ok clk sys \<Longrightarrow> tame (peer_clock clk) (pump_list sys lib socks got)"
proof (induction socks arbitrary: got)
  case (Cons sk socks)
  note os = os_okD [OF Cons.prems]
  show ?case
    unfolding pump_list.simps
    by (intro tame_intros os) (auto split: prod.splits intro!: tame_intros os Cons)
qed (simp add: tame_intros)

lemma tame_pump [tame_intros]: "os_ok clk sys \<Longrightarrow> tame (peer_clock clk) (pump_sockets sys lib)"
  unfolding pump_sockets_def by (intro tame_intros tame_pump_list)

lemma poll_loop_returns:
  fixes s :: "'rtc peer \<times> 'w"
  assumes "os_ok clk sys" "drains lib work k" "k \<le> fl" "0 < n" "end_at < clk (snd s) + n"
  shows "tame_at (peer_clock clk) (poll_loop sys lib fl n end_at) s"
  using assms(4,5)
proof (induction n arbitrary: s)
  case (Suc n)
  note os = os_okD [OF assms(1)]
  have again: "tame_at (peer_clock clk) (poll_loop sys lib fl n end_at) u"
    if "clk (snd s) < clk (snd u)" "clk (snd s) < end_at" for u
    using that Suc.prems by (intro Suc.IH) linarith+
  have pump: "tame_at (peer_clock clk) (bnd (pump_sockets sys lib) (\<lambda>got_input.
         bnd (on_snd (now sys)) (\<lambda>t2.
         bnd (rtc_call (rtc_timeout lib t2)) (\<lambda>_.
         if got_input then poll_loop sys lib fl n end_at
         else
           bnd (on_snd (ext_total (os_sleep sys (millis 1)))) (\<lambda>_.
           poll_loop sys lib fl n end_at))))) u"
    if "clk (snd s) < clk (snd u)" "clk (snd s) < end_at" for u
    using that
    by (intro tame_at_bnd tame_at_now [OF os(1)] tame_at [OF tame_pump [OF assms(1)]]
        tame_at [OF tame_rtc_call])
      (auto intro!: tame_at_bnd tame_at [OF tame_on_snd] tame_ext_total os again elim: order_less_le_trans)
  show ?case
    unfolding poll_loop.simps
  proof (rule tame_at_bnd [OF tame_at [OF tame_drain [OF assms(1-3)]]])
    fix events and u :: "'rtc peer \<times> 'w"
    assume "clk (snd s) \<le> clk (snd u)"
    then show "tame_at (peer_clock clk) (if events \<noteq> [] then ret events
     else
       bnd (on_snd (now sys)) (\<lambda>t.
       if end_at \<le> t then ret events
       else
         bnd (pump_sockets sys lib) (\<lambda>got_input.
         bnd (on_snd (now sys)) (\<lambda>t2.
         bnd (rtc_call (rtc_timeout lib t2)) (\<lambda>_.
         if got_input then poll_loop sys lib fl n end_at
         else
           bnd (on_snd (ext_total (os_sleep sys (millis 1)))) (\<lambda>_.
           poll_loop sys lib fl n end_at)))))) u"
      by (auto intro!: tame_at [OF tame_ret] tame_at_now [OF os(1)] pump)
  qed
qed simp

lemma tame_poll [tame_intros]:
  assumes "os_ok clk sys" "drains lib work k" "k \<le> fl" "d < fl"
  shows "tame (peer_clock clk) (peer_poll sys lib fl d)"
proof (rule tame_at_all)
  fix s :: "'b peer \<times> 'a"
  show "tame_at (peer_clock clk) (peer_poll sys lib fl d) s"
    unfolding peer_poll_def
    by (rule tame_at_now [OF os_okD(1) [OF assms(1)]], rule poll_loop_returns [OF assms(1-3)])
      (use assms(4) in auto)
qed

section \<open>What a poll reports\<close>

text \<open>An empty report only at the end of the wait.\<close>

lemma poll_loop_empty:
  assumes "ticking clk sys"
  shows "wp (poll_loop sys lib fl n end_at) (\<lambda>r s'. r = Ok [] \<longrightarrow> end_at < clk (snd s')) s"
proof (induction n arbitrary: s)
  case (Suc n)
  have t: "t \<ge> end_at \<Longrightarrow> end_at < clk w'" if "os_now sys w = (t, w')" for t w w'
    using tickingD [OF assms that] by auto
  have again: "wp (if got then poll_loop sys lib fl n end_at
      else bnd (on_snd (ext_total (os_sleep sys (millis 1)))) (\<lambda>_. poll_loop sys lib fl n end_at))
      (\<lambda>r s'. r = Ok [] \<longrightarrow> end_at < clk (snd s')) u" for got u
    by (auto intro: Suc.IH wp_bnd_any)
  have rest: "wp (bnd (pump_sockets sys lib) (\<lambda>got_input.
         bnd (on_snd (now sys)) (\<lambda>t2.
         bnd (rtc_call (rtc_timeout lib t2)) (\<lambda>_.
         if got_input then poll_loop sys lib fl n end_at
         else bnd (on_snd (ext_total (os_sleep sys (millis 1)))) (\<lambda>_. poll_loop sys lib fl n end_at)))))
      (\<lambda>r s'. r = Ok [] \<longrightarrow> end_at < clk (snd s')) u" for u
    by (intro wp_bnd_any again) simp_all
  show ?case
    unfolding poll_loop.simps
  proof (rule wp_bnd_any)
    fix events and u :: "'b peer \<times> 'a"
    show "wp (if events \<noteq> [] then ret events
     else
       bnd (on_snd (now sys)) (\<lambda>t.
       if end_at \<le> t then ret events
       else
         bnd (pump_sockets sys lib) (\<lambda>got_input.
         bnd (on_snd (now sys)) (\<lambda>t2.
         bnd (rtc_call (rtc_timeout lib t2)) (\<lambda>_.
         if got_input then poll_loop sys lib fl n end_at
         else bnd (on_snd (ext_total (os_sleep sys (millis 1)))) (\<lambda>_. poll_loop sys lib fl n end_at))))))
      (\<lambda>r s'. r = Ok [] \<longrightarrow> end_at < clk (snd s')) u"
      by (auto simp: wp_on_snd wp_now wp_ret wp_bnd [of "on_snd (now sys)"] rest split: prod.splits dest: t)
  qed simp_all
qed (simp add: wp_rules)

text \<open>The control channel is recorded only together with the event that reports it.\<close>

definition open_reported :: "peer_event list \<Rightarrow> 'rtc peer \<Rightarrow> bool" where
  "open_reported evs p \<longleftrightarrow> (control_id p \<noteq> None \<longrightarrow> PChannelOpen \<in> set evs)"

lemma open_reported_rtc [simp]: "open_reported evs (p\<lparr>rtc := r\<rparr>) = open_reported evs p"
  by (simp add: open_reported_def)

lemma drain_open_reported:
  "open_reported evs (fst s) \<Longrightarrow>
   wp (drain_output sys lib n evs) (\<lambda>r s'. \<forall>out. r = Ok out \<longrightarrow> open_reported out (fst s')) s"
proof (induction n arbitrary: s evs)
  case (Suc n)
  have ev: "open_reported (case e of None \<Rightarrow> evs | Some x \<Rightarrow> evs @ [x]) p"
    if "map_event x (fst s\<lparr>rtc := r\<rparr>) = (e, p)" for x r e p
    using Suc.prems that
    by (auto simp: open_reported_def map_event_def split: rtc_event.splits if_splits)
  show ?case
  proof (cases "rtc_poll_output lib (rtc (fst s))")
    case (Pair v r)
    show ?thesis
    proof (cases v)
      case (Inr out)
      then show ?thesis
      proof (cases out)
        case (OEvent x)
        obtain e p where mp: "map_event x (fst s\<lparr>rtc := r\<rparr>) = (e, p)"
          by (cases "map_event x (fst s\<lparr>rtc := r\<rparr>)")
        show ?thesis
          using Pair Inr OEvent mp Suc.IH [where s = "(p, snd s)", OF _, simplified, OF ev [OF mp]]
          by (simp add: wp_rules)
      qed (use Pair Inr Suc in \<open>auto simp: wp_rtc_call wp_bnd wp_gets wp_ret split: option.splits
            intro!: wp_ignore_ext\<close>)
    qed (use Pair in \<open>simp add: wp_rules\<close>)
  qed
qed (simp add: wp_rules)

lemma preserves_rtc_call [preserves_intros]:
  "preserves (\<lambda>s. control_id (fst s) = c) (rtc_call op)"
  by (rule preservesI) (auto simp: wp_rtc_call split: prod.splits sum.splits)

lemma preserves_pump_list:
  "preserves (\<lambda>s. control_id (fst s) = c) (pump_list sys lib socks got)"
proof (induction socks arbitrary: got)
  case (Cons sk socks)
  then show ?case
    unfolding pump_list.simps
    by (intro preserves_intros preserves_on_snd [where I = "\<lambda>p. control_id p = c"])
      (auto split: prod.splits intro!: preserves_intros preserves_on_snd [where I = "\<lambda>p. control_id p = c"])
qed (simp add: preserves_intros)

lemma poll_loop_open_reported:
  fixes s :: "'r peer \<times> 'w"
  assumes "control_id (fst s) = None"
  shows "wp (poll_loop sys lib fl n end_at) (\<lambda>r s'. \<forall>evs. r = Ok evs \<longrightarrow> open_reported evs (fst s')) s"
  using assms
proof (induction n arbitrary: s)
  case (Suc n)
  let ?Q = "\<lambda>r s'. \<forall>evs. r = Ok evs \<longrightarrow> open_reported evs (fst s')"
  have rest: "wp (bnd (on_snd (now sys)) (\<lambda>t2.
         bnd (rtc_call (rtc_timeout lib t2)) (\<lambda>_.
         if got then poll_loop sys lib fl n end_at
         else bnd (on_snd (ext_total (os_sleep sys (millis 1)))) (\<lambda>_. poll_loop sys lib fl n end_at))))
      ?Q u" if "control_id (fst u) = None" for got and u :: "'r peer \<times> 'w"
    using that by (auto simp: wp_rules split: prod.splits sum.splits intro!: Suc.IH)
  have pump: "wp (bnd (pump_sockets sys lib) (\<lambda>got_input.
         bnd (on_snd (now sys)) (\<lambda>t2.
         bnd (rtc_call (rtc_timeout lib t2)) (\<lambda>_.
         if got_input then poll_loop sys lib fl n end_at
         else bnd (on_snd (ext_total (os_sleep sys (millis 1)))) (\<lambda>_. poll_loop sys lib fl n end_at)))))
      ?Q u" if "control_id (fst u) = None" for u :: "'r peer \<times> 'w"
  proof -
    have "wp (pump_sockets sys lib) (\<lambda>r s'. control_id (fst s') = None) u"
      using that by (auto simp: pump_sockets_def wp_bnd wp_gets
          intro: preserves_wp [OF preserves_pump_list])
    then show ?thesis
      unfolding wp_bnd [of "pump_sockets sys lib"]
    proof (rule wp_mono)
      fix r :: "(transport_error, bool) res" and u' :: "'r peer \<times> 'w"
      assume "control_id (fst u') = None"
      note rest = rest [OF this]
      show "after (\<lambda>got_input. wp (bnd (on_snd (now sys)) (\<lambda>t2.
         bnd (rtc_call (rtc_timeout lib t2)) (\<lambda>_.
         if got_input then poll_loop sys lib fl n end_at
         else bnd (on_snd (ext_total (os_sleep sys (millis 1)))) (\<lambda>_. poll_loop sys lib fl n end_at)))) ?Q)
         (\<lambda>x. ?Q (Err x)) ?Q r u'"
        using rest by (cases r) (simp_all only: after_simps res.distinct simp_thms)
    qed
  qed
  have empty: "control_id p = None" if "open_reported [] p" for p :: "'r peer"
    using that by (cases "control_id p") (auto simp: open_reported_def)
  show ?case
    unfolding poll_loop.simps wp_bnd [of "drain_output sys lib fl []"]
    by (rule wp_mono [OF drain_open_reported])
      (use Suc.prems in \<open>auto simp: open_reported_def [of _ "fst s"] after_def wp_if wp_ret
        wp_bnd [of "on_snd (now sys)"] wp_on_snd wp_now dest!: empty intro!: pump
        split: res.splits prod.splits\<close>)
qed (simp add: wp_rules)

lemma add_ips_sockets:
  "distinct (map fst (sockets p)) \<Longrightarrow> control_id p = None \<Longrightarrow>
   wp (add_ips sys lib ips p)
     (\<lambda>r w'. \<forall>q. r = Ok q \<longrightarrow> distinct (map fst (sockets q)) \<and> control_id q = None \<and>
        length (sockets q) \<le> length (sockets p) + length ips \<and>
        (sockets p \<noteq> [] \<or> ips \<noteq> [] \<longrightarrow> sockets q \<noteq> [])) w"
proof (induction ips arbitrary: p w)
  case (Cons ip ips)
  have ins: "distinct (map fst (insert_socket a h (sockets p)))"
    "length (insert_socket a h (sockets p)) \<le> Suc (length (sockets p))"
    "insert_socket a h (sockets p) \<noteq> []" for a h
    using Cons.prems(1) by (auto simp: insert_socket_def distinct_map_filter case_prod_unfold)
  have step: "wp (add_ips sys lib ips (p\<lparr>rtc := r, sockets := insert_socket a h (sockets p)\<rparr>))
     (\<lambda>x w'. \<forall>q. x = Ok q \<longrightarrow> distinct (map fst (sockets q)) \<and> control_id q = None \<and>
        length (sockets q) \<le> length (sockets p) + length (ip # ips) \<and> sockets q \<noteq> []) w'" for r a h w'
    by (rule wp_mono [OF Cons.IH]) (use ins [of a h] Cons.prems in \<open>auto intro: order_trans\<close>)
  show ?case
    unfolding add_ips.simps
    by (intro wp_bnd_any) (use step in simp_all)
qed (simp add: wp_ret)

text \<open>A sample engine, holding at most one output.\<close>

definition sample_rtc :: "(rtc_output option, unit) rtc_lib" where
  "sample_rtc =
     \<lparr>rtc_build = (\<lambda>t. None), rtc_candidate = (\<lambda>a. Inr []), rtc_add_candidate = (\<lambda>c r. r),
      rtc_poll_output = (\<lambda>r. case r of None \<Rightarrow> (Inr (OTimeout 0), None) | Some x \<Rightarrow> (Inr x, None)),
      rtc_timeout = (\<lambda>t r. (Inr (), r)), rtc_datagram_ok = (\<lambda>b. True),
      rtc_receive = (\<lambda>t a b m r. (Inr (), r)), rtc_offer = (\<lambda>l r. (Some (l, ()), r)),
      sdp_offer = Inr, rtc_accept_offer = (\<lambda>sdp r. (Inr [97], r)), sdp_answer = Inr,
      rtc_accept_answer = (\<lambda>p a r. (Inr (), r)), rtc_has_channel = (\<lambda>i r. True),
      rtc_write = (\<lambda>i d r. (Inr True, r)), rtc_local_fp = (\<lambda>r. [1]), rtc_remote_fp = (\<lambda>r. Some [2]),
      rtc_close = (\<lambda>r. (Inr (), r))\<rparr>"

lemma sample_rtc_drains: "drains sample_rtc (\<lambda>r. case r of None \<Rightarrow> 0 | Some _ \<Rightarrow> 1) 2"
  by (auto simp: drains_def sample_rtc_def split: option.splits)

lemma sample_os_ok: "os_ok (\<lambda>w. w) sample_os"
  by (simp add: os_ok_def sample_os_ticking) (simp add: keeps_def sample_os_def)

section \<open>Properties\<close>

text \<open>C35: Polling returns, and not early: with a clock that advances and an engine that ends its
  outputs with a \<open>Timeout\<close>, a poll shorter than the fuel always returns, and it returns without an
  event only when its wait is over.\<close>

theorem peer_poll_returns:
  assumes "os_ok clk sys" and "drains lib work k" and "k \<le> fl" and "max_wait < fl"
    and "peer_poll sys lib fl max_wait s = (r, s')"
  shows "r \<noteq> Hang \<and> (r = Ok [] \<longrightarrow> clk (snd s) + max_wait < clk (snd s'))"
proof -
  note os = os_okD(1) [OF assms(1)]
  have "tame_at (peer_clock clk) (peer_poll sys lib fl max_wait) s"
    by (rule tame_at [OF tame_poll [OF assms(1-4)]])
  from tame_at_no_hang [OF this] assms(5) have "r \<noteq> Hang" by simp
  moreover have "wp (peer_poll sys lib fl max_wait)
      (\<lambda>r s'. r = Ok [] \<longrightarrow> clk (snd s) + max_wait < clk (snd s')) s"
  proof (cases "os_now sys (snd s)")
    case (Pair t w)
    with tickingD [OF os Pair] poll_loop_empty [OF os, of lib fl fl "t + max_wait" "(fst s, w)"]
    show ?thesis by (simp add: peer_poll_def wp_rules)
  qed
  ultimately show ?thesis using wpD assms(5) by fast
qed

theorem peer_poll_returns_witness:
  "\<exists>r s'. peer_poll sample_os sample_rtc 5 3 (\<lparr>rtc = Some (OEvent (EvOther 1)), sockets = [], control_id = None\<rparr>, 0)
      = (r, s') \<and> r \<noteq> Hang"
proof -
  obtain r s' where run: "peer_poll sample_os sample_rtc 5 3
      (\<lparr>rtc = Some (OEvent (EvOther 1)), sockets = [], control_id = None\<rparr>, 0) = (r, s')"
    by (metis prod.exhaust)
  from peer_poll_returns [OF sample_os_ok sample_rtc_drains _ _ run] run show ?thesis by simp
qed

text \<open>The channel is reported before it can be used: a poll that starts without a control
  channel and ends with one has reported \<open>ChannelOpen\<close>, and until then every \<open>send\<close> is
  \<open>NoChannel\<close> and changes nothing.\<close>

theorem peer_channel_reported:
  assumes "control_id (fst s) = None" and "peer_poll sys lib fl max_wait s = (Ok evs, s')"
  shows "(control_id (fst s') \<noteq> None \<longrightarrow> PChannelOpen \<in> set evs) \<and>
    peer_send lib data s = (Err NoChannel, s)"
proof -
  have "wp (peer_poll sys lib fl max_wait) (\<lambda>r s'. \<forall>evs. r = Ok evs \<longrightarrow> open_reported evs (fst s')) s"
    using assms(1) by (auto simp: peer_poll_def wp_rules split: prod.splits
        intro: poll_loop_open_reported)
  from wpD [OF this assms(2)] have "open_reported evs (fst s')" by simp
  then show ?thesis
    using assms(1) by (simp add: open_reported_def peer_send_def run_simps)
qed

theorem peer_channel_reported_witness:
  "\<exists>s'. peer_poll sample_os sample_rtc 5 3
      (\<lparr>rtc = Some (OEvent (EvChannelOpen 7 CONTROL_LABEL)), sockets = [], control_id = None\<rparr>, 0) =
      (Ok [PChannelOpen], s') \<and> (control_id (fst s') \<noteq> None \<longrightarrow> PChannelOpen \<in> set [PChannelOpen])"
proof -
  let ?s = "(\<lparr>rtc = Some (OEvent (EvChannelOpen 7 CONTROL_LABEL)), sockets = [], control_id = None\<rparr>, 0)
    :: rtc_output option peer \<times> nat"
  have "\<exists>s'. peer_poll sample_os sample_rtc 5 3 ?s = (Ok [PChannelOpen], s')"
    by (simp add: peer_poll_def numeral_eq_Suc run_simps now_def ext_total_def on_snd_def
        sample_os_def sample_rtc_def rtc_call_def take_event_def map_event_def)
  then obtain s' where run: "peer_poll sample_os sample_rtc 5 3 ?s = (Ok [PChannelOpen], s')" ..
  have "control_id (fst ?s) = None" by simp
  from peer_channel_reported [OF this run] run show ?thesis by blast
qed

text \<open>A new peer: without an address to bind, \<open>Peer::new\<close> is an error and makes no outside call;
  when it succeeds it has at least one socket, at most one per address, no two under the same local
  address, and no control channel yet.\<close>

theorem peer_new_sockets:
  "(case peer_new sys lib ips w of
      (Ok p, w') \<Rightarrow> ips \<noteq> [] \<and> distinct (map fst (sockets p)) \<and> sockets p \<noteq> [] \<and>
        length (sockets p) \<le> length ips \<and> control_id p = None
    | (Err e, w') \<Rightarrow> (if ips = [] then w' = w else True)
    | _ \<Rightarrow> ips \<noteq> [])"
proof -
  have "wp (peer_new sys lib ips)
     (\<lambda>r w'. \<forall>q. r = Ok q \<longrightarrow> ips \<noteq> [] \<and> distinct (map fst (sockets q)) \<and> control_id q = None \<and>
        length (sockets q) \<le> length ips \<and> sockets q \<noteq> []) w"
    unfolding peer_new_def
    by (auto simp: wp_rules split: prod.splits intro!: wp_mono [OF add_ips_sockets])
  then show ?thesis
    by (cases "peer_new sys lib ips w"; cases "fst (peer_new sys lib ips w)")
      (auto simp: wp_def peer_new_def fail_def)
qed

text \<open>Which channel an event speaks for: opening and closing are reported for the control channel
  only, while data is reported whatever channel it came on.\<close>

theorem map_event_channels:
  "fst (map_event (EvChannelOpen i label) p) = (if label = lit ''control'' then Some PChannelOpen else None) \<and>
   fst (map_event (EvChannelClose i) p) = (if control_id p = Some i then Some PClosed else None) \<and>
   fst (map_event (EvChannelData i d) p) = Some (PData d) \<and>
   (control_id (snd (map_event ev p)) = control_id p \<or>
     (\<exists>j. ev = EvChannelOpen j (lit ''control'') \<and> control_id (snd (map_event ev p)) = Some j))"
  by (auto simp: map_event_def CONTROL_LABEL_def split: rtc_event.splits if_splits)

end
