(* ===== verification/Channel.thy ===== *)
theory Channel
  imports Peer
begin

text \<open>
  \<open>crates/transport/src/channel.rs\<close>: the control data channel both programs use, a \<open>Peer\<close> and the
  queue of data that arrived while it was waiting for something else.  The queue is an instance of
  the contract \<open>fifo\<close>.  A program of this theory runs on the channel and the world.
\<close>

section \<open>The channel\<close>

datatype opened = Ready | OClosed | OTimedOut

datatype next_msg = NMsg control | NMalformed | NClosed | NTimedOut

record 'rtc channel =
  ch_peer :: "'rtc peer"
  pending :: "bytes list"
  remote_closed :: bool
  local_closed :: bool

definition channel_new :: "'rtc peer \<Rightarrow> 'rtc channel" where
  "channel_new p = \<lparr>ch_peer = p, pending = [], remote_closed = False, local_closed = False\<rparr>"

text \<open>\<open>ch.peer()\<close>: a program of the peer inside the channel.\<close>

definition on_peer :: "('rtc peer \<times> 'w, 'x, 'a) prog \<Rightarrow> ('rtc channel \<times> 'w, 'x, 'a) prog" where
  "on_peer m s =
     (case m (ch_peer (fst s), snd s) of (r, p, w) \<Rightarrow> (r, (fst s)\<lparr>ch_peer := p\<rparr>, w))"

text \<open>\<open>absorb\<close>: one event, then all of them; the flag is the result \<open>opened\<close>.\<close>

fun absorb_event :: "peer_event \<Rightarrow> bool \<times> 'rtc channel \<Rightarrow> bool \<times> 'rtc channel" where
  "absorb_event PChannelOpen (opened, c) = (True, c)"
| "absorb_event (PData d) (opened, c) = (opened, c\<lparr>pending := pending c @ [d]\<rparr>)"
| "absorb_event PClosed (opened, c) = (opened, c\<lparr>remote_closed := True\<rparr>)"
| "absorb_event PConnected (opened, c) = (opened, c)"

definition absorb :: "peer_event list \<Rightarrow> 'rtc channel \<Rightarrow> bool \<times> 'rtc channel" where
  "absorb events c = fold absorb_event events (False, c)"

definition ch_absorb :: "peer_event list \<Rightarrow> ('rtc channel \<times> 'w, 'x, bool) prog" where
  "ch_absorb events s = (case absorb events (fst s) of (opened, c) \<Rightarrow> (Ok opened, c, snd s))"

text \<open>\<open>VecDeque::pop_front\<close>.\<close>

definition pop_pending :: "'rtc channel \<Rightarrow> (bytes \<times> 'rtc channel) option" where
  "pop_pending c =
     (case pending c of [] \<Rightarrow> None | d # ds \<Rightarrow> Some (d, c\<lparr>pending := ds\<rparr>))"

definition ch_pop :: "('rtc channel \<times> 'w, 'x, bytes option) prog" where
  "ch_pop s =
     (case pop_pending (fst s) of
        None \<Rightarrow> (Ok None, s)
      | Some (d, c) \<Rightarrow> (Ok (Some d), c, snd s))"

primrec channel_wait_open ::
  "'w os \<Rightarrow> ('rtc, 'p) rtc_lib \<Rightarrow> nat \<Rightarrow> nat \<Rightarrow> instant \<Rightarrow>
   ('rtc channel \<times> 'w, transport_error, opened) prog"
where
  "channel_wait_open sys lib fl 0 deadline = hang"
| "channel_wait_open sys lib fl (Suc n) deadline =
     bnd (gets (\<lambda>s. remote_closed (fst s))) (\<lambda>closed.
     if closed then ret OClosed
     else
       bnd (on_snd (now sys)) (\<lambda>t.
       if deadline \<le> t then ret OTimedOut
       else
         bnd (on_peer (peer_poll sys lib fl (deadline - t))) (\<lambda>events.
         bnd (ch_absorb events) (\<lambda>opened.
         if opened then ret Ready else channel_wait_open sys lib fl n deadline))))"

primrec channel_next ::
  "'w os \<Rightarrow> ('rtc, 'p) rtc_lib \<Rightarrow> wire \<Rightarrow> nat \<Rightarrow> nat \<Rightarrow> instant \<Rightarrow>
   ('rtc channel \<times> 'w, transport_error, next_msg) prog"
where
  "channel_next sys lib wr fl 0 deadline = hang"
| "channel_next sys lib wr fl (Suc n) deadline =
     bnd ch_pop (\<lambda>front.
     case front of
       Some d \<Rightarrow>
         ret (case control_decode wr d of Inr msg \<Rightarrow> NMsg msg | Inl _ \<Rightarrow> NMalformed)
     | None \<Rightarrow>
         bnd (gets (\<lambda>s. remote_closed (fst s))) (\<lambda>closed.
         if closed then ret NClosed
         else
           bnd (on_snd (now sys)) (\<lambda>t.
           if deadline \<le> t then ret NTimedOut
           else
             bnd (on_peer (peer_poll sys lib fl (deadline - t))) (\<lambda>events.
             bnd (ch_absorb events) (\<lambda>_. channel_next sys lib wr fl n deadline)))))"

definition channel_send ::
  "('rtc, 'p) rtc_lib \<Rightarrow> wire \<Rightarrow> control \<Rightarrow> ('rtc channel \<times> 'w, transport_error, unit) prog"
where
  "channel_send lib wr msg = bnd (control_encode wr msg) (\<lambda>bs. on_peer (peer_send lib bs))"

definition channel_close ::
  "'w os \<Rightarrow> ('rtc, 'p) rtc_lib \<Rightarrow> nat \<Rightarrow> ('rtc channel \<times> 'w, 'x, unit) prog"
where
  "channel_close sys lib fl =
     bnd (gets (\<lambda>s. local_closed (fst s))) (\<lambda>closed.
     if closed then ret ()
     else
       bnd (modify (\<lambda>(c, w). (c\<lparr>local_closed := True\<rparr>, w))) (\<lambda>_.
       bnd (on_peer (peer_close lib)) (\<lambda>_.
       ignore (on_peer (peer_poll sys lib fl 0)))))"

text \<open>\<open>impl Drop for Channel\<close>.\<close>

definition channel_drop ::
  "'w os \<Rightarrow> ('rtc, 'p) rtc_lib \<Rightarrow> nat \<Rightarrow> ('rtc channel \<times> 'w, 'x, unit) prog"
where
  "channel_drop sys lib fl = channel_close sys lib fl"

section \<open>The contract of a queue\<close>

datatype 'e fifo_op = Put 'e | Get

text \<open>A run of insertions and removals: what came out, and the final state.\<close>

primrec fifo_run ::
  "('e \<Rightarrow> 's \<Rightarrow> 's) \<Rightarrow> ('s \<Rightarrow> ('x \<times> 's) option) \<Rightarrow> 'e fifo_op list \<Rightarrow> 's \<Rightarrow> 'x list \<times> 's"
where
  "fifo_run put get [] s = ([], s)"
| "fifo_run put get (x # xs) s =
     (case x of
        Put e \<Rightarrow> fifo_run put get xs (put e s)
      | Get \<Rightarrow>
          (case get s of
             None \<Rightarrow> fifo_run put get xs s
           | Some (y, s') \<Rightarrow> (case fifo_run put get xs s' of (ys, s'') \<Rightarrow> (y # ys, s''))))"

primrec fifo_inputs :: "('e \<Rightarrow> 'x list) \<Rightarrow> 'e fifo_op list \<Rightarrow> 'x list" where
  "fifo_inputs load [] = []"
| "fifo_inputs load (x # xs) = (case x of Put e \<Rightarrow> load e | Get \<Rightarrow> []) @ fifo_inputs load xs"

locale fifo =
  fixes put :: "'e \<Rightarrow> 's \<Rightarrow> 's" and get :: "'s \<Rightarrow> ('x \<times> 's) option"
    and content :: "'s \<Rightarrow> 'x list" and load :: "'e \<Rightarrow> 'x list"
  assumes content_put: "content (put e s) = content s @ load e"
    and get_empty: "content s = [] \<Longrightarrow> get s = None"
    and get_front: "content s = x # xs \<Longrightarrow> \<exists>s'. get s = Some (x, s') \<and> content s' = xs"
begin

lemma fifo_order:
  "fifo_run put get ops s = (outs, s') \<Longrightarrow> outs @ content s' = content s @ fifo_inputs load ops"
proof (induction ops arbitrary: s outs)
  case (Cons op ops)
  show ?case
  proof (cases op)
    case (Put e)
    with Cons.prems Cons.IH [of "put e s" outs] show ?thesis by (simp add: content_put)
  next
    case Get
    show ?thesis
    proof (cases "content s")
      case Nil
      with Get Cons.prems Cons.IH [of s outs] show ?thesis by (simp add: get_empty)
    next
      case (Cons x xs)
      from get_front [OF this] obtain t where t: "get s = Some (x, t)" "content t = xs" by blast
      with Get Cons.prems obtain ys where ys: "fifo_run put get ops t = (ys, s')" "outs = x # ys"
        by (auto split: prod.splits)
      from Cons.IH [OF ys(1)] ys(2) t(2) Cons Get show ?thesis by simp
    qed
  qed
qed simp

end

text \<open>The data of a list of events, and what \<open>absorb\<close> makes of them.\<close>

fun event_data :: "peer_event list \<Rightarrow> bytes list" where
  "event_data [] = []"
| "event_data (PData d # es) = d # event_data es"
| "event_data (_ # es) = event_data es"

lemma fold_absorb:
  "fold absorb_event es (b, c) =
     (b \<or> PChannelOpen \<in> set es,
      c\<lparr>pending := pending c @ event_data es, remote_closed := remote_closed c \<or> PClosed \<in> set es\<rparr>)"
proof (induction es arbitrary: b c)
  case (Cons e es)
  then show ?case by (cases e) auto
qed simp

lemma absorb_eq:
  "absorb es c =
     (PChannelOpen \<in> set es,
      c\<lparr>pending := pending c @ event_data es, remote_closed := remote_closed c \<or> PClosed \<in> set es\<rparr>)"
  by (simp add: absorb_def fold_absorb)

interpretation chq: fifo "\<lambda>es c. snd (absorb es c)" pop_pending "pending :: 'rtc channel \<Rightarrow> bytes list" event_data
  by unfold_locales (auto simp: absorb_eq pop_pending_def)

section \<open>Lemmas\<close>

lemma wp_on_peer [wp_rules]:
  "wp (on_peer m) Q s =
     wp m (\<lambda>r t. Q r ((fst s)\<lparr>ch_peer := fst t\<rparr>, snd t)) (ch_peer (fst s), snd s)"
  by (auto simp: wp_def on_peer_def split: prod.splits)

lemma wp_ch_absorb [wp_rules]:
  "wp (ch_absorb es) Q s =
     Q (Ok (PChannelOpen \<in> set es))
       ((fst s)\<lparr>pending := pending (fst s) @ event_data es,
          remote_closed := remote_closed (fst s) \<or> PClosed \<in> set es\<rparr>, snd s)"
  by (simp add: wp_def ch_absorb_def absorb_eq)

lemma wp_ch_pop [wp_rules]:
  "wp ch_pop Q s =
     (case pending (fst s) of
        [] \<Rightarrow> Q (Ok None) s
      | d # ds \<Rightarrow> Q (Ok (Some d)) ((fst s)\<lparr>pending := ds\<rparr>, snd s))"
  by (simp add: wp_def ch_pop_def pop_pending_def split: list.splits)

abbreviation chan_clock :: "('w \<Rightarrow> nat) \<Rightarrow> 'rtc channel \<times> 'w \<Rightarrow> nat" where
  "chan_clock clk \<equiv> \<lambda>s. clk (snd s)"

lemma tame_on_peer [tame_intros]: "tame (peer_clock clk) m \<Longrightarrow> tame (chan_clock clk) (on_peer m)"
  by (auto simp: tame_def wp_on_peer elim!: wp_mono dest!: spec)

lemma tame_ch_absorb [tame_intros]: "tame (chan_clock clk) (ch_absorb es)"
  by (simp add: tame_def wp_ch_absorb)

lemma tame_ch_pop [tame_intros]: "tame (chan_clock clk) ch_pop"
  by (simp add: tame_def wp_ch_pop split: list.splits)

lemma channel_wait_open_returns:
  fixes s :: "'rtc channel \<times> 'w"
  assumes "os_ok clk sys" "drains lib work k" "k \<le> fl" "0 < n" "n \<le> fl" "deadline < clk (snd s) + n"
  shows "tame_at (chan_clock clk) (channel_wait_open sys lib fl n deadline) s"
  using assms(4-6)
proof (induction n arbitrary: s)
  case (Suc n)
  note os = os_okD(1) [OF assms(1)]
  have again: "tame_at (chan_clock clk) (channel_wait_open sys lib fl n deadline) u"
    if "clk (snd s) < clk (snd u)" "clk (snd s) < deadline" for u
    using that Suc.prems by (intro Suc.IH) linarith+
  have poll: "tame (chan_clock clk) (on_peer (peer_poll sys lib fl (deadline - clk (snd s))))"
    if "clk (snd s) < deadline"
    by (intro tame_intros tame_poll [OF assms(1-3)]) (use that Suc.prems in linarith)
  show ?case
    unfolding channel_wait_open.simps
    by (intro tame_at_gets)
      (auto intro!: tame_at [OF tame_ret] tame_at_now [OF os] tame_at_bnd tame_at [OF poll]
        tame_at [OF tame_ch_absorb] again)
qed simp

lemma channel_next_returns:
  fixes s :: "'rtc channel \<times> 'w"
  assumes "os_ok clk sys" "drains lib work k" "k \<le> fl" "0 < n" "n \<le> fl" "deadline < clk (snd s) + n"
  shows "tame_at (chan_clock clk) (channel_next sys lib wr fl n deadline) s"
  using assms(4-6)
proof (induction n arbitrary: s)
  case (Suc n)
  note os = os_okD(1) [OF assms(1)]
  have wait: "tame_at (chan_clock clk)
     (bnd (gets (\<lambda>s. remote_closed (fst s))) (\<lambda>closed.
         if closed then ret NClosed
         else
           bnd (on_snd (now sys)) (\<lambda>t.
           if deadline \<le> t then ret NTimedOut
           else
             bnd (on_peer (peer_poll sys lib fl (deadline - t))) (\<lambda>events.
             bnd (ch_absorb events) (\<lambda>_. channel_next sys lib wr fl n deadline))))) v"
    if v: "clk (snd s) \<le> clk (snd v)" for v
  proof -
    have again: "tame_at (chan_clock clk) (channel_next sys lib wr fl n deadline) u"
      if "clk (snd v) < clk (snd u)" "clk (snd v) < deadline" for u
      using that v Suc.prems by (intro Suc.IH) linarith+
    have poll: "tame (chan_clock clk) (on_peer (peer_poll sys lib fl (deadline - clk (snd v))))"
      if "clk (snd v) < deadline"
      by (intro tame_intros tame_poll [OF assms(1-3)]) (use that v Suc.prems in linarith)
    show ?thesis
      by (intro tame_at_gets)
        (auto intro!: tame_at [OF tame_ret] tame_at_now [OF os] tame_at_bnd tame_at [OF poll]
          tame_at [OF tame_ch_absorb] again)
  qed
  show ?case
    unfolding channel_next.simps
    by (rule tame_at_bnd [OF tame_at [OF tame_ch_pop]])
      (auto split: option.splits intro!: tame_at [OF tame_ret] wait)
qed simp

text \<open>What the results of \<open>next\<close> mean.\<close>

definition next_meaning ::
  "('w \<Rightarrow> nat) \<Rightarrow> instant \<Rightarrow> (transport_error, next_msg) res \<Rightarrow> 'rtc channel \<times> 'w \<Rightarrow> bool"
where
  "next_meaning clk deadline r s \<longleftrightarrow>
     (r = Ok NClosed \<longrightarrow> pending (fst s) = [] \<and> remote_closed (fst s)) \<and>
     (r = Ok NTimedOut \<longrightarrow> pending (fst s) = [] \<and> \<not> remote_closed (fst s) \<and> deadline < clk (snd s))"

lemma channel_next_meaning:
  assumes "ticking clk sys"
  shows "wp (channel_next sys lib wr fl n deadline) (next_meaning clk deadline) s"
proof (induction n arbitrary: s)
  case (Suc n)
  have t: "deadline \<le> t \<Longrightarrow> deadline < clk w'" if "os_now sys w = (t, w')" for t w w'
    using tickingD [OF assms that] by auto
  have poll: "wp (bnd (on_peer (peer_poll sys lib fl d))
       (\<lambda>events. bnd (ch_absorb events) (\<lambda>_. channel_next sys lib wr fl n deadline)))
       (next_meaning clk deadline) u" for d u
    by (intro wp_bnd_any Suc.IH) (simp_all add: next_meaning_def)
  show ?case
    unfolding channel_next.simps wp_bnd [of ch_pop] wp_ch_pop
    by (auto simp: next_meaning_def [of _ _ "Ok _"] wp_ret wp_gets wp_bnd [of "gets _"]
        wp_bnd [of "on_snd (now sys)"] wp_on_snd wp_now poll dest: t
        split: list.splits sum.splits prod.splits)
qed (simp add: wp_rules next_meaning_def)

text \<open>The mark \<open>local_closed\<close> is set by \<open>close\<close> alone and never taken back.\<close>

lemma preserves_on_peer [preserves_intros]: "preserves (\<lambda>s. local_closed (fst s) = b) (on_peer m)"
  by (rule preservesI) (auto simp: wp_on_peer intro: wp_any)

lemma channel_close_again:
  "local_closed (fst s) \<Longrightarrow> channel_close sys lib fl s = (Ok (), s)"
  by (simp add: channel_close_def run_simps)

lemma channel_close_closed:
  fixes s :: "'rtc channel \<times> 'w" and lib :: "('rtc, 'p) rtc_lib"
  shows "wp (channel_close sys lib fl :: (_, 'x, unit) prog) (\<lambda>r s'. local_closed (fst s')) s"
proof -
  have "preserves (\<lambda>s. local_closed (fst s) = True)
      (bnd (on_peer (peer_close lib)) (\<lambda>_. ignore (on_peer (peer_poll sys lib fl 0)))
        :: ('rtc channel \<times> 'w, 'x, unit) prog)"
    by (intro preserves_intros)
  from preserves_wp [OF this, of "((fst s)\<lparr>local_closed := True\<rparr>, snd s)"]
  show ?thesis by (cases s) (simp add: channel_close_def wp_bnd wp_gets wp_modify wp_ret)
qed

section \<open>Properties\<close>


text \<open>What \<open>next\<close> reports: a message that is waiting is handed out at once, decoded, whatever the
  deadline and even after the peer has closed, and nothing else changes; \<open>Closed\<close> is reported only
  when the peer has closed and no data is left, \<open>TimedOut\<close> only when no data is left, the peer has
  not closed and the deadline has passed.\<close>

theorem channel_next_reports:
  assumes "ticking clk sys" and "channel_next sys lib wr fl (Suc n) deadline s = (r, s')"
  shows "(case pending (fst s) of
       d # ds \<Rightarrow>
         r = Ok (case control_decode wr d of Inr msg \<Rightarrow> NMsg msg | Inl _ \<Rightarrow> NMalformed) \<and>
         s' = ((fst s)\<lparr>pending := ds\<rparr>, snd s)
     | [] \<Rightarrow> True) \<and>
    (r = Ok NClosed \<longrightarrow> pending (fst s') = [] \<and> remote_closed (fst s')) \<and>
    (r = Ok NTimedOut \<longrightarrow>
       pending (fst s') = [] \<and> \<not> remote_closed (fst s') \<and> deadline < clk (snd s'))"
proof -
  have "next_meaning clk deadline r s'"
    using wpD [OF channel_next_meaning [OF assms(1)] assms(2)] .
  moreover have "case pending (fst s) of
       d # ds \<Rightarrow>
         r = Ok (case control_decode wr d of Inr msg \<Rightarrow> NMsg msg | Inl _ \<Rightarrow> NMalformed) \<and>
         s' = ((fst s)\<lparr>pending := ds\<rparr>, snd s)
     | [] \<Rightarrow> True"
    using assms(2) by (auto simp: ch_pop_def pop_pending_def run_simps split: list.splits)
  ultimately show ?thesis unfolding next_meaning_def by blast
qed

text \<open>A channel for the witnesses.\<close>

definition sample_channel :: "bytes list \<Rightarrow> rtc_output option channel \<times> nat" where
  "sample_channel ds =
     (\<lparr>ch_peer = \<lparr>rtc = None, sockets = [], control_id = Some 7\<rparr>, pending = ds,
       remote_closed = False, local_closed = False\<rparr>, 0)"

theorem channel_next_reports_witness:
  "\<forall>w. channel_next sample_os sample_rtc w 5 (Suc 4) 0 (sample_channel []) =
     (Ok NTimedOut, (fst (sample_channel []), 1)) \<and> (0 :: nat) < 1"
proof
  fix w :: wire
  have run: "channel_next sample_os sample_rtc w 5 (Suc 4) 0 (sample_channel []) =
     (Ok NTimedOut, (fst (sample_channel []), 1))"
    by (simp add: numeral_eq_Suc sample_channel_def sample_os_def run_simps now_def ext_total_def on_snd_def
        ch_pop_def pop_pending_def)
  from channel_next_reports [OF sample_os_ticking run] run
  show "channel_next sample_os sample_rtc w 5 (Suc 4) 0 (sample_channel []) =
     (Ok NTimedOut, (fst (sample_channel []), 1)) \<and> (0 :: nat) < 1" by simp
qed

text \<open>Waiting ends: with an advancing clock and an engine that ends its outputs, \<open>wait_open\<close> and
  \<open>next\<close> return after at most one round per unit of time up to the deadline, whatever the peer
  sends.\<close>

theorem channel_waits_return:
  assumes "os_ok clk sys" and "drains lib work k" and "k \<le> fl" and "0 < fl"
    and "deadline < clk (snd s) + fl"
  shows "fst (channel_next sys lib wr fl fl deadline s) \<noteq> Hang \<and>
    fst (channel_wait_open sys lib fl fl deadline s) \<noteq> Hang"
  using tame_at_no_hang [OF channel_next_returns [OF assms(1-4) order_refl assms(5)]]
    tame_at_no_hang [OF channel_wait_open_returns [OF assms(1-4) order_refl assms(5)]] by blast

theorem channel_waits_return_witness:
  "\<forall>w. fst (channel_next sample_os sample_rtc w 9 9 4 (sample_channel [])) \<noteq> Hang"
  using channel_waits_return [OF sample_os_ok sample_rtc_drains, of 9 4 "sample_channel []"]
  by (simp add: sample_channel_def)

text \<open>Closing once: however it ends, \<open>close\<close> leaves the channel marked as closed, and every later
  \<open>close\<close>, the one of \<open>Drop\<close> included, does nothing.\<close>

theorem channel_close_once:
  "(case (channel_close sys lib fl s :: ('x, unit) res \<times> _) of
     (r, s') \<Rightarrow> local_closed (fst s') \<and>
       (channel_close sys lib fl s' :: ('x, unit) res \<times> _) = (Ok (), s') \<and>
       (channel_drop sys lib fl s' :: ('x, unit) res \<times> _) = (Ok (), s'))"
proof -
  obtain r s' where run: "(channel_close sys lib fl s :: ('x, unit) res \<times> _) = (r, s')"
    by (metis prod.exhaust)
  have "local_closed (fst s')" using wpD [OF channel_close_closed run] .
  with run show ?thesis by (simp add: channel_drop_def channel_close_again)
qed

end
