(* ===== verification/Flow.thy ===== *)
theory Flow
  imports Channel Link Pake Identity
begin

text \<open>
  What the two connection flows (\<open>apps/host-agent/src/session.rs\<close> and
  \<open>crates/viewer-core/src/connect.rs\<close>) share: the libraries and link they run on, the state of a
  run with its history, and the ownership of a channel, which is dropped at the end of the scope
  that holds it.  The history is a ghost variable: the events a run has gone through, in order.
  \<open>'i\<close> and \<open>'o\<close> are the messages the link receives and sends.
\<close>

section \<open>Surroundings of a run\<close>

record ('i, 'o, 'w, 'rtc, 'p, 'k, 'st, 'out, 'sk, 'xk, 'rnd) libs =
  l_os :: "'w os"
  l_rtc :: "('rtc, 'p) rtc_lib"
  l_wire :: wire
  l_aead :: aead
  l_spake :: "('k, 'st, 'out) spake"
  l_id :: "('sk, 'xk, 'rnd) id_lib"
  l_rng :: "'w \<Rightarrow> bytes \<times> 'w" \<comment> \<open>\<open>rng()\<close>, the randomness of one PAKE start\<close>
  l_send :: "'o \<Rightarrow> ('w, link_error, unit) prog" \<comment> \<open>the \<open>Link\<close>, whose state is in the world\<close>
  l_recv :: "duration \<Rightarrow> ('w, link_error, 'i option) prog"
  l_drop :: "'w \<Rightarrow> unit \<times> 'w" \<comment> \<open>what dropping the link does\<close>
  l_fuel :: nat

datatype ('i, 'o) event =
    EvGot "'i option" \<comment> \<open>\<open>link.recv\<close> returned this\<close>
  | EvSent 'o
  | EvLinkError link_error
  | EvChecked instant "duration + unit" \<comment> \<open>the limiter was asked, when, and its answer\<close>
  | EvFailureRecorded instant bool
  | EvSuccessRecorded
  | EvNewCode
  | EvOpened opened
  | EvTold control \<comment> \<open>sent on the data channel\<close>
  | EvHeard next_msg
  | EvTransportError transport_error
  | EvAsked "bool option"
  | EvDropped \<comment> \<open>the channel was dropped, which closes the peer\<close>
  | EvLinkDropped

record ('i, 'o, 'w) run =
  world :: 'w
  history :: "('i, 'o) event list"

text \<open>Programs of the world inside a run, and a note in the history.\<close>

definition in_world :: "('w, 'x, 'a) prog \<Rightarrow> (('i, 'o, 'w, 'm) run_scheme, 'x, 'a) prog" where
  "in_world m s = (case m (world s) of (r, w) \<Rightarrow> (r, s\<lparr>world := w\<rparr>))"

definition record_event :: "('i, 'o) event \<Rightarrow> (('i, 'o, 'w, 'm) run_scheme, 'x, unit) prog" where
  "record_event e = modify (\<lambda>s. s\<lparr>history := history s @ [e]\<rparr>)"

text \<open>Record what a step brought: its value or its error.\<close>

definition noting ::
  "('a \<Rightarrow> ('i, 'o) event) \<Rightarrow> ('x \<Rightarrow> ('i, 'o) event) \<Rightarrow>
   (('i, 'o, 'w, 'm) run_scheme, 'x, 'a) prog \<Rightarrow> (('i, 'o, 'w, 'm) run_scheme, 'x, 'a) prog"
where
  "noting f g m =
     handle m
       (\<lambda>a. bnd (record_event (f a)) (\<lambda>_. ret a))
       (\<lambda>x. bnd (record_event (g x)) (\<lambda>_. fail x))"

definition link_send :: "('i, 'o, 'w, 'rtc, 'p, 'k, 'st, 'out, 'sk, 'xk, 'rnd) libs \<Rightarrow> 'o \<Rightarrow>
  (('i, 'o, 'w, 'm) run_scheme, link_error, unit) prog" where
  "link_send L msg = noting (\<lambda>_. EvSent msg) EvLinkError (in_world (l_send L msg))"

definition link_recv :: "('i, 'o, 'w, 'rtc, 'p, 'k, 'st, 'out, 'sk, 'xk, 'rnd) libs \<Rightarrow> duration \<Rightarrow>
  (('i, 'o, 'w, 'm) run_scheme, link_error, 'i option) prog" where
  "link_recv L timeout = noting EvGot EvLinkError (in_world (l_recv L timeout))"

definition drop_link :: "('i, 'o, 'w, 'rtc, 'p, 'k, 'st, 'out, 'sk, 'xk, 'rnd) libs \<Rightarrow>
  (('i, 'o, 'w, 'm) run_scheme, 'x, unit) prog" where
  "drop_link L = bnd (in_world (ext_total (l_drop L))) (\<lambda>_. record_event EvLinkDropped)"

text \<open>A scope that owns the link, which is dropped at its end whatever the outcome.\<close>

definition owning_link :: "('i, 'o, 'w, 'rtc, 'p, 'k, 'st, 'out, 'sk, 'xk, 'rnd) libs \<Rightarrow>
  (('i, 'o, 'w, 'm) run_scheme, 'x, 'a) prog \<Rightarrow> (('i, 'o, 'w, 'm) run_scheme, 'x, 'a) prog" where
  "owning_link L m =
     handle m (\<lambda>a. bnd (drop_link L) (\<lambda>_. ret a)) (\<lambda>x. bnd (drop_link L) (\<lambda>_. fail x))"

definition get_now :: "('i, 'o, 'w, 'rtc, 'p, 'k, 'st, 'out, 'sk, 'xk, 'rnd) libs \<Rightarrow>
  (('i, 'o, 'w, 'm) run_scheme, 'x, instant) prog" where
  "get_now L = in_world (now (l_os L))"

text \<open>A value with its own state, used up within one expression (\<open>sk.host_side()\<close>).\<close>

definition run_local :: "'t \<Rightarrow> ('t, 'x, 'a) prog \<Rightarrow> ('s, 'x, 'a) prog" where
  "run_local t m s = (fst (m t), s)"

text \<open>A step that has no error (\<open>SealedSender::seal\<close> returns or panics).\<close>

definition infallible :: "('s, 'y, 'a) prog \<Rightarrow> ('s, 'x, 'a) prog" where
  "infallible m = handle m ret (\<lambda>_. panic)"

section \<open>A channel in scope\<close>

text \<open>Inside the scope of a channel the state is the channel and the run.\<close>

definition on_chan ::
  "('rtc channel \<times> 'w, 'x, 'a) prog \<Rightarrow> ('rtc channel \<times> ('i, 'o, 'w, 'm) run_scheme, 'x, 'a) prog"
where
  "on_chan m s =
     (case m (fst s, world (snd s)) of (r, c, w) \<Rightarrow> (r, c, (snd s)\<lparr>world := w\<rparr>))"

definition noting_c ::
  "('a \<Rightarrow> ('i, 'o) event) \<Rightarrow> ('rtc channel \<times> 'w, transport_error, 'a) prog \<Rightarrow>
   ('rtc channel \<times> ('i, 'o, 'w, 'm) run_scheme, transport_error, 'a) prog"
where
  "noting_c f m =
     handle (on_chan m)
       (\<lambda>a. bnd (on_snd (record_event (f a))) (\<lambda>_. ret a))
       (\<lambda>x. bnd (on_snd (record_event (EvTransportError x))) (\<lambda>_. fail x))"

definition c_wait_open :: "('i, 'o, 'w, 'rtc, 'p, 'k, 'st, 'out, 'sk, 'xk, 'rnd) libs \<Rightarrow> instant \<Rightarrow>
  ('rtc channel \<times> ('i, 'o, 'w, 'm) run_scheme, transport_error, opened) prog" where
  "c_wait_open L deadline =
     noting_c EvOpened (channel_wait_open (l_os L) (l_rtc L) (l_fuel L) (l_fuel L) deadline)"

definition c_next :: "('i, 'o, 'w, 'rtc, 'p, 'k, 'st, 'out, 'sk, 'xk, 'rnd) libs \<Rightarrow> instant \<Rightarrow>
  ('rtc channel \<times> ('i, 'o, 'w, 'm) run_scheme, transport_error, next_msg) prog" where
  "c_next L deadline =
     noting_c EvHeard (channel_next (l_os L) (l_rtc L) (l_wire L) (l_fuel L) (l_fuel L) deadline)"

definition c_send :: "('i, 'o, 'w, 'rtc, 'p, 'k, 'st, 'out, 'sk, 'xk, 'rnd) libs \<Rightarrow> control \<Rightarrow>
  ('rtc channel \<times> ('i, 'o, 'w, 'm) run_scheme, transport_error, unit) prog" where
  "c_send L msg = noting_c (\<lambda>_. EvTold msg) (channel_send (l_rtc L) (l_wire L) msg)"

definition drop_channel :: "('i, 'o, 'w, 'rtc, 'p, 'k, 'st, 'out, 'sk, 'xk, 'rnd) libs \<Rightarrow>
  'rtc channel \<Rightarrow> (('i, 'o, 'w, 'm) run_scheme, 'x, unit) prog" where
  "drop_channel L c =
     bnd (in_world (\<lambda>w. case channel_drop (l_os L) (l_rtc L) (l_fuel L) (c, w) of
            (r, c', w') \<Rightarrow> (r, w')))
       (\<lambda>_. record_event EvDropped)"

text \<open>A scope that owns a channel: its body either is done with it (\<open>Inl\<close>, and an early return with
  an error), and the channel is dropped, or hands it on (\<open>Inr\<close>) to \<open>k\<close>.\<close>

definition scoped :: "('i, 'o, 'w, 'rtc, 'p, 'k, 'st, 'out, 'sk, 'xk, 'rnd) libs \<Rightarrow> 'rtc channel \<Rightarrow>
   ('rtc channel \<times> ('i, 'o, 'w, 'm) run_scheme, 'x, 'a + 'b) prog \<Rightarrow>
   ('b \<Rightarrow> 'rtc channel \<Rightarrow> (('i, 'o, 'w, 'm) run_scheme, 'x, 'a) prog) \<Rightarrow>
   (('i, 'o, 'w, 'm) run_scheme, 'x, 'a) prog" where
  "scoped L ch body k s =
     (case body (ch, s) of (r, c, s') \<Rightarrow>
        (case r of
           Ok (Inl a) \<Rightarrow> bnd (drop_channel L c) (\<lambda>_. ret a) s'
         | Ok (Inr b) \<Rightarrow> k b c s'
         | Err x \<Rightarrow> bnd (drop_channel L c) (\<lambda>_. fail x) s'
         | Panic \<Rightarrow> (Panic, s')
         | Hang \<Rightarrow> (Hang, s')))"

section \<open>Rules\<close>

lemma wp_in_world [wp_rules]:
  "wp (in_world m) Q s = wp m (\<lambda>r w. Q r (s\<lparr>world := w\<rparr>)) (world s)"
  by (auto simp: wp_def in_world_def split: prod.splits)

lemma wp_record_event [wp_rules]:
  "wp (record_event e) Q s = Q (Ok ()) (s\<lparr>history := history s @ [e]\<rparr>)"
  by (simp add: record_event_def wp_modify)

lemma wp_run_local [wp_rules]: "wp (run_local t m) Q s = Q (fst (m t)) s"
  by (simp add: wp_def run_local_def)

lemma wp_infallible [wp_rules]:
  "wp (infallible m) Q s = wp m (after (\<lambda>a. Q (Ok a)) (\<lambda>_. Q Panic) Q) s"
  by (simp add: infallible_def wp_handle wp_ret wp_panic)

lemma wp_on_chan [wp_rules]:
  "wp (on_chan m) Q s =
     wp m (\<lambda>r t. Q r (fst t, (snd s)\<lparr>world := snd t\<rparr>)) (fst s, world (snd s))"
  by (auto simp: wp_def on_chan_def split: prod.splits)

lemma wp_scoped [wp_rules]:
  "wp (scoped L ch body k) Q s =
     wp body (\<lambda>r t. case r of
         Ok (Inl a) \<Rightarrow> wp (bnd (drop_channel L (fst t)) (\<lambda>_. ret a)) Q (snd t)
       | Ok (Inr b) \<Rightarrow> wp (k b (fst t)) Q (snd t)
       | Err x \<Rightarrow> wp (bnd (drop_channel L (fst t)) (\<lambda>_. fail x)) Q (snd t)
       | Panic \<Rightarrow> Q Panic (snd t)
       | Hang \<Rightarrow> Q Hang (snd t)) (ch, s)"
  by (auto simp: wp_def scoped_def split: prod.splits res.splits sum.splits)

text \<open>What a step does to the history and to the rest of the state, whatever the outside does:
  \<open>same\<close> says that only the world may have changed, \<open>logged\<close> that one event was added.\<close>

definition same :: "('i, 'o, 'w, 'm) run_scheme \<Rightarrow> ('i, 'o, 'w, 'm) run_scheme \<Rightarrow> bool" where
  "same s s' \<longleftrightarrow> history s' = history s \<and> run.more s' = run.more s"

definition logged ::
  "('i, 'o) event \<Rightarrow> ('i, 'o, 'w, 'm) run_scheme \<Rightarrow> ('i, 'o, 'w, 'm) run_scheme \<Rightarrow> bool"
where
  "logged e s s' \<longleftrightarrow> history s' = history s @ [e] \<and> run.more s' = run.more s"

lemma same_world [simp]: "same s (s\<lparr>world := w\<rparr>)"
  by (simp add: same_def)

lemma logged_world [simp]:
  "logged e s (s\<lparr>world := w, history := history s @ [e]\<rparr>)"
  "logged e s (s\<lparr>history := history s @ [e]\<rparr>)"
  by (simp_all add: logged_def)

lemma in_world_any:
  "(\<And>r s'. same s s' \<Longrightarrow> Q r s') \<Longrightarrow> wp (in_world m) Q s"
  by (simp add: wp_in_world wp_any)

lemma get_now_any:
  "(\<And>t s'. same s s' \<Longrightarrow> Q (Ok t) s') \<Longrightarrow> wp (get_now L) Q s"
  by (simp add: get_now_def wp_in_world wp_now split: prod.splits)

lemma noting_any:
  assumes "\<And>a s'. logged (f a) s s' \<Longrightarrow> Q (Ok a) s'" "\<And>x s'. logged (g x) s s' \<Longrightarrow> Q (Err x) s'"
    "\<And>s'. same s s' \<Longrightarrow> Q Panic s'" "\<And>s'. same s s' \<Longrightarrow> Q Hang s'"
  shows "wp (noting f g (in_world m)) Q s"
  unfolding noting_def wp_handle wp_in_world
proof (rule wp_any)
  fix r w
  show "after (\<lambda>a. wp (bnd (record_event (f a)) (\<lambda>_. ret a)) Q)
     (\<lambda>x. wp (bnd (record_event (g x)) (\<lambda>_. fail x)) Q) Q r (s\<lparr>world := w\<rparr>)"
    using assms by (cases r) (auto simp: wp_bnd wp_record_event wp_ret wp_fail)
qed

lemma link_send_any:
  "(\<And>s'. logged (EvSent m) s s' \<Longrightarrow> Q (Ok ()) s') \<Longrightarrow>
   (\<And>x s'. logged (EvLinkError x) s s' \<Longrightarrow> Q (Err x) s') \<Longrightarrow>
   (\<And>s'. same s s' \<Longrightarrow> Q Panic s') \<Longrightarrow> (\<And>s'. same s s' \<Longrightarrow> Q Hang s') \<Longrightarrow> wp (link_send L m) Q s"
  unfolding link_send_def by (rule noting_any) auto

lemma link_recv_any:
  "(\<And>v s'. logged (EvGot v) s s' \<Longrightarrow> Q (Ok v) s') \<Longrightarrow>
   (\<And>x s'. logged (EvLinkError x) s s' \<Longrightarrow> Q (Err x) s') \<Longrightarrow>
   (\<And>s'. same s s' \<Longrightarrow> Q Panic s') \<Longrightarrow> (\<And>s'. same s s' \<Longrightarrow> Q Hang s') \<Longrightarrow> wp (link_recv L t) Q s"
  unfolding link_recv_def by (rule noting_any)

lemma drop_link_any:
  "(\<And>s'. logged EvLinkDropped s s' \<Longrightarrow> Q (Ok ()) s') \<Longrightarrow> wp (drop_link L) Q s"
  by (simp add: drop_link_def wp_bnd wp_in_world wp_ext_total wp_record_event split: prod.splits)

lemma noting_c_any:
  assumes "\<And>a c s'. logged (f a) (snd s) s' \<Longrightarrow> Q (Ok a) (c, s')"
    "\<And>x c s'. logged (EvTransportError x) (snd s) s' \<Longrightarrow> Q (Err x) (c, s')"
    "\<And>c s'. same (snd s) s' \<Longrightarrow> Q Panic (c, s')" "\<And>c s'. same (snd s) s' \<Longrightarrow> Q Hang (c, s')"
  shows "wp (noting_c f m) Q s"
  unfolding noting_c_def wp_handle wp_on_chan
proof (rule wp_any)
  fix r t
  show "after (\<lambda>a. wp (bnd (on_snd (record_event (f a))) (\<lambda>_. ret a)) Q)
     (\<lambda>x. wp (bnd (on_snd (record_event (EvTransportError x))) (\<lambda>_. fail x)) Q) Q r
     (fst t, (snd s)\<lparr>world := snd t\<rparr>)"
    using assms by (cases r) (auto simp: wp_bnd wp_on_snd wp_record_event wp_ret wp_fail)
qed

lemma c_wait_open_any:
  "(\<And>v c s'. logged (EvOpened v) (snd s) s' \<Longrightarrow> Q (Ok v) (c, s')) \<Longrightarrow>
   (\<And>x c s'. logged (EvTransportError x) (snd s) s' \<Longrightarrow> Q (Err x) (c, s')) \<Longrightarrow>
   (\<And>c s'. same (snd s) s' \<Longrightarrow> Q Panic (c, s')) \<Longrightarrow> (\<And>c s'. same (snd s) s' \<Longrightarrow> Q Hang (c, s')) \<Longrightarrow>
   wp (c_wait_open L d) Q s"
  unfolding c_wait_open_def by (rule noting_c_any)

lemma c_next_any:
  "(\<And>v c s'. logged (EvHeard v) (snd s) s' \<Longrightarrow> Q (Ok v) (c, s')) \<Longrightarrow>
   (\<And>x c s'. logged (EvTransportError x) (snd s) s' \<Longrightarrow> Q (Err x) (c, s')) \<Longrightarrow>
   (\<And>c s'. same (snd s) s' \<Longrightarrow> Q Panic (c, s')) \<Longrightarrow> (\<And>c s'. same (snd s) s' \<Longrightarrow> Q Hang (c, s')) \<Longrightarrow>
   wp (c_next L d) Q s"
  unfolding c_next_def by (rule noting_c_any)

lemma c_send_any:
  "(\<And>c s'. logged (EvTold m) (snd s) s' \<Longrightarrow> Q (Ok ()) (c, s')) \<Longrightarrow>
   (\<And>x c s'. logged (EvTransportError x) (snd s) s' \<Longrightarrow> Q (Err x) (c, s')) \<Longrightarrow>
   (\<And>c s'. same (snd s) s' \<Longrightarrow> Q Panic (c, s')) \<Longrightarrow> (\<And>c s'. same (snd s) s' \<Longrightarrow> Q Hang (c, s')) \<Longrightarrow>
   wp (c_send L m) Q s"
  unfolding c_send_def by (rule noting_c_any) auto

lemma c_now_any:
  "(\<And>t s'. same (snd s) s' \<Longrightarrow> Q (Ok t) (fst s, s')) \<Longrightarrow> wp (on_snd (get_now L)) Q s"
  unfolding wp_on_snd by (rule get_now_any)

lemma channel_drop_Ok:
  "(channel_drop sys lib fl (c, w) :: ('x, unit) res \<times> _) = (r, t) \<Longrightarrow> r = Ok () \<or> r = Panic \<or> r = Hang"
proof -
  have "wp (channel_drop sys lib fl :: (_, 'x, unit) prog) (\<lambda>r t. r = Ok () \<or> r = Panic \<or> r = Hang) (c, w)"
    by (auto simp: channel_drop_def channel_close_def peer_close_def wp_bnd wp_gets wp_ret wp_modify
        wp_on_peer wp_ignore after_def intro!: wp_any split: res.splits)
  then show "(channel_drop sys lib fl (c, w) :: ('x, unit) res \<times> _) = (r, t) \<Longrightarrow> ?thesis"
    by (auto simp: wp_def)
qed

lemma drop_channel_any:
  fixes Q :: "('x, unit) res \<Rightarrow> ('i, 'o, 'w, 'm) run_scheme \<Rightarrow> bool"
  assumes "\<And>s'. logged EvDropped s s' \<Longrightarrow> Q (Ok ()) s'" "\<And>s'. same s s' \<Longrightarrow> Q Panic s'"
    "\<And>s'. same s s' \<Longrightarrow> Q Hang s'"
  shows "wp (drop_channel L c) Q s"
  unfolding drop_channel_def wp_bnd wp_in_world
proof (rule wpI)
  fix r :: "('x, unit) res" and w
  assume "(case channel_drop (l_os L) (l_rtc L) (l_fuel L) (c, world s) of (r, c', w') \<Rightarrow> (r, w')) = (r, w)"
  then have "r = Ok () \<or> r = Panic \<or> r = Hang"
    by (auto split: prod.splits dest: channel_drop_Ok)
  then show "after (\<lambda>a. wp (record_event EvDropped) Q) (\<lambda>x. Q (Err x)) Q r (s\<lparr>world := w\<rparr>)"
    using assms by (auto simp: wp_record_event)
qed

section \<open>Paths of a machine\<close>

text \<open>The protocols of the two sides are machines over the events of a run: \<open>step\<close> relates a phase,
  an event and the next phase, and a run is a path of the machine.\<close>

inductive path :: "('p \<Rightarrow> 'e \<Rightarrow> 'p \<Rightarrow> bool) \<Rightarrow> 'p \<Rightarrow> 'e list \<Rightarrow> 'p \<Rightarrow> bool" for step p where
  path_nil: "path step p [] p"
| path_snoc: "path step p tr q \<Longrightarrow> step q e r \<Longrightarrow> path step p (tr @ [e]) r"

lemma path_end:
  "path step p tr q \<Longrightarrow> q \<noteq> p \<Longrightarrow> \<exists>tr' e r. tr = tr' @ [e] \<and> path step p tr' r \<and> step r e q"
  by (erule path.cases) auto

text \<open>The run has gone along a path from phase \<open>p\<close> to phase \<open>q\<close> since its history was \<open>h\<close>.\<close>

definition went ::
  "('p \<Rightarrow> ('i, 'o) event \<Rightarrow> 'p \<Rightarrow> bool) \<Rightarrow> 'p \<Rightarrow> ('i, 'o) event list \<Rightarrow> 'p \<Rightarrow>
   ('i, 'o, 'w, 'm) run_scheme \<Rightarrow> bool"
where
  "went step p h q s \<longleftrightarrow> (\<exists>tr. history s = h @ tr \<and> path step p tr q)"

lemma went_refl: "went step p (history s) p s"
  by (auto simp: went_def intro: path_nil)

lemma went_logged:
  "went step p h q s \<Longrightarrow> logged e s s' \<Longrightarrow> step q e q' \<Longrightarrow> went step p h q' s'"
  unfolding went_def logged_def by (metis append.assoc path_snoc)

lemma went_step:
  "went step p h q s \<Longrightarrow> history s' = history s @ [e] \<Longrightarrow> step q e q' \<Longrightarrow> went step p h q' s'"
  unfolding went_def by (metis append.assoc path_snoc)

lemma went_same: "went step p h q s \<Longrightarrow> same s s' \<Longrightarrow> went step p h q s'"
  by (simp add: went_def same_def)

lemma went_same_ex: "went step p h q s \<Longrightarrow> same s s' \<Longrightarrow> \<exists>q'. went step p h q' s'"
  by (blast intro: went_same)

end
