(* ===== verification/HostSession.thy ===== *)
theory HostSession
  imports Flow Attempts
begin

text \<open>
  \<open>apps/host-agent/src/session.rs\<close>: the host's side of a first connection, one viewer from
  \<open>ViewerJoined\<close> to an accepted session or a failure.  The definitions follow the functions of the
  file; \<open>HostState\<close> is the extension of the run by the code and the limiter.  \<open>approve\<close> is the
  non-blocking question to the user, a function on the world.
\<close>

section \<open>Configuration and results\<close>

record ('sk, 'xk) host_config =
  hc_host_id :: ustr
  hc_keys :: "('sk, 'xk) device_keys"
  hc_bind_ips :: "ip_addr list"
  hc_timeouts :: timeouts
  hc_protocol_version :: u32

record 'w host_run = "(server_to_host, host_to_server, 'w) run" +
  h_code :: ustr
  h_limiter :: limiter

record approval_request =
  ar_viewer_name :: ustr
  ar_viewer_key_fingerprint :: ustr

datatype attempt_failure =
    WaitRequired
  | NoConfirm
  | FWrongCode
  | FMalformed
  | FTimeout stage
  | FDenied
  | FVersionMismatch
  | FBadIdentity
  | FTransport

text \<open>A session is the identity of the viewer and the channel it holds.\<close>

datatype 'rtc serve_outcome =
    Session peer_identity "'rtc channel"
  | Failed attempt_failure
  | ViewerLeft

datatype host_error = HELink link_error | HETransport transport_error

type_synonym ('w, 'rtc, 'p, 'k, 'st, 'out, 'sk, 'xk, 'rnd) host_libs =
  "(server_to_host, host_to_server, 'w, 'rtc, 'p, 'k, 'st, 'out, 'sk, 'xk, 'rnd) libs"

type_synonym 'w ask = "approval_request \<Rightarrow> 'w \<Rightarrow> bool option \<times> 'w"

section \<open>The one-time code and the limiter\<close>

definition generate_code ::
  "('w, 'rtc, 'p, 'k, 'st, 'out, 'sk, 'xk, 'rnd) host_libs \<Rightarrow> ('w, 'x, ustr) prog"
where
  "generate_code L = code_generate (os_random (l_os L) 4) (l_fuel L)"

text \<open>\<open>HostState::new\<close>: the code and the limiter.\<close>

definition host_state_new ::
  "('w, 'rtc, 'p, 'k, 'st, 'out, 'sk, 'xk, 'rnd) host_libs \<Rightarrow> ('w, 'x, ustr \<times> limiter) prog"
where
  "host_state_new L = bnd (generate_code L) (\<lambda>c. ret (c, limiter_new))"

definition renew_code ::
  "('w, 'rtc, 'p, 'k, 'st, 'out, 'sk, 'xk, 'rnd) host_libs \<Rightarrow> ('w host_run, 'x, unit) prog"
where
  "renew_code L =
     bnd (in_world (generate_code L)) (\<lambda>c.
     bnd (modify (\<lambda>s. s\<lparr>h_code := c\<rparr>)) (\<lambda>_. record_event EvNewCode))"

section \<open>Relayed messages\<close>

definition send_relay ::
  "('w, 'rtc, 'p, 'k, 'st, 'out, 'sk, 'xk, 'rnd) host_libs \<Rightarrow> pake_msg \<Rightarrow>
   ('w host_run, host_error, unit) prog"
where
  "send_relay L msg =
     bnd (pake_encode (l_wire L) msg) (\<lambda>bs.
     map_err HELink (link_send L (HSRelay (hex_enc (l_wire L) bs))))"

datatype relay = RelMsg pake_msg | RelMalformed | RelLeft | RelTimedOut

definition relay_of :: "wire \<Rightarrow> server_to_host option \<Rightarrow> relay" where
  "relay_of w v =
     (case v of
        Some (SHRelay data) \<Rightarrow>
          (case relay_parse w data of Some msg \<Rightarrow> RelMsg msg | None \<Rightarrow> RelMalformed)
      | Some SHViewerLeft \<Rightarrow> RelLeft
      | Some _ \<Rightarrow> RelMalformed
      | None \<Rightarrow> RelTimedOut)"

definition recv_relay ::
  "('w, 'rtc, 'p, 'k, 'st, 'out, 'sk, 'xk, 'rnd) host_libs \<Rightarrow> duration \<Rightarrow>
   ('w host_run, host_error, relay) prog"
where
  "recv_relay L timeout =
     map_err HELink (bnd (link_recv L timeout) (\<lambda>v. ret (relay_of (l_wire L) v)))"

definition kicked ::
  "('w, 'rtc, 'p, 'k, 'st, 'out, 'sk, 'xk, 'rnd) host_libs \<Rightarrow> attempt_failure \<Rightarrow>
   ('w host_run, host_error, 'rtc serve_outcome) prog"
where
  "kicked L failure = bnd (map_err HELink (link_send L HSKick)) (\<lambda>_. ret (Failed failure))"

definition reject_relay ::
  "('w, 'rtc, 'p, 'k, 'st, 'out, 'sk, 'xk, 'rnd) host_libs \<Rightarrow> attempt_failure \<Rightarrow>
   ('w host_run, host_error, 'rtc serve_outcome) prog"
where
  "reject_relay L failure = bnd (send_relay L PRejected) (\<lambda>_. kicked L failure)"

section \<open>The data channel\<close>

definition APPROVAL_POLL :: duration where
  "APPROVAL_POLL = millis 50"

datatype approval = Granted | Denied | NoResponse | ApprovalFailed attempt_failure

definition ask_user :: "'w ask \<Rightarrow> approval_request \<Rightarrow> ('w host_run, 'x, bool option) prog" where
  "ask_user approve req =
     bnd (in_world (ext_total (approve req))) (\<lambda>answer.
     bnd (record_event (EvAsked answer)) (\<lambda>_. ret answer))"

text \<open>The arms of the match on \<open>ch.next\<close>; \<open>again\<close> is the next round of the loop.\<close>

fun heard_while_asking ::
  "('rtc channel \<times> 'w host_run, 'x, approval) prog \<Rightarrow> next_msg \<Rightarrow>
   ('rtc channel \<times> 'w host_run, 'x, approval) prog"
where
  "heard_while_asking again NTimedOut = again"
| "heard_while_asking again (NMsg m) = ret (ApprovalFailed FMalformed)"
| "heard_while_asking again NMalformed = ret (ApprovalFailed FMalformed)"
| "heard_while_asking again NClosed = ret (ApprovalFailed FTransport)"

primrec wait_approval_loop ::
  "('w, 'rtc, 'p, 'k, 'st, 'out, 'sk, 'xk, 'rnd) host_libs \<Rightarrow> 'w ask \<Rightarrow> approval_request \<Rightarrow> nat \<Rightarrow>
   instant \<Rightarrow> ('rtc channel \<times> 'w host_run, 'x, approval) prog"
where
  "wait_approval_loop L approve req 0 deadline = hang"
| "wait_approval_loop L approve req (Suc n) deadline =
     bnd (on_snd (ask_user approve req)) (\<lambda>answer.
     case answer of
       Some True \<Rightarrow> ret Granted
     | Some False \<Rightarrow> ret Denied
     | None \<Rightarrow>
         bnd (on_snd (get_now L)) (\<lambda>t.
         if deadline \<le> t then ret NoResponse
         else
           handle (c_next L (min (t + APPROVAL_POLL) deadline))
             (heard_while_asking (wait_approval_loop L approve req n deadline))
             (\<lambda>_. ret (ApprovalFailed FTransport))))"

definition wait_approval ::
  "('w, 'rtc, 'p, 'k, 'st, 'out, 'sk, 'xk, 'rnd) host_libs \<Rightarrow> 'w ask \<Rightarrow> approval_request \<Rightarrow> duration \<Rightarrow>
   ('rtc channel \<times> 'w host_run, 'x, approval) prog"
where
  "wait_approval L approve req limit =
     bnd (on_snd (get_now L)) (\<lambda>t. wait_approval_loop L approve req (l_fuel L) (t + limit))"

primrec linger_loop ::
  "('w, 'rtc, 'p, 'k, 'st, 'out, 'sk, 'xk, 'rnd) host_libs \<Rightarrow> nat \<Rightarrow> instant \<Rightarrow>
   ('rtc channel \<times> 'w host_run, 'x, unit) prog"
where
  "linger_loop L 0 deadline = hang"
| "linger_loop L (Suc n) deadline =
     handle (c_next L deadline)
       (\<lambda>v. case v of
          NMsg _ \<Rightarrow> linger_loop L n deadline
        | NMalformed \<Rightarrow> linger_loop L n deadline
        | _ \<Rightarrow> ret ())
       (\<lambda>_. ret ())"

text \<open>\<open>reject_decision\<close> takes the channel, which is dropped when it returns: the failure is the end
  of the scope of the channel.\<close>

definition reject_decision ::
  "('w, 'rtc, 'p, 'k, 'st, 'out, 'sk, 'xk, 'rnd) host_libs \<Rightarrow> reject_reason \<Rightarrow> attempt_failure \<Rightarrow>
   duration \<Rightarrow> ('rtc channel \<times> 'w host_run, 'x, 'rtc serve_outcome + peer_identity) prog"
where
  "reject_decision L reason failure linger =
     handle (c_send L (CDecision (Rejected reason)))
       (\<lambda>_.
          bnd (on_snd (get_now L)) (\<lambda>t.
          bnd (linger_loop L (l_fuel L) (t + linger)) (\<lambda>_. ret (Inl (Failed failure)))))
       (\<lambda>_. ret (Inl (Failed failure)))"

text \<open>The last part of \<open>handshake\<close>: the answer of the user is carried out.\<close>

fun host_decide ::
  "('w, 'rtc, 'p, 'k, 'st, 'out, 'sk, 'xk, 'rnd) host_libs \<Rightarrow> timeouts \<Rightarrow> peer_identity \<Rightarrow> approval \<Rightarrow>
   ('rtc channel \<times> 'w host_run, 'x, 'rtc serve_outcome + peer_identity) prog"
where
  "host_decide L t viewer Granted =
     handle (c_send L (CDecision Accepted))
       (\<lambda>_. bnd (on_snd (renew_code L)) (\<lambda>_. ret (Inr viewer)))
       (\<lambda>_. ret (Inl (Failed FTransport)))"
| "host_decide L t viewer Denied = reject_decision L RDenied FDenied (signaling_step t)"
| "host_decide L t viewer NoResponse = reject_decision L RNoResponse FDenied (signaling_step t)"
| "host_decide L t viewer (ApprovalFailed f) = ret (Inl (Failed f))"

definition host_verified ::
  "('w, 'rtc, 'p, 'k, 'st, 'out, 'sk, 'xk, 'rnd) host_libs \<Rightarrow> timeouts \<Rightarrow> 'w ask \<Rightarrow>
   peer_identity \<Rightarrow> ('rtc channel \<times> 'w host_run, 'x, 'rtc serve_outcome + peer_identity) prog"
where
  "host_verified L t approve viewer =
     bnd (expect (key_fingerprint (l_id L) (l_wire L) (pi_device_key viewer))) (\<lambda>fp.
     bnd (wait_approval L approve
            \<lparr>ar_viewer_name = pi_name viewer, ar_viewer_key_fingerprint = fp\<rparr> (approval_limit t))
       (host_decide L t viewer))"

text \<open>What the host makes of the first message of the viewer.\<close>

definition host_heard_hello ::
  "('w, 'rtc, 'p, 'k, 'st, 'out, 'sk, 'xk, 'rnd) host_libs \<Rightarrow> ('sk, 'xk) host_config \<Rightarrow>
   session_keys \<Rightarrow> 'w ask \<Rightarrow> bytes \<Rightarrow> bytes \<Rightarrow> next_msg \<Rightarrow>
   ('rtc channel \<times> 'w host_run, 'x, 'rtc serve_outcome + peer_identity) prog"
where
  "host_heard_hello L cfg sk approve local_fp remote_fp v =
     (let t = hc_timeouts cfg
      in case v of
           NMsg (CHello vh) \<Rightarrow>
             (case verify_hello (l_id L) vh RViewer (hello_binding sk) remote_fp local_fp of
                Inl _ \<Rightarrow> reject_decision L RBadIdentity FBadIdentity (signaling_step t)
              | Inr viewer \<Rightarrow>
                  if protocol_version vh \<noteq> hc_protocol_version cfg then
                    reject_decision L (RVersionMismatch (hc_protocol_version cfg))
                      FVersionMismatch (signaling_step t)
                  else host_verified L t approve viewer)
         | NMsg _ \<Rightarrow> ret (Inl (Failed FMalformed))
         | NMalformed \<Rightarrow> ret (Inl (Failed FMalformed))
         | NTimedOut \<Rightarrow> ret (Inl (Failed (FTimeout StHello)))
         | NClosed \<Rightarrow> ret (Inl (Failed FTransport)))"

definition host_greet ::
  "('w, 'rtc, 'p, 'k, 'st, 'out, 'sk, 'xk, 'rnd) host_libs \<Rightarrow> ('sk, 'xk) host_config \<Rightarrow>
   session_keys \<Rightarrow> 'w ask \<Rightarrow> bytes \<Rightarrow> bytes \<Rightarrow>
   ('rtc channel \<times> 'w host_run, 'x, 'rtc serve_outcome + peer_identity) prog"
where
  "host_greet L cfg sk approve local_fp remote_fp =
     (let h = (make_hello (l_id L) (hc_keys cfg) RHost (hello_binding sk) local_fp remote_fp)
                \<lparr>protocol_version := hc_protocol_version cfg\<rparr>
      in handle (c_send L (CHello h))
           (\<lambda>_.
              bnd (on_snd (get_now L)) (\<lambda>now2.
              handle (c_next L (now2 + signaling_step (hc_timeouts cfg)))
                (host_heard_hello L cfg sk approve local_fp remote_fp)
                (\<lambda>_. ret (Inl (Failed FTransport)))))
           (\<lambda>_. ret (Inl (Failed FTransport))))"

fun host_opened ::
  "('w, 'rtc, 'p, 'k, 'st, 'out, 'sk, 'xk, 'rnd) host_libs \<Rightarrow> ('sk, 'xk) host_config \<Rightarrow>
   session_keys \<Rightarrow> 'w ask \<Rightarrow> opened \<Rightarrow>
   ('rtc channel \<times> 'w host_run, 'x, 'rtc serve_outcome + peer_identity) prog"
where
  "host_opened L cfg sk approve Ready =
     bnd (on_chan (on_peer (peer_local_fp (l_rtc L)))) (\<lambda>local_fp.
     bnd (on_chan (on_peer (peer_remote_fp (l_rtc L)))) (\<lambda>remote.
     case remote of
       None \<Rightarrow> ret (Inl (Failed FBadIdentity))
     | Some remote_fp \<Rightarrow> host_greet L cfg sk approve local_fp remote_fp))"
| "host_opened L cfg sk approve OTimedOut = ret (Inl (Failed (FTimeout StConnect)))"
| "host_opened L cfg sk approve OClosed = ret (Inl (Failed FTransport))"

definition host_handshake_body ::
  "('w, 'rtc, 'p, 'k, 'st, 'out, 'sk, 'xk, 'rnd) host_libs \<Rightarrow> ('sk, 'xk) host_config \<Rightarrow>
   session_keys \<Rightarrow> 'w ask \<Rightarrow>
   ('rtc channel \<times> 'w host_run, 'x, 'rtc serve_outcome + peer_identity) prog"
where
  "host_handshake_body L cfg sk approve =
     bnd (on_snd (get_now L)) (\<lambda>now1.
     handle (c_wait_open L (now1 + connect_limit (hc_timeouts cfg)))
       (host_opened L cfg sk approve)
       (\<lambda>_. ret (Inl (Failed FTransport))))"

definition host_handshake ::
  "('w, 'rtc, 'p, 'k, 'st, 'out, 'sk, 'xk, 'rnd) host_libs \<Rightarrow> ('sk, 'xk) host_config \<Rightarrow>
   session_keys \<Rightarrow> 'w ask \<Rightarrow> 'rtc channel \<Rightarrow> ('w host_run, 'x, 'rtc serve_outcome) prog"
where
  "host_handshake L cfg sk approve ch =
     scoped L ch (host_handshake_body L cfg sk approve) (\<lambda>viewer c. ret (Session viewer c))"

section \<open>An attempt\<close>

text \<open>\<open>u64::try_from(wait.as_nanos().div_ceil(1_000_000)).unwrap_or(u64::MAX)\<close>.\<close>

definition wait_ms :: "duration \<Rightarrow> u64" where
  "wait_ms d = (let ms = (d + 999999) div 1000000 in if ms < 2 ^ 64 then of_nat ms else - 1)"

text \<open>From the confirmation on: the offer is opened and answered, and the channel is handed to
  \<open>host_handshake\<close>. A failure of the handshake is followed by the Kick.\<close>

fun attempt_ended ::
  "('w, 'rtc, 'p, 'k, 'st, 'out, 'sk, 'xk, 'rnd) host_libs \<Rightarrow> 'rtc serve_outcome \<Rightarrow>
   ('w host_run, host_error, 'rtc serve_outcome) prog"
where
  "attempt_ended L (Failed failure) = kicked L failure"
| "attempt_ended L other = ret other"

text \<open>Inside the scope of the new channel: the offer is accepted or not, and answered.\<close>

fun send_answer ::
  "('w, 'rtc, 'p, 'k, 'st, 'out, 'sk, 'xk, 'rnd) host_libs \<Rightarrow> session_keys \<Rightarrow> ustr option \<Rightarrow>
   ('rtc channel \<times> 'w host_run, host_error, 'rtc serve_outcome + unit) prog"
where
  "send_answer L sk None = bnd (on_snd (reject_relay L FMalformed)) (\<lambda>out. ret (Inl out))"
| "send_answer L sk (Some answer) =
     bnd (run_local (fst (host_side sk)) (infallible (seal (l_aead L) (as_bytes answer))))
       (\<lambda>sealed_answer.
     bnd (on_snd (send_relay L (PAnswer sealed_answer))) (\<lambda>_. ret (Inr ())))"

definition answer_offer ::
  "('w, 'rtc, 'p, 'k, 'st, 'out, 'sk, 'xk, 'rnd) host_libs \<Rightarrow> session_keys \<Rightarrow> ustr \<Rightarrow>
   ('rtc channel \<times> 'w host_run, host_error, 'rtc serve_outcome + unit) prog"
where
  "answer_offer L sk offer =
     bnd (attempt_ok (on_chan (on_peer (peer_accept_offer (l_rtc L) offer)))) (send_answer L sk)"

definition attempt_answer ::
  "('w, 'rtc, 'p, 'k, 'st, 'out, 'sk, 'xk, 'rnd) host_libs \<Rightarrow> ('sk, 'xk) host_config \<Rightarrow> 'w ask \<Rightarrow>
   session_keys \<Rightarrow> bytes \<Rightarrow> ('w host_run, host_error, 'rtc serve_outcome) prog"
where
  "attempt_answer L cfg approve sk sealed_offer =
     bnd (run_local (snd (host_side sk)) (attempt_ok (open_sealed (l_aead L) sealed_offer))) (\<lambda>opened.
     case Option.bind opened from_utf8 of
       None \<Rightarrow> reject_relay L FMalformed
     | Some offer \<Rightarrow>
         handle (in_world (peer_new (l_os L) (l_rtc L) (hc_bind_ips cfg)))
           (\<lambda>peer.
              scoped L (channel_new peer) (answer_offer L sk offer)
                (\<lambda>_ ch. bnd (host_handshake L cfg sk approve ch) (attempt_ended L)))
           (\<lambda>_. kicked L FTransport))"

text \<open>What the host makes of the message after its Reply.\<close>

definition attempt_got_confirm ::
  "('w, 'rtc, 'p, 'k, 'st, 'out, 'sk, 'xk, 'rnd) host_libs \<Rightarrow> ('sk, 'xk) host_config \<Rightarrow> 'w ask \<Rightarrow>
   'out \<Rightarrow> relay \<Rightarrow> ('w host_run, host_error, 'rtc serve_outcome) prog"
where
  "attempt_got_confirm L cfg approve pake v =
     (case v of
        RelMsg (PConfirm mac_a sealed_offer) \<Rightarrow>
          handle (host_confirm (l_spake L) pake mac_a)
            (\<lambda>sk.
               bnd (modify (\<lambda>s. s\<lparr>h_limiter := limiter_record_success (h_limiter s)\<rparr>)) (\<lambda>_.
               bnd (record_event EvSuccessRecorded) (\<lambda>_.
               attempt_answer L cfg approve sk sealed_offer)))
            (\<lambda>_. reject_relay L FWrongCode)
      | RelMsg _ \<Rightarrow> reject_relay L FMalformed
      | RelMalformed \<Rightarrow> reject_relay L FMalformed
      | RelLeft \<Rightarrow> ret (Failed NoConfirm)
      | RelTimedOut \<Rightarrow> kicked L NoConfirm)"

text \<open>\<open>record_failure\<close>, and the new code it may ask for.\<close>

definition count_failure ::
  "('w, 'rtc, 'p, 'k, 'st, 'out, 'sk, 'xk, 'rnd) host_libs \<Rightarrow> ('w host_run, 'x, unit) prog"
where
  "count_failure L =
     bnd (get_now L) (\<lambda>t.
     bnd (gets (\<lambda>s. snd (limiter_record_failure (h_limiter s) t))) (\<lambda>rotate.
     bnd (modify (\<lambda>s. s\<lparr>h_limiter := fst (limiter_record_failure (h_limiter s) t)\<rparr>)) (\<lambda>_.
     bnd (record_event (EvFailureRecorded t rotate)) (\<lambda>_.
     if rotate then renew_code L else ret ()))))"

definition attempt_reply ::
  "('w, 'rtc, 'p, 'k, 'st, 'out, 'sk, 'xk, 'rnd) host_libs \<Rightarrow> ('sk, 'xk) host_config \<Rightarrow> 'w ask \<Rightarrow>
   bytes \<Rightarrow> ('w host_run, host_error, 'rtc serve_outcome) prog"
where
  "attempt_reply L cfg approve pa =
     bnd (in_world (ext_total (l_rng L))) (\<lambda>rnd.
     bnd (gets h_code) (\<lambda>code.
     handle (host_respond (l_spake L) code (hc_host_id cfg) pa rnd)
       (\<lambda>(pake, pb, mac_b).
          bnd (count_failure L) (\<lambda>_.
          bnd (send_relay L (PReply pb mac_b)) (\<lambda>_.
          bnd (recv_relay L (signaling_step (hc_timeouts cfg)))
            (attempt_got_confirm L cfg approve pake))))
       (\<lambda>_. reject_relay L FMalformed)))"

definition attempt_got_start ::
  "('w, 'rtc, 'p, 'k, 'st, 'out, 'sk, 'xk, 'rnd) host_libs \<Rightarrow> ('sk, 'xk) host_config \<Rightarrow> 'w ask \<Rightarrow>
   relay \<Rightarrow> ('w host_run, host_error, 'rtc serve_outcome) prog"
where
  "attempt_got_start L cfg approve v =
     (case v of
        RelMsg (PStart pa) \<Rightarrow> attempt_reply L cfg approve pa
      | RelMsg _ \<Rightarrow> reject_relay L FMalformed
      | RelMalformed \<Rightarrow> reject_relay L FMalformed
      | RelLeft \<Rightarrow> ret ViewerLeft
      | RelTimedOut \<Rightarrow> kicked L (FTimeout StPake))"

definition attempt ::
  "('w, 'rtc, 'p, 'k, 'st, 'out, 'sk, 'xk, 'rnd) host_libs \<Rightarrow> ('sk, 'xk) host_config \<Rightarrow> 'w ask \<Rightarrow>
   ('w host_run, host_error, 'rtc serve_outcome) prog"
where
  "attempt L cfg approve =
     bnd (get_now L) (\<lambda>t.
     bnd (gets (\<lambda>s. limiter_check (h_limiter s) t)) (\<lambda>verdict.
     bnd (record_event (EvChecked t verdict)) (\<lambda>_.
     case verdict of
       Inl wait \<Rightarrow>
         bnd (send_relay L (PRetryAfter (wait_ms wait))) (\<lambda>_. kicked L WaitRequired)
     | Inr _ \<Rightarrow>
         bnd (recv_relay L (signaling_step (hc_timeouts cfg))) (attempt_got_start L cfg approve))))"

primrec serve_next ::
  "('w, 'rtc, 'p, 'k, 'st, 'out, 'sk, 'xk, 'rnd) host_libs \<Rightarrow> ('sk, 'xk) host_config \<Rightarrow> 'w ask \<Rightarrow>
   nat \<Rightarrow> ('w host_run, host_error, 'rtc serve_outcome) prog"
where
  "serve_next L cfg approve 0 = hang"
| "serve_next L cfg approve (Suc n) =
     bnd (map_err HELink (link_recv L (signaling_step (hc_timeouts cfg)))) (\<lambda>v.
     if v \<noteq> Some SHViewerJoined then serve_next L cfg approve n
     else attempt L cfg approve)"

section \<open>A session\<close>

primrec serve_pings_loop ::
  "('w, 'rtc, 'p, 'k, 'st, 'out, 'sk, 'xk, 'rnd) host_libs \<Rightarrow> nat \<Rightarrow> instant \<Rightarrow>
   ('rtc channel \<times> 'w host_run, host_error, unit) prog"
where
  "serve_pings_loop L 0 deadline = hang"
| "serve_pings_loop L (Suc n) deadline =
     bnd (map_err HETransport (c_next L deadline)) (\<lambda>v.
     case v of
       NMsg (CPing sq) \<Rightarrow>
         bnd (map_err HETransport (c_send L (CPong sq))) (\<lambda>_. serve_pings_loop L n deadline)
     | NMsg _ \<Rightarrow> serve_pings_loop L n deadline
     | NMalformed \<Rightarrow>
         bnd (on_chan (channel_close (l_os L) (l_rtc L) (l_fuel L))) (\<lambda>_. ret ())
     | NClosed \<Rightarrow> ret ()
     | NTimedOut \<Rightarrow> ret ())"

definition serve_pings ::
  "('w, 'rtc, 'p, 'k, 'st, 'out, 'sk, 'xk, 'rnd) host_libs \<Rightarrow> duration \<Rightarrow>
   ('rtc channel \<times> 'w host_run, host_error, unit) prog"
where
  "serve_pings L for_at_most =
     bnd (on_snd (get_now L)) (\<lambda>t. serve_pings_loop L (l_fuel L) (t + for_at_most))"

section \<open>What the helpers do\<close>

text \<open>Generating a code has no error: a code of six digits, a panic of the random source, or no end
  within the fuel.\<close>

definition six_digits :: "ustr \<Rightarrow> bool" where
  "six_digits c \<longleftrightarrow> length c = 6 \<and> list_all is_digit_char c"

lemma code_generate_result:
  "wp (code_generate fill n :: ('s, 'x, ustr) prog)
     (\<lambda>r _. case r of Ok c \<Rightarrow> six_digits c | Err x \<Rightarrow> False | _ \<Rightarrow> True) s"
proof (induction n arbitrary: s)
  case (Suc n)
  have "unat (v mod 1000000) < 1000000" for v :: u32
    by (simp add: unat_mod)
  note shape = format06_shape [OF this]
  show ?case
  proof (cases "fill s")
    case (Pair v t)
    with Suc.IH [of t] shape show ?thesis
      by (cases v) (auto simp: wp_def six_digits_def Let_def)
  qed
qed (simp add: wp_hang)

lemma renew_code_any:
  assumes "\<And>s'. history s' = history s @ [EvNewCode] \<Longrightarrow> h_limiter s' = h_limiter s \<Longrightarrow>
      six_digits (h_code s') \<Longrightarrow> Q (Ok ()) s'"
    "\<And>s'. same s s' \<Longrightarrow> Q Panic s'" "\<And>s'. same s s' \<Longrightarrow> Q Hang s'"
  shows "wp (renew_code L) Q s"
  unfolding renew_code_def wp_bnd [of "in_world _"] wp_in_world generate_code_def
  by (rule wp_mono [OF code_generate_result])
    (auto simp: wp_bnd wp_modify wp_record_event after_def intro!: assms split: res.splits)

end
