(* ===== verification/HostProtocol.thy ===== *)
theory HostProtocol
  imports HostSession
begin

text \<open>
  The protocol of the host as a state machine over the events of a run, and the refinement of
  \<open>session.rs\<close> to it: every history the code can produce is a path of the machine, and the outcome
  it returns is the one of the phase the path ends in.  The safety properties of the host are
  invariants of the machine, proved by induction over its paths.
\<close>

section \<open>The machine\<close>

type_synonym hevent = "(server_to_host, host_to_server) event"

datatype verdict = VSession | VFailed attempt_failure | VLeft | VLinkError

datatype phase =
    Waiting
  | Joined
  | Refused
  | Allowed
  | Started
  | Counting \<comment> \<open>the failure is recorded and asks for a new code\<close>
  | Counted
  | Replied
  | ConfirmGot
  | Confirmed
  | Answered
  | DataOpen
  | Greeted
  | HelloGot
  | Asking \<comment> \<open>no answer yet\<close>
  | AskAgain
  | Agreed
  | Declined
  | Decided
  | Lingering attempt_failure
  | Dropping attempt_failure
  | Rejecting attempt_failure
  | Kicking attempt_failure
  | KickingOpen attempt_failure \<comment> \<open>the channel is still in scope\<close>
  | Leaving verdict
  | Done verdict

text \<open>The relayed message an event sends, if it is one.\<close>

definition told :: "wire \<Rightarrow> hevent \<Rightarrow> pake_msg option" where
  "told w e = (case e of EvSent (HSRelay d) \<Rightarrow> relay_parse w d | _ \<Rightarrow> None)"

fun after_ask :: "bool option \<Rightarrow> phase" where
  "after_ask (Some True) = Agreed"
| "after_ask (Some False) = Declined"
| "after_ask None = Asking"

inductive hstep :: "wire \<Rightarrow> phase \<Rightarrow> hevent \<Rightarrow> phase \<Rightarrow> bool" for w where
  join: "hstep w Waiting (EvGot (Some SHViewerJoined)) Joined"
| skip: "v \<noteq> Some SHViewerJoined \<Longrightarrow> hstep w Waiting (EvGot v) Waiting"
| refuse: "hstep w Joined (EvChecked ta (Inl d)) Refused"
| allow: "hstep w Joined (EvChecked ta (Inr ())) Allowed"
| retry_after: "told w e = Some (PRetryAfter ms) \<Longrightarrow> hstep w Refused e (Kicking WaitRequired)"
| start: "relay_of w v = RelMsg (PStart pa) \<Longrightarrow> hstep w Allowed (EvGot v) Started"
| left_early: "relay_of w v = RelLeft \<Longrightarrow> hstep w Allowed (EvGot v) (Done VLeft)"
| late_start: "relay_of w v = RelTimedOut \<Longrightarrow> hstep w Allowed (EvGot v) (Kicking (FTimeout StPake))"
| bad_start: "relay_of w v = RelMalformed \<or> (\<exists>m. relay_of w v = RelMsg m \<and> (\<nexists>pa. m = PStart pa)) \<Longrightarrow>
    hstep w Allowed (EvGot v) (Rejecting FMalformed)"
| bad_point: "told w e = Some PRejected \<Longrightarrow> hstep w Started e (Kicking FMalformed)"
| failure_kept: "hstep w Started (EvFailureRecorded ta False) Counted"
| failure_rotates: "hstep w Started (EvFailureRecorded ta True) Counting"
| rotated: "hstep w Counting EvNewCode Counted"
| reply: "told w e = Some (PReply pb mac) \<Longrightarrow> hstep w Counted e Replied"
| confirm: "relay_of w v = RelMsg (PConfirm mac so) \<Longrightarrow> hstep w Replied (EvGot v) ConfirmGot"
| left_replied: "relay_of w v = RelLeft \<Longrightarrow> hstep w Replied (EvGot v) (Done (VFailed NoConfirm))"
| late_confirm: "relay_of w v = RelTimedOut \<Longrightarrow> hstep w Replied (EvGot v) (Kicking NoConfirm)"
| bad_confirm: "relay_of w v = RelMalformed \<or>
      (\<exists>m. relay_of w v = RelMsg m \<and> (\<nexists>mac so. m = PConfirm mac so)) \<Longrightarrow>
    hstep w Replied (EvGot v) (Rejecting FMalformed)"
| wrong_code: "told w e = Some PRejected \<Longrightarrow> hstep w ConfirmGot e (Kicking FWrongCode)"
| success: "hstep w ConfirmGot EvSuccessRecorded Confirmed"
| bad_offer: "told w e = Some PRejected \<Longrightarrow> hstep w Confirmed e (Kicking FMalformed)"
| no_peer: "hstep w Confirmed (EvSent HSKick) (Done (VFailed FTransport))"
| bad_sdp: "told w e = Some PRejected \<Longrightarrow> hstep w Confirmed e (KickingOpen FMalformed)"
| answer: "told w e = Some (PAnswer sa) \<Longrightarrow> hstep w Confirmed e Answered"
| opened: "hstep w Answered (EvOpened Ready) DataOpen"
| open_late: "hstep w Answered (EvOpened OTimedOut) (Dropping (FTimeout StConnect))"
| open_closed: "hstep w Answered (EvOpened OClosed) (Dropping FTransport)"
| no_fingerprint: "hstep w DataOpen EvDropped (Kicking FBadIdentity)"
| greet: "hstep w DataOpen (EvTold (CHello h)) Greeted"
| hello: "hstep w Greeted (EvHeard (NMsg (CHello h))) HelloGot"
| bad_hello: "v = NMalformed \<or> (\<exists>m. v = NMsg m \<and> (\<nexists>h. m = CHello h)) \<Longrightarrow>
    hstep w Greeted (EvHeard v) (Dropping FMalformed)"
| late_hello: "hstep w Greeted (EvHeard NTimedOut) (Dropping (FTimeout StHello))"
| closed_hello: "hstep w Greeted (EvHeard NClosed) (Dropping FTransport)"
| bad_identity: "hstep w HelloGot (EvTold (CDecision (Rejected RBadIdentity))) (Lingering FBadIdentity)"
| bad_version: "hstep w HelloGot (EvTold (CDecision (Rejected (RVersionMismatch v))))
    (Lingering FVersionMismatch)"
| untold: "f = FBadIdentity \<or> f = FVersionMismatch \<Longrightarrow> hstep w HelloGot (EvTransportError x) (Dropping f)"
| ask: "p = HelloGot \<or> p = AskAgain \<Longrightarrow> hstep w p (EvAsked a) (after_ask a)"
| no_response: "hstep w Asking (EvTold (CDecision (Rejected RNoResponse))) (Lingering FDenied)"
| no_response_untold: "hstep w Asking (EvTransportError x) (Dropping FDenied)"
| still_there: "hstep w Asking (EvHeard NTimedOut) AskAgain"
| talked: "v = NMalformed \<or> (\<exists>m. v = NMsg m) \<Longrightarrow> hstep w Asking (EvHeard v) (Dropping FMalformed)"
| closed_asking: "hstep w Asking (EvHeard NClosed) (Dropping FTransport)"
| denied: "hstep w Declined (EvTold (CDecision (Rejected RDenied))) (Lingering FDenied)"
| denied_untold: "hstep w Declined (EvTransportError x) (Dropping FDenied)"
| accept: "hstep w Agreed (EvTold (CDecision Accepted)) Decided"
| session: "hstep w Decided EvNewCode (Done VSession)"
| linger: "v = NMalformed \<or> (\<exists>m. v = NMsg m) \<Longrightarrow> hstep w (Lingering f) (EvHeard v) (Lingering f)"
| linger_end: "v = NClosed \<or> v = NTimedOut \<Longrightarrow> hstep w (Lingering f) (EvHeard v) (Dropping f)"
| linger_error: "hstep w (Lingering f) (EvTransportError x) (Dropping f)"
| transport: "p \<in> {Answered, DataOpen, Greeted, Asking, Agreed} \<Longrightarrow>
    hstep w p (EvTransportError x) (Dropping FTransport)"
| dropped: "hstep w (Dropping f) EvDropped (Kicking f)"
| reject: "told w e = Some PRejected \<Longrightarrow> hstep w (Rejecting f) e (Kicking f)"
| kick: "hstep w (Kicking f) (EvSent HSKick) (Done (VFailed f))"
| kick_open: "hstep w (KickingOpen f) (EvSent HSKick) (Leaving (VFailed f))"
| leave: "v \<noteq> VSession \<Longrightarrow> hstep w (Leaving v) EvDropped (Done v)"
| link_error: "p \<in> {Waiting, Refused, Allowed, Started, Counted, Replied, ConfirmGot, Confirmed} \<or>
      (\<exists>f. p = Rejecting f \<or> p = Kicking f) \<Longrightarrow> hstep w p (EvLinkError x) (Done VLinkError)"
| link_error_open: "p = Confirmed \<or> (\<exists>f. p = KickingOpen f) \<Longrightarrow>
    hstep w p (EvLinkError x) (Leaving VLinkError)"

abbreviation hpath :: "wire \<Rightarrow> phase \<Rightarrow> hevent list \<Rightarrow> phase \<Rightarrow> bool" where
  "hpath w \<equiv> path (hstep w)"

section \<open>Refinement\<close>

fun verdict_of :: "'rtc serve_outcome \<Rightarrow> verdict" where
  "verdict_of (Session v c) = VSession"
| "verdict_of (Failed f) = VFailed f"
| "verdict_of ViewerLeft = VLeft"

definition ended ::
  "wire \<Rightarrow> phase \<Rightarrow> hevent list \<Rightarrow> (host_error, 'rtc serve_outcome) res \<Rightarrow> 'w host_run \<Rightarrow> bool"
where
  "ended w p h r s \<longleftrightarrow>
     (case r of
        Ok out \<Rightarrow> went (hstep w) p h (Done (verdict_of out)) s
      | Err x \<Rightarrow> went (hstep w) p h (Done VLinkError) s
      | _ \<Rightarrow> (\<exists>q. went (hstep w) p h q s))"

lemma ended_simps [simp]:
  "ended w p h (Ok out) s = went (hstep w) p h (Done (verdict_of out)) s"
  "ended w p h (Err x) s = went (hstep w) p h (Done VLinkError) s"
  "ended w p h Panic s = (\<exists>q. went (hstep w) p h q s)"
  "ended w p h Hang s = (\<exists>q. went (hstep w) p h q s)"
  by (simp_all add: ended_def)

lemma went_modify:
  "went (hstep w) p h q (s\<lparr>h_code := c\<rparr>) = went (hstep w) p h q s"
  "went (hstep w) p h q (s\<lparr>h_limiter := l\<rparr>) = went (hstep w) p h q s"
  by (simp_all add: went_def)

subsection \<open>The link\<close>

lemma send_relay_any:
  assumes "wire_ok (l_wire L)"
    "\<And>e s'. told (l_wire L) e = Some msg \<Longrightarrow> logged e s s' \<Longrightarrow> Q (Ok ()) s'"
    "\<And>x s'. logged (EvLinkError x) s s' \<Longrightarrow> Q (Err (HELink x)) s'"
    "\<And>s'. same s s' \<Longrightarrow> Q Panic s'" "\<And>s'. same s s' \<Longrightarrow> Q Hang s'"
  shows "wp (send_relay L msg) Q s"
proof -
  obtain d where d: "relay_text (l_wire L) msg = Some d" "relay_parse (l_wire L) d = Some msg"
    using relay_roundtrip [OF assms(1)] by blast
  then obtain bs where bs: "pake_to (l_wire L) msg = Some bs" "d = hex_enc (l_wire L) bs"
    by (auto simp: relay_text_def)
  have "Q (Ok ()) s'" if "logged (EvSent (HSRelay d)) s s'" for s'
    using assms(2) [OF _ that] d(2) by (simp add: told_def)
  then show ?thesis
    unfolding send_relay_def pake_encode_def wp_bnd wp_map_err
    using bs assms(3-) by (auto simp: wp_ret intro!: link_send_any)
qed

lemma recv_relay_any:
  "(\<And>v s'. logged (EvGot v) s s' \<Longrightarrow> Q (Ok (relay_of (l_wire L) v)) s') \<Longrightarrow>
   (\<And>x s'. logged (EvLinkError x) s s' \<Longrightarrow> Q (Err (HELink x)) s') \<Longrightarrow>
   (\<And>s'. same s s' \<Longrightarrow> Q Panic s') \<Longrightarrow> (\<And>s'. same s s' \<Longrightarrow> Q Hang s') \<Longrightarrow>
   wp (recv_relay L t) Q s"
  unfolding recv_relay_def wp_map_err wp_bnd by (rule link_recv_any) (simp_all add: wp_ret)

lemma kicked_any:
  "(\<And>s'. logged (EvSent HSKick) s s' \<Longrightarrow> Q (Ok (Failed f)) s') \<Longrightarrow>
   (\<And>x s'. logged (EvLinkError x) s s' \<Longrightarrow> Q (Err (HELink x)) s') \<Longrightarrow>
   (\<And>s'. same s s' \<Longrightarrow> Q Panic s') \<Longrightarrow> (\<And>s'. same s s' \<Longrightarrow> Q Hang s') \<Longrightarrow> wp (kicked L f) Q s"
  unfolding kicked_def wp_bnd wp_map_err by (rule link_send_any) (simp_all add: wp_ret)

lemma kicked_ended:
  "went (hstep w) p h (Kicking f) s \<Longrightarrow> wp (kicked L f) (ended w p h) s"
  by (rule kicked_any) (auto intro: went_logged went_same hstep.kick hstep.link_error)

lemma reject_ended:
  assumes "wire_ok (l_wire L)" "went (hstep (l_wire L)) p h q s"
    "\<And>e. told (l_wire L) e = Some PRejected \<Longrightarrow> hstep (l_wire L) q e (Kicking f)"
    "\<And>x. hstep (l_wire L) q (EvLinkError x) (Done VLinkError)"
  shows "wp (reject_relay L f) (ended (l_wire L) p h) s"
  unfolding reject_relay_def wp_bnd
  by (rule send_relay_any [OF assms(1)])
    (use assms(2-) in \<open>auto intro: went_logged went_same kicked_ended\<close>)

lemma rejecting_ended:
  "wire_ok (l_wire L) \<Longrightarrow> went (hstep (l_wire L)) p h (Rejecting f) s \<Longrightarrow>
   wp (reject_relay L f) (ended (l_wire L) p h) s"
  by (rule reject_ended) (auto intro: hstep.reject hstep.link_error)

subsection \<open>The data channel\<close>

text \<open>Where the body of the handshake may end: with a session, or ready to drop the channel.\<close>

definition body_ended ::
  "wire \<Rightarrow> phase \<Rightarrow> hevent list \<Rightarrow> ('x, 'rtc serve_outcome + peer_identity) res \<Rightarrow>
   'rtc channel \<times> 'w host_run \<Rightarrow> bool"
where
  "body_ended w p h r t \<longleftrightarrow>
     (case r of
        Ok (Inl out) \<Rightarrow>
          (\<exists>f q. out = Failed f \<and> went (hstep w) p h q (snd t) \<and> hstep w q EvDropped (Kicking f))
      | Ok (Inr v) \<Rightarrow> went (hstep w) p h (Done VSession) (snd t)
      | Err x \<Rightarrow> False
      | _ \<Rightarrow> (\<exists>q. went (hstep w) p h q (snd t)))"

lemma body_ended_failed:
  "body_ended w p h (Ok (Inl (Failed f))) t =
     (\<exists>q. went (hstep w) p h q (snd t) \<and> hstep w q EvDropped (Kicking f))"
  by (simp add: body_ended_def)

lemma body_ended_simps [simp]:
  "body_ended w p h (Ok (Inr v)) t = went (hstep w) p h (Done VSession) (snd t)"
  "body_ended w p h Panic t = (\<exists>q. went (hstep w) p h q (snd t))"
  "body_ended w p h Hang t = (\<exists>q. went (hstep w) p h q (snd t))"
  by (auto simp: body_ended_def)

lemma body_dropping: "went (hstep w) p h (Dropping f) (snd t) \<Longrightarrow> body_ended w p h (Ok (Inl (Failed f))) t"
  by (auto simp: body_ended_failed intro: hstep.dropped)

lemmas went_intros = went_logged went_same body_dropping

text \<open>A loop that gives up the channel: where it ends.\<close>

definition loop_ended :: "wire \<Rightarrow> phase \<Rightarrow> hevent list \<Rightarrow> ('a \<Rightarrow> phase) \<Rightarrow> ('x, 'a) res \<Rightarrow>
  'rtc channel \<times> 'w host_run \<Rightarrow> bool" where
  "loop_ended w p h g r t \<longleftrightarrow>
     (case r of Ok a \<Rightarrow> went (hstep w) p h (g a) (snd t) | Err x \<Rightarrow> False | _ \<Rightarrow> (\<exists>q. went (hstep w) p h q (snd t)))"

lemma loop_ended_simps [simp]:
  "loop_ended w p h g (Ok a) t = went (hstep w) p h (g a) (snd t)"
  "loop_ended w p h g Panic t = (\<exists>q. went (hstep w) p h q (snd t))"
  "loop_ended w p h g Hang t = (\<exists>q. went (hstep w) p h q (snd t))"
  by (simp_all add: loop_ended_def)

lemma ask_user_any:
  "(\<And>a s'. logged (EvAsked a) (snd t) s' \<Longrightarrow> Q (Ok a) (fst t, s')) \<Longrightarrow>
   wp (on_snd (ask_user approve req)) Q t"
  by (simp add: ask_user_def wp_on_snd wp_bnd wp_in_world wp_ext_total wp_record_event wp_ret
      split: prod.splits)

lemma linger_ended:
  "went (hstep w) p h (Lingering f) (snd t) \<Longrightarrow>
   wp (linger_loop L n d :: (_, 'x, unit) prog) (loop_ended w p h (\<lambda>_. Dropping f)) t"
proof (induction n arbitrary: t)
  case (Suc n)
  note go = went_logged [OF Suc.prems]
  show ?case
    unfolding linger_loop.simps wp_handle
  proof (rule c_next_any)
    fix v c s'
    assume "logged (EvHeard v) (snd t) s'"
    note go = go [OF this]
    show "after (\<lambda>a. wp (case a of NMsg x \<Rightarrow> linger_loop L n d :: (_, 'x, unit) prog | NMalformed \<Rightarrow> linger_loop L n d
          | _ \<Rightarrow> ret ()) (loop_ended w p h (\<lambda>_. Dropping f)))
        (\<lambda>x. wp (ret ()) (loop_ended w p h (\<lambda>_. Dropping f)))
        (loop_ended w p h (\<lambda>_. Dropping f)) (Ok v) (c, s')"
    proof (cases "v = NMalformed \<or> (\<exists>m. v = NMsg m)")
      case True
      with Suc.IH [of "(c, s')"] go hstep.linger show ?thesis by auto
    next
      case False
      then have "v = NClosed \<or> v = NTimedOut" by (cases v) auto
      with go hstep.linger_end show ?thesis by (auto simp: wp_ret)
    qed
  qed (use Suc.prems in \<open>auto simp: wp_ret intro: go hstep.linger_error went_same\<close>)
qed (auto simp: wp_rules)

lemma reject_decision_ended:
  assumes "went (hstep w) p h q (snd t)" "hstep w q (EvTold (CDecision (Rejected reason))) (Lingering f)"
    "\<And>x. hstep w q (EvTransportError x) (Dropping f)"
  shows "wp (reject_decision L reason f d) (body_ended w p h) t"
  unfolding reject_decision_def wp_handle
proof (rule c_send_any)
  fix c s'
  assume "logged (EvTold (CDecision (Rejected reason))) (snd t) s'"
  then have l: "went (hstep w) p h (Lingering f) s'" by (rule went_logged [OF assms(1) _ assms(2)])
  have "wp (bnd (linger_loop L (l_fuel L) d') (\<lambda>_. ret (Inl (Failed f)))) (body_ended w p h) (c, s2)"
    if "same s' s2" for d' s2
    unfolding wp_bnd
    by (rule wp_mono [OF linger_ended [where w = w and p = p and h = h and f = f]])
      (use went_same [OF l that] in \<open>auto simp: loop_ended_def after_def wp_ret intro!: body_dropping
        split: res.splits\<close>)
  then show "after (\<lambda>a. wp (bnd (on_snd (get_now L)) (\<lambda>ta. bnd (linger_loop L (l_fuel L) (ta + d))
        (\<lambda>_. ret (Inl (Failed f))))) (body_ended w p h))
      (\<lambda>x. wp (ret (Inl (Failed f))) (body_ended w p h)) (body_ended w p h) (Ok ()) (c, s')"
    by (auto simp: wp_bnd [of "on_snd _"] intro!: c_now_any)
next
  fix x c s'
  assume "logged (EvTransportError x) (snd t) s'"
  from went_logged [OF assms(1) this assms(3)] show "after
      (\<lambda>a. wp (bnd (on_snd (get_now L)) (\<lambda>ta. bnd (linger_loop L (l_fuel L) (ta + d))
        (\<lambda>_. ret (Inl (Failed f))))) (body_ended w p h))
      (\<lambda>x. wp (ret (Inl (Failed f))) (body_ended w p h)) (body_ended w p h) (Err x) (c, s')"
    by (auto simp: wp_ret intro!: body_dropping)
qed (use assms(1) in \<open>auto intro: went_same\<close>)

fun approval_phase :: "approval \<Rightarrow> phase" where
  "approval_phase Granted = Agreed"
| "approval_phase Denied = Declined"
| "approval_phase NoResponse = Asking"
| "approval_phase (ApprovalFailed f) = Dropping f"

lemma wait_approval_loop_ended:
  assumes "went (hstep w) p h q (snd t)" "q = HelloGot \<or> q = AskAgain"
  shows "wp (wait_approval_loop L approve req n d :: (_, 'x, approval) prog)
    (loop_ended w p h approval_phase) t"
  using assms
proof (induction n arbitrary: t q)
  case (Suc n)
  have asked: "went (hstep w) p h (after_ask a) s'" if "logged (EvAsked a) (snd t) s'" for a s'
    using went_logged [OF Suc.prems(1) that hstep.ask] Suc.prems(2) by blast
  let ?again = "wait_approval_loop L approve req n d :: (_, 'x, approval) prog"
  have heard: "wp (heard_while_asking ?again v) (loop_ended w p h approval_phase) (c, s')"
    if u: "went (hstep w) p h Asking s" and l: "logged (EvHeard v) s s'" for s v c s'
    using went_logged [OF u l hstep.talked] went_logged [OF u _ hstep.closed_asking]
      went_logged [OF u _ hstep.still_there] l Suc.IH [of AskAgain "(c, s')"]
    by (cases v) (auto simp: wp_ret)
  have poll: "wp (handle (c_next L d') (heard_while_asking ?again) (\<lambda>_. ret (ApprovalFailed FTransport)))
      (loop_ended w p h approval_phase) u" if u: "went (hstep w) p h Asking (snd u)" for u d'
    unfolding wp_handle using heard [OF u] went_logged [OF u _ hstep.transport]
    by (intro c_next_any) (auto simp: wp_ret intro!: went_same_ex [OF u])
  have none: "wp (bnd (on_snd (get_now L)) (\<lambda>t.
         if d \<le> t then ret NoResponse
         else handle (c_next L (min (t + APPROVAL_POLL) d)) (heard_while_asking ?again)
             (\<lambda>_. ret (ApprovalFailed FTransport)))) (loop_ended w p h approval_phase) u"
    if u: "went (hstep w) p h Asking (snd u)" for u
    unfolding wp_bnd by (rule c_now_any) (auto simp: wp_ret intro!: poll went_same [OF u])
  show ?case
    unfolding wait_approval_loop.simps wp_bnd [of "on_snd (ask_user _ _)"]
  proof (rule ask_user_any)
    fix a s'
    assume "logged (EvAsked a) (snd t) s'"
    from asked [OF this] none [of "(fst t, s')"]
    show "after (\<lambda>a. wp (case a of
       None \<Rightarrow> bnd (on_snd (get_now L)) (\<lambda>t.
         if d \<le> t then ret NoResponse
         else handle (c_next L (min (t + APPROVAL_POLL) d)) (heard_while_asking ?again)
             (\<lambda>_. ret (ApprovalFailed FTransport)))
     | Some True \<Rightarrow> ret Granted | Some False \<Rightarrow> ret Denied)
      (loop_ended w p h approval_phase)) (\<lambda>x. loop_ended w p h approval_phase (Err x))
      (loop_ended w p h approval_phase) (Ok a) (fst t, s')"
      by (cases a; cases "the a") (simp_all add: wp_ret)
  qed
qed (auto simp: wp_rules)

lemma wait_approval_ended:
  assumes "went (hstep w) p h HelloGot (snd t)"
  shows "wp (wait_approval L approve req limit :: (_, 'x, approval) prog)
    (loop_ended w p h approval_phase) t"
  unfolding wait_approval_def wp_bnd
  by (rule c_now_any) (auto intro!: wait_approval_loop_ended went_same [OF assms])

lemma host_decide_ended:
  assumes u: "went (hstep w) p h (approval_phase a) (snd u)"
  shows "wp (host_decide L ts v a :: (_, 'x, _) prog) (body_ended w p h) u"
proof (cases a)
  case Granted
  with u have g: "went (hstep w) p h Agreed (snd u)" by simp
  have new: "wp (bnd (on_snd (renew_code L)) (\<lambda>_. ret (Inr v)) :: (_, 'x, _) prog) (body_ended w p h) (c, s')"
    if "logged (EvTold (CDecision Accepted)) (snd u) s'" for c s'
  proof -
    from went_logged [OF g that hstep.accept] have s': "went (hstep w) p h Decided s'" .
    show ?thesis
      unfolding wp_bnd wp_on_snd
      by (rule renew_code_any)
        (auto simp: wp_ret intro!: went_same_ex [OF s'] went_step [OF s' _ hstep.session])
  qed
  from Granted show ?thesis
    by (auto simp: wp_ret wp_handle intro!: c_send_any new body_dropping went_same_ex [OF g]
        went_logged [OF g _ hstep.transport])
next
  case Denied
  with u show ?thesis
    by (auto intro: reject_decision_ended hstep.denied hstep.denied_untold)
next
  case NoResponse
  with u show ?thesis
    by (auto intro: reject_decision_ended hstep.no_response hstep.no_response_untold)
next
  case (ApprovalFailed f)
  with u show ?thesis by (auto simp: wp_ret intro!: body_dropping)
qed

lemma host_verified_ended:
  assumes "went (hstep w) p h HelloGot (snd t)"
  shows "wp (host_verified L ts approve v :: (_, 'x, _) prog) (body_ended w p h) t"
proof -
  have "wp (bnd (wait_approval L approve req l) (host_decide L ts v) :: (_, 'x, _) prog)
      (body_ended w p h) t" for req l
    unfolding wp_bnd
    by (rule wp_mono [OF wait_approval_ended [OF assms]])
      (auto simp: loop_ended_def after_def intro: host_decide_ended split: res.splits)
  then show ?thesis
    unfolding host_verified_def
    by (cases "key_fingerprint (l_id L) (l_wire L) (pi_device_key v)")
      (use assms in \<open>auto simp: wp_bnd [of panic] wp_bnd [of "ret _"] wp_panic wp_ret\<close>)
qed

lemma host_heard_hello_ended:
  assumes g: "went (hstep w) p h Greeted s" and l: "logged (EvHeard v) s s'"
  shows "wp (host_heard_hello L cfg sk approve lf rf v :: (_, 'x, _) prog) (body_ended w p h) (c, s')"
proof (cases "\<exists>vh. v = NMsg (CHello vh)")
  case True
  then obtain vh where v: "v = NMsg (CHello vh)" ..
  have n: "went (hstep w) p h HelloGot (snd (c, s'))"
    using went_logged [OF g l] hstep.hello v by simp
  show ?thesis
    unfolding host_heard_hello_def Let_def
    using v by (auto intro!: reject_decision_ended [OF n] host_verified_ended [OF n]
        intro: hstep.bad_identity hstep.bad_version hstep.untold split: sum.splits)
next
  case False
  have "went (hstep w) p h (Dropping FMalformed) s'" if "v = NMalformed \<or> (\<exists>m. v = NMsg m)"
    using went_logged [OF g l hstep.bad_hello] that False by blast
  moreover have "went (hstep w) p h (Dropping FTransport) s'" if "v = NClosed"
    using went_logged [OF g l] that hstep.closed_hello by simp
  moreover have "went (hstep w) p h (Dropping (FTimeout StHello)) s'" if "v = NTimedOut"
    using went_logged [OF g l] that hstep.late_hello by simp
  ultimately show ?thesis
    using False by (auto simp: host_heard_hello_def Let_def wp_ret intro!: body_dropping
        split: next_msg.splits control.splits)
qed

lemma host_greet_ended:
  assumes d: "went (hstep w) p h DataOpen (snd t)"
  shows "wp (host_greet L cfg sk approve lf rf :: (_, 'x, _) prog) (body_ended w p h) t"
proof -
  have hear: "wp (bnd (on_snd (get_now L)) (\<lambda>now2.
         handle (c_next L (now2 + x)) (host_heard_hello L cfg sk approve lf rf)
           (\<lambda>_. ret (Inl (Failed FTransport)))) :: (_, 'x, _) prog) (body_ended w p h) (c, s')"
    if "logged (EvTold (CHello m)) (snd t) s'" for c s' m x
  proof -
    from went_logged [OF d that hstep.greet] have g: "went (hstep w) p h Greeted s'" .
    show ?thesis
      unfolding wp_bnd
    proof (rule c_now_any)
      fix now2 s2
      assume "same (snd (c, s')) s2"
      then have g2: "went (hstep w) p h Greeted s2" using went_same [OF g] by simp
      show "after (\<lambda>now2. wp (handle (c_next L (now2 + x)) (host_heard_hello L cfg sk approve lf rf)
           (\<lambda>_. ret (Inl (Failed FTransport)))) (body_ended w p h))
         (\<lambda>x. body_ended w p h (Err x)) (body_ended w p h) (Ok now2 :: ('x, instant) res) (fst (c, s'), s2)"
        by (auto simp: wp_handle wp_ret intro!: c_next_any host_heard_hello_ended [OF g2] body_dropping
            went_same_ex [OF g2] went_logged [OF g2 _ hstep.transport])
    qed
  qed
  show ?thesis
    unfolding host_greet_def Let_def wp_handle [of "c_send _ _"]
    by (rule c_send_any) (auto simp: wp_ret intro!: hear body_dropping went_same_ex [OF d]
        went_logged [OF d _ hstep.transport])
qed

lemma host_handshake_body_ended:
  fixes t :: "'rtc channel \<times> 'w host_run"
  assumes "went (hstep w) p h Answered (snd t)"
  shows "wp (host_handshake_body L cfg sk approve :: (_, 'x, _) prog) (body_ended w p h) t"
proof -
  have opened: "wp (host_opened L cfg sk approve v :: (_, 'x, _) prog) (body_ended w p h) (c, s')"
    if g: "went (hstep w) p h Answered s" and l: "logged (EvOpened v) s s'" for v s s' and c :: "'rtc channel"
  proof (cases v)
    case Ready
    have o: "went (hstep w) p h DataOpen s'" using went_logged [OF g l] hstep.opened Ready by simp
    show ?thesis
      using Ready
      by (auto simp: wp_bnd wp_on_chan wp_on_peer peer_local_fp_def peer_remote_fp_def wp_gets wp_ret
          body_ended_failed split: option.splits
          intro!: host_greet_ended o exI [of _ DataOpen] hstep.no_fingerprint)
  next
    case OClosed
    then show ?thesis using went_logged [OF g l] hstep.open_closed by (auto simp: wp_ret intro!: body_dropping)
  next
    case OTimedOut
    then show ?thesis using went_logged [OF g l] hstep.open_late by (auto simp: wp_ret intro!: body_dropping)
  qed
  show ?thesis
    unfolding host_handshake_body_def wp_bnd
  proof (rule c_now_any)
    fix now1 s'
    assume "same (snd t) s'"
    then have a: "went (hstep w) p h Answered s'" using went_same [OF assms] by simp
    show "after (\<lambda>now1. wp (handle (c_wait_open L (now1 + connect_limit (hc_timeouts cfg)))
         (host_opened L cfg sk approve) (\<lambda>_. ret (Inl (Failed FTransport))) :: (_, 'x, _) prog) (body_ended w p h))
         (\<lambda>x. body_ended w p h (Err x)) (body_ended w p h) (Ok now1 :: ('x, instant) res) (fst t, s')"
      by (auto simp: wp_handle wp_ret intro!: c_wait_open_any opened [OF a] body_dropping
          went_same_ex [OF a] went_logged [OF a _ hstep.transport])
  qed
qed

text \<open>The whole handshake: a session, or a failure that still has to be followed by the Kick.\<close>

definition handshake_ended ::
  "wire \<Rightarrow> phase \<Rightarrow> hevent list \<Rightarrow> ('x, 'rtc serve_outcome) res \<Rightarrow> 'w host_run \<Rightarrow> bool"
where
  "handshake_ended w p h r s \<longleftrightarrow>
     (case r of
        Ok (Session v c) \<Rightarrow> went (hstep w) p h (Done VSession) s
      | Ok (Failed f) \<Rightarrow> went (hstep w) p h (Kicking f) s
      | Ok ViewerLeft \<Rightarrow> False
      | Err x \<Rightarrow> False
      | _ \<Rightarrow> (\<exists>q. went (hstep w) p h q s))"

lemma host_handshake_ended:
  assumes "went (hstep w) p h Answered s"
  shows "wp (host_handshake L cfg sk approve ch :: (_, 'x, _) prog) (handshake_ended w p h) s"
proof -
  have drop: "wp (bnd (drop_channel L c) (\<lambda>_. ret (Failed f)) :: (_, 'x, _) prog) (handshake_ended w p h) s'"
    if g: "went (hstep w) p h q s'" "hstep w q EvDropped (Kicking f)" for c f q s'
    unfolding wp_bnd
    by (rule drop_channel_any)
      (auto simp: handshake_ended_def wp_ret intro!: went_logged [OF g(1) _ g(2)] went_same_ex [OF g(1)])
  show ?thesis
    unfolding host_handshake_def wp_scoped
    by (rule wp_mono [OF host_handshake_body_ended [where w = w and p = p and h = h]])
      (use assms drop in \<open>auto simp: body_ended_def wp_ret handshake_ended_def [of _ _ _ "Ok (Session _ _)"]
        handshake_ended_def [of _ _ _ Panic] handshake_ended_def [of _ _ _ Hang]
        split: res.splits sum.splits\<close>)
qed

subsection \<open>The attempt\<close>

lemma went_note:
  "went (hstep w) p h q s \<Longrightarrow> hstep w q e q' \<Longrightarrow> went (hstep w) p h q' (s\<lparr>history := history s @ [e]\<rparr>)"
  by (rule went_step) auto

lemma attempt_ended_ended:
  assumes "handshake_ended w p h (Ok out :: ('x, _) res) s"
  shows "wp (attempt_ended L out) (ended w p h) s"
  using assms by (cases out) (auto simp: handshake_ended_def wp_ret intro: kicked_ended)

lemma handshake_then_ended:
  assumes "went (hstep w) p h Answered s"
  shows "wp (bnd (host_handshake L cfg sk approve ch) (attempt_ended L)) (ended w p h) s"
  unfolding wp_bnd
proof (rule wp_mono [OF host_handshake_ended [OF assms]])
  fix r :: "(host_error, 'b serve_outcome) res" and s' :: "'a host_run"
  assume e: "handshake_ended w p h r s'"
  then show "after (\<lambda>a. wp (attempt_ended L a) (ended w p h)) (\<lambda>x. ended w p h (Err x)) (ended w p h) r s'"
    by (cases r) (auto simp: handshake_ended_def [of _ _ _ "Err _"] handshake_ended_def [of _ _ _ Panic]
        handshake_ended_def [of _ _ _ Hang] intro: attempt_ended_ended)
qed

text \<open>Inside the scope of the channel: an \<open>Inl\<close> or an error still has the channel to drop.\<close>

definition scope_ended ::
  "wire \<Rightarrow> phase \<Rightarrow> hevent list \<Rightarrow> (host_error, 'rtc serve_outcome + unit) res \<Rightarrow>
   'rtc channel \<times> 'w host_run \<Rightarrow> bool"
where
  "scope_ended w p h r t \<longleftrightarrow>
     (case r of
        Ok (Inl out) \<Rightarrow> verdict_of out \<noteq> VSession \<and> went (hstep w) p h (Leaving (verdict_of out)) (snd t)
      | Ok (Inr _) \<Rightarrow> went (hstep w) p h Answered (snd t)
      | Err x \<Rightarrow> went (hstep w) p h (Leaving VLinkError) (snd t)
      | _ \<Rightarrow> (\<exists>q. went (hstep w) p h q (snd t)))"

lemma scope_ended_simps [simp]:
  "scope_ended w p h (Ok (Inl out)) t =
     (verdict_of out \<noteq> VSession \<and> went (hstep w) p h (Leaving (verdict_of out)) (snd t))"
  "scope_ended w p h (Ok (Inr u)) t = went (hstep w) p h Answered (snd t)"
  "scope_ended w p h (Err x) t = went (hstep w) p h (Leaving VLinkError) (snd t)"
  "scope_ended w p h Panic t = (\<exists>q. went (hstep w) p h q (snd t))"
  "scope_ended w p h Hang t = (\<exists>q. went (hstep w) p h q (snd t))"
  by (simp_all add: scope_ended_def)

lemma reject_in_scope:
  fixes t :: "'rtc channel \<times> 'w host_run"
  assumes ok: "wire_ok (l_wire L)" and g: "went (hstep (l_wire L)) p h Confirmed (snd t)"
  shows "wp (bnd (on_snd (reject_relay L FMalformed)) (\<lambda>out. ret (Inl out)))
    (scope_ended (l_wire L) p h) t"
proof -
  have kick: "wp (kicked L FMalformed) (\<lambda>r b. after (\<lambda>out. wp (ret (Inl out)) (scope_ended (l_wire L) p h))
      (\<lambda>x. scope_ended (l_wire L) p h (Err x)) (scope_ended (l_wire L) p h) r (fst t, b)) u"
    if k: "went (hstep (l_wire L)) p h (KickingOpen FMalformed) u" for u
    by (rule kicked_any) (auto simp: wp_ret intro!: went_same_ex [OF k]
        went_logged [OF k _ hstep.kick_open] went_logged [OF k _ hstep.link_error_open])
  show ?thesis
    unfolding wp_bnd wp_on_snd reject_relay_def
    by (rule send_relay_any [OF ok]) (auto intro!: kick went_same_ex [OF g]
        went_logged [OF g _ hstep.bad_sdp] went_logged [OF g _ hstep.link_error_open])
qed

lemma send_answer_ended:
  fixes t :: "'rtc channel \<times> 'w host_run"
  assumes ok: "wire_ok (l_wire L)" and g: "went (hstep (l_wire L)) p h Confirmed (snd t)"
  shows "wp (send_answer L sk a) (scope_ended (l_wire L) p h) t"
proof (cases a)
  case None
  then show ?thesis using reject_in_scope [OF assms] by simp
next
  case (Some sdp)
  have "wp (bnd (on_snd (send_relay L (PAnswer sa))) (\<lambda>_. ret (Inr ()))) (scope_ended (l_wire L) p h) t" for sa
    unfolding wp_bnd wp_on_snd
    by (rule send_relay_any [OF ok]) (auto simp: wp_ret intro!: went_same_ex [OF g]
          went_logged [OF g _ hstep.answer] went_logged [OF g _ hstep.link_error_open])
  then show ?thesis
    using Some g
    by (auto simp: wp_bnd [of "run_local _ _"] wp_run_local infallible_def handle_def ret_def panic_def
        split: prod.splits res.splits)
qed

lemma answer_offer_ended:
  fixes t :: "'rtc channel \<times> 'w host_run"
  assumes ok: "wire_ok (l_wire L)" and c: "went (hstep (l_wire L)) p h Confirmed (snd t)"
  shows "wp (answer_offer L sk offer) (scope_ended (l_wire L) p h) t"
proof -
  have g: "went (hstep (l_wire L)) p h Confirmed (snd (c', snd t\<lparr>world := w'\<rparr>))" for c' :: "'rtc channel" and w'
    using went_same [OF c same_world] by simp
  show ?thesis
    unfolding answer_offer_def wp_bnd wp_attempt_ok wp_on_chan
    by (rule wp_any) (auto simp: after_def simp del: send_answer.simps intro!: send_answer_ended [OF ok g] exI [of _ Confirmed]
        g [simplified] split: res.splits)
qed

lemma attempt_answer_ended:
  assumes ok: "wire_ok (l_wire L)" and c: "went (hstep (l_wire L)) p h Confirmed s"
  shows "wp (attempt_answer L cfg approve sk sealed :: ('w host_run, _, 'rtc serve_outcome) prog)
    (ended (l_wire L) p h) s"
proof -
  let ?w = "l_wire L"
  have drop: "wp (bnd (drop_channel L ch) k) (ended ?w p h) s'"
    if g: "went (hstep ?w) p h (Leaving v) s'" and v: "v \<noteq> VSession"
      and k: "\<And>u. went (hstep ?w) p h (Done v) u \<Longrightarrow> wp (k ()) (ended ?w p h) u"
    for ch v s' and k :: "unit \<Rightarrow> ('w host_run, host_error, 'rtc serve_outcome) prog"
    unfolding wp_bnd
    by (rule drop_channel_any) (auto intro!: k went_logged [OF g _ hstep.leave [OF v]] went_same_ex [OF g])
  have scope: "wp (scoped L ch (answer_offer L sk offer)
      (\<lambda>_ ch. bnd (host_handshake L cfg sk approve ch) (attempt_ended L))) (ended ?w p h) s'"
    if g: "went (hstep ?w) p h Confirmed s'" for ch offer s'
    unfolding wp_scoped
    by (rule wp_mono [OF answer_offer_ended [OF ok, where p = p and h = h]])
      (use g in \<open>auto simp: scope_ended_def wp_ret wp_fail split: res.splits sum.splits
        intro!: drop handshake_then_ended\<close>)
  have peer: "wp (handle (in_world (peer_new (l_os L) (l_rtc L) (hc_bind_ips cfg)))
      (\<lambda>peer. scoped L (channel_new peer) (answer_offer L sk offer)
                (\<lambda>_ ch. bnd (host_handshake L cfg sk approve ch) (attempt_ended L)))
      (\<lambda>_. kicked L FTransport)) (ended ?w p h) s" for offer
  proof -
    have kick: "wp (kicked L FTransport) (ended ?w p h) u" if g: "went (hstep ?w) p h Confirmed u" for u
      by (rule kicked_any) (auto intro!: went_same_ex [OF g] went_logged [OF g _ hstep.no_peer]
          went_logged [OF g _ hstep.link_error])
    note g = went_same [OF c same_world]
    show ?thesis
      unfolding wp_handle wp_in_world
      by (rule wp_any) (auto simp: after_def intro!: scope kick g exI [of _ Confirmed] split: res.splits)
  qed
  have reject: "wp (reject_relay L FMalformed) (ended ?w p h) s"
    by (rule reject_ended [OF ok c]) (auto intro: hstep.bad_offer hstep.link_error)
  show ?thesis
    unfolding attempt_answer_def wp_bnd [of "run_local _ _"] wp_run_local
    using c by (auto simp: after_def intro!: peer reject split: res.splits option.splits)
qed

lemma attempt_got_confirm_ended:
  assumes ok: "wire_ok (l_wire L)" and r: "went (hstep (l_wire L)) p h Replied s"
    and l: "logged (EvGot v) s s'"
  shows "wp (attempt_got_confirm L cfg approve pake (relay_of (l_wire L) v)) (ended (l_wire L) p h) s'"
proof -
  note go = went_logged [OF r l]
  have confirm: ?thesis if c: "relay_of (l_wire L) v = RelMsg (PConfirm m so)" for m so
  proof -
    have g: "went (hstep (l_wire L)) p h ConfirmGot s'" by (rule go, rule hstep.confirm, rule c)
    have reject: "wp (reject_relay L FWrongCode) (ended (l_wire L) p h) s'"
      by (rule reject_ended [OF ok g]) (auto intro: hstep.wrong_code hstep.link_error)
    have answer: "wp (attempt_answer L cfg approve sk so) (ended (l_wire L) p h)
        (s'\<lparr>h_limiter := x, history := history s' @ [EvSuccessRecorded]\<rparr>)" for x sk
      by (rule attempt_answer_ended [OF ok], rule went_step [OF g _ hstep.success]) simp
    have state: "s2 = s'" if "host_confirm (l_spake L) pake m s' = (x, s2)" for x s2
      using that by (auto simp: host_confirm_cases split: if_splits sum.splits dest: derive_state)
    show ?thesis
      unfolding attempt_got_confirm_def c relay.case pake_msg.case wp_handle
    proof (rule wpI)
      fix x s2
      assume "host_confirm (l_spake L) pake m s' = (x, s2)"
      from state [OF this] show "after
         (\<lambda>sk. wp (bnd (modify (\<lambda>s. s\<lparr>h_limiter := limiter_record_success (h_limiter s)\<rparr>))
            (\<lambda>_. bnd (record_event EvSuccessRecorded) (\<lambda>_. attempt_answer L cfg approve sk so)))
            (ended (l_wire L) p h))
         (\<lambda>_. wp (reject_relay L FWrongCode) (ended (l_wire L) p h)) (ended (l_wire L) p h) x s2"
        using g reject answer
        by (cases x) (auto simp: wp_bnd wp_modify wp_record_event)
    qed
  qed
  have bad: "wp (reject_relay L FMalformed) (ended (l_wire L) p h) s'"
    if "relay_of (l_wire L) v = RelMalformed \<or>
      (\<exists>m. relay_of (l_wire L) v = RelMsg m \<and> (\<nexists>mac so. m = PConfirm mac so))"
    by (rule rejecting_ended [OF ok], rule go, rule hstep.bad_confirm, rule that)
  show ?thesis
  proof (cases "\<exists>m so. relay_of (l_wire L) v = RelMsg (PConfirm m so)")
    case True
    then show ?thesis using confirm by blast
  next
    case False
    have late: "wp (kicked L NoConfirm) (ended (l_wire L) p h) s'" if "relay_of (l_wire L) v = RelTimedOut"
      by (rule kicked_ended, rule go, rule hstep.late_confirm, rule that)
    have left: "went (hstep (l_wire L)) p h (Done (VFailed NoConfirm)) s'" if "relay_of (l_wire L) v = RelLeft"
      by (rule go, rule hstep.left_replied, rule that)
    show ?thesis
      using False bad late left
      by (auto simp: attempt_got_confirm_def wp_ret split: relay.splits pake_msg.splits)
  qed
qed

text \<open>Recording the failure, with the new code it may ask for, leads to \<open>Counted\<close>.\<close>

lemma count_failure_went:
  assumes g: "went (hstep w) p h Started s"
  shows "wp (count_failure L :: (_, 'x, _) prog)
    (\<lambda>r s'. case r of Ok _ \<Rightarrow> went (hstep w) p h Counted s' | Err x \<Rightarrow> False | _ \<Rightarrow> (\<exists>q. went (hstep w) p h q s')) s"
proof -
  let ?Q = "\<lambda>r s'. case r of Ok _ \<Rightarrow> went (hstep w) p h Counted s' | Err x \<Rightarrow> False | _ \<Rightarrow> (\<exists>q. went (hstep w) p h q s')"
  have "wp (bnd (record_event (EvFailureRecorded ta b)) (\<lambda>_. if b then renew_code L else ret ()) :: (_, 'x, _) prog) ?Q
      (s'\<lparr>h_limiter := l\<rparr>)" if s': "same s s'" for b s' l ta
  proof (cases b)
    case False
    have "went (hstep w) p h Counted (s'\<lparr>h_limiter := l, history := history s' @ [EvFailureRecorded ta False]\<rparr>)"
      by (rule went_step [OF went_same [OF g s'] _ hstep.failure_kept]) simp
    with False show ?thesis by (simp add: wp_bnd wp_record_event wp_ret)
  next
    case True
    have c: "went (hstep w) p h Counting (s'\<lparr>h_limiter := l, history := history s' @ [EvFailureRecorded ta True]\<rparr>)"
      by (rule went_step [OF went_same [OF g s'] _ hstep.failure_rotates]) simp
    show ?thesis
      using True by (auto simp: wp_bnd wp_record_event intro!: renew_code_any went_same_ex [OF c]
          went_step [OF c _ hstep.rotated])
  qed
  then show ?thesis
    unfolding count_failure_def wp_bnd [of "get_now L"]
    by (intro get_now_any) (simp add: wp_bnd [of "gets _"] wp_gets wp_bnd [of "modify _"] wp_modify)
qed

lemma attempt_reply_ended:
  assumes ok: "wire_ok (l_wire L)" and g: "went (hstep (l_wire L)) p h Started s"
  shows "wp (attempt_reply L cfg approve pa) (ended (l_wire L) p h) s"
proof -
  let ?E = "ended (l_wire L) p h"
  have recv: "wp (bnd (recv_relay L d) (attempt_got_confirm L cfg approve pake)) ?E s'"
    if r: "went (hstep (l_wire L)) p h Replied s'" for d pake s'
    unfolding wp_bnd
    by (rule recv_relay_any) (auto intro!: attempt_got_confirm_ended [OF ok r] went_same_ex [OF r]
        went_logged [OF r _ hstep.link_error])
  have send: "wp (bnd (send_relay L (PReply pb m)) (\<lambda>_. bnd (recv_relay L d) (attempt_got_confirm L cfg approve pake))) ?E s'"
    if c: "went (hstep (l_wire L)) p h Counted s'" for pb m d pake s'
    unfolding wp_bnd [of "send_relay _ _"]
    by (rule send_relay_any [OF ok]) (auto intro!: recv went_same_ex [OF c]
        went_logged [OF c _ hstep.reply] went_logged [OF c _ hstep.link_error])
  have count: "wp (bnd (count_failure L) (\<lambda>_. bnd (send_relay L (PReply pb m))
        (\<lambda>_. bnd (recv_relay L d) (attempt_got_confirm L cfg approve pake)))) ?E s'"
    if t: "went (hstep (l_wire L)) p h Started s'" for pb m d pake s'
    unfolding wp_bnd [of "count_failure _"]
    by (rule wp_mono [OF count_failure_went [OF t]])
      (auto simp: after_def intro!: send split: res.splits)
  have reject: "wp (reject_relay L FMalformed) ?E s'" if t: "went (hstep (l_wire L)) p h Started s'" for s'
    by (rule reject_ended [OF ok t]) (auto intro: hstep.bad_point hstep.link_error)
  have state: "s2 = s'" if "host_respond (l_spake L) code hid pa rnd s' = (x, s2)" for code hid rnd x s'
      and s2 :: "'a host_run"
  proof -
    have "preserves (\<lambda>s. s = s') (host_respond (l_spake L) code hid pa rnd)"
      unfolding host_respond_def by (intro preserves_intros) (auto intro!: preserves_intros split: option.splits)
    from preservesD [OF this refl that] show ?thesis .
  qed
  have t: "went (hstep (l_wire L)) p h Started (s\<lparr>world := w'\<rparr>)" for w'
    by (rule went_same [OF g same_world])
  show ?thesis
    unfolding attempt_reply_def wp_bnd [of "in_world _"] wp_in_world wp_ext_total
    by (auto simp: wp_bnd [of "gets _"] wp_gets wp_handle after_def
        intro!: wpI count [OF t] reject [OF t] t exI [of _ Started] split: prod.splits res.splits dest!: state
        simp del: split_paired_All)
qed

lemma attempt_got_start_ended:
  assumes ok: "wire_ok (l_wire L)" and a: "went (hstep (l_wire L)) p h Allowed s"
    and l: "logged (EvGot v) s s'"
  shows "wp (attempt_got_start L cfg approve (relay_of (l_wire L) v)) (ended (l_wire L) p h) s'"
proof -
  note go = went_logged [OF a l]
  have bad: "wp (reject_relay L FMalformed) (ended (l_wire L) p h) s'"
    if "relay_of (l_wire L) v = RelMalformed \<or>
      (\<exists>m. relay_of (l_wire L) v = RelMsg m \<and> (\<nexists>pa. m = PStart pa))"
    by (rule rejecting_ended [OF ok], rule go, rule hstep.bad_start, rule that)
  have start: "wp (attempt_reply L cfg approve pa) (ended (l_wire L) p h) s'"
    if "relay_of (l_wire L) v = RelMsg (PStart pa)" for pa
    by (rule attempt_reply_ended [OF ok], rule go, rule hstep.start, rule that)
  have late: "wp (kicked L (FTimeout StPake)) (ended (l_wire L) p h) s'"
    if "relay_of (l_wire L) v = RelTimedOut"
    by (rule kicked_ended, rule go, rule hstep.late_start, rule that)
  have left: "went (hstep (l_wire L)) p h (Done VLeft) s'" if "relay_of (l_wire L) v = RelLeft"
    by (rule go, rule hstep.left_early, rule that)
  show ?thesis
    using bad start late left
    by (auto simp: attempt_got_start_def wp_ret split: relay.splits pake_msg.splits)
qed

lemma attempt_run_ended:
  assumes ok: "wire_ok (l_wire L)" and j: "went (hstep (l_wire L)) p h Joined s"
  shows "wp (attempt L cfg approve) (ended (l_wire L) p h) s"
proof -
  let ?E = "ended (l_wire L) p h"
  have refuse: "wp (bnd (send_relay L (PRetryAfter ms)) (\<lambda>_. kicked L WaitRequired)) ?E u"
    if r: "went (hstep (l_wire L)) p h Refused u" for ms u
    unfolding wp_bnd
    by (rule send_relay_any [OF ok]) (auto intro!: kicked_ended went_same_ex [OF r]
        went_logged [OF r _ hstep.retry_after] went_logged [OF r _ hstep.link_error])
  have allow: "wp (bnd (recv_relay L d) (attempt_got_start L cfg approve)) ?E u"
    if a: "went (hstep (l_wire L)) p h Allowed u" for d u
    unfolding wp_bnd
    by (rule recv_relay_any) (auto intro!: attempt_got_start_ended [OF ok a] went_same_ex [OF a]
        went_logged [OF a _ hstep.link_error])
  show ?thesis
    unfolding attempt_def wp_bnd [of "get_now L"]
  proof (rule get_now_any)
    fix t s'
    assume "same s s'"
    then have j': "went (hstep (l_wire L)) p h Joined s'" by (rule went_same [OF j])
    have "went (hstep (l_wire L)) p h (case v of Inl d \<Rightarrow> Refused | Inr _ \<Rightarrow> Allowed)
        (s'\<lparr>history := history s' @ [EvChecked ta v]\<rparr>)" for v ta
      by (rule went_step [OF j'])
        (auto split: sum.splits intro: hstep.refuse hstep.allow)
    from this [of "limiter_check (h_limiter s') t" t]
    show "after (\<lambda>t. wp (bnd (gets (\<lambda>s. limiter_check (h_limiter s) t)) (\<lambda>verdict.
         bnd (record_event (EvChecked t verdict)) (\<lambda>_.
         case verdict of
           Inl wait \<Rightarrow> bnd (send_relay L (PRetryAfter (wait_ms wait))) (\<lambda>_. kicked L WaitRequired)
         | Inr _ \<Rightarrow> bnd (recv_relay L (signaling_step (hc_timeouts cfg))) (attempt_got_start L cfg approve)))) ?E)
        (\<lambda>x. ?E (Err x)) ?E (Ok t :: (host_error, instant) res) s'"
      by (auto simp: wp_bnd [of "gets _"] wp_gets wp_bnd [of "record_event _"] wp_record_event
          intro!: refuse allow split: sum.splits)
  qed
qed

lemma serve_next_ended:
  assumes ok: "wire_ok (l_wire L)"
  shows "went (hstep (l_wire L)) p h Waiting s \<Longrightarrow> wp (serve_next L cfg approve n) (ended (l_wire L) p h) s"
proof (induction n arbitrary: s)
  case (Suc n)
  note w = Suc.prems
  show ?case
    unfolding serve_next.simps wp_bnd wp_map_err
    by (rule link_recv_any) (auto intro!: attempt_run_ended [OF ok] Suc.IH went_same_ex [OF w]
        went_logged [OF w _ hstep.join] went_logged [OF w _ hstep.skip] went_logged [OF w _ hstep.link_error])
qed (auto simp: wp_hang)

end
