(* ===== verification/HostSafety.thy ===== *)
theory HostSafety
  imports HostProtocol
begin

text \<open>
  Safety of the host: invariants of the machine of \<open>HostProtocol\<close>, and with them what every run of
  \<open>serve_next\<close> has done, whatever the viewer, the server, the network and the user do.
\<close>

section \<open>Invariants of the machine\<close>

lemma not_told [simp]:
  "told w (EvGot v) = None" "told w (EvLinkError x) = None" "told w (EvChecked ta c) = None"
  "told w (EvFailureRecorded ta b) = None" "told w EvSuccessRecorded = None" "told w EvNewCode = None"
  "told w (EvOpened q) = None" "told w (EvTold m) = None" "told w (EvHeard n) = None"
  "told w (EvTransportError t) = None" "told w (EvAsked a) = None" "told w EvDropped = None"
  "told w (EvSent HSKick) = None" "told w EvLinkDropped = None"
  by (simp_all add: told_def)

text \<open>The milestones of a connection. A milestone of a history is one of its events: the guess was
  allowed, counted as a failure before the code was used, replied to, found correct, the offer
  answered, the channel open, the greeting sent, the user's consent, and the acceptance.\<close>

datatype milestone =
    MAllowed | MCounted | MReplied | MCorrect | MAnswered | MOpen | MGreeted | MApproved | MAccepted

definition all_milestones :: "milestone list" where
  "all_milestones =
     [MAllowed, MCounted, MReplied, MCorrect, MAnswered, MOpen, MGreeted, MApproved, MAccepted]"

fun milestone_told :: "pake_msg \<Rightarrow> milestone option" where
  "milestone_told (PReply _ _) = Some MReplied"
| "milestone_told (PAnswer _) = Some MAnswered"
| "milestone_told _ = None"

fun milestone_ev :: "hevent \<Rightarrow> milestone option" where
  "milestone_ev (EvChecked _ (Inr _)) = Some MAllowed"
| "milestone_ev (EvFailureRecorded _ _) = Some MCounted"
| "milestone_ev EvSuccessRecorded = Some MCorrect"
| "milestone_ev (EvOpened Ready) = Some MOpen"
| "milestone_ev (EvTold (CHello _)) = Some MGreeted"
| "milestone_ev (EvAsked (Some True)) = Some MApproved"
| "milestone_ev (EvTold (CDecision Accepted)) = Some MAccepted"
| "milestone_ev _ = None"

definition milestone_of :: "wire \<Rightarrow> hevent \<Rightarrow> milestone option" where
  "milestone_of w e = (case told w e of Some m \<Rightarrow> milestone_told m | None \<Rightarrow> milestone_ev e)"

definition milestones :: "wire \<Rightarrow> hevent list \<Rightarrow> milestone list" where
  "milestones w tr = List.map_filter (milestone_of w) tr"

lemma milestones_simps [simp]:
  "milestones w [] = []"
  "milestones w (tr @ [e]) =
     milestones w tr @ (case milestone_of w e of Some m \<Rightarrow> [m] | None \<Rightarrow> [])"
  by (auto simp: milestones_def List.map_filter_def split: option.splits)

text \<open>How many milestones a phase has behind it, where the phase tells.\<close>

fun level :: "phase \<Rightarrow> nat option" where
  "level Waiting = Some 0" | "level Joined = Some 0" | "level Refused = Some 0"
| "level Allowed = Some 1" | "level Started = Some 1"
| "level Counting = Some 2" | "level Counted = Some 2"
| "level Replied = Some 3" | "level ConfirmGot = Some 3"
| "level Confirmed = Some 4" | "level Answered = Some 5" | "level DataOpen = Some 6"
| "level Greeted = Some 7" | "level HelloGot = Some 7" | "level Asking = Some 7"
| "level AskAgain = Some 7" | "level Declined = Some 7" | "level Agreed = Some 8"
| "level Decided = Some 9" | "level (Done VSession) = Some 9"
| "level _ = None"

lemma after_ask_cases:
  "after_ask a = (case a of None \<Rightarrow> Asking | Some b \<Rightarrow> if b then Agreed else Declined)"
  by (cases a rule: after_ask.cases) auto

lemma hstep_level:
  "hstep w p e q \<Longrightarrow>
     (case milestone_of w e of
        None \<Rightarrow> level q = None \<and> level p \<noteq> Some 9 \<or> level q = level p
      | Some m \<Rightarrow> (\<exists>k<9. level p = Some k \<and> level q = Some (Suc k) \<and> m = all_milestones ! k))"
proof (induction rule: hstep.induct)
  case (leave v)
  then show ?case by (cases v) (auto simp: milestone_of_def)
qed (auto simp: milestone_of_def all_milestones_def after_ask_cases split: option.splits)

lemma all_milestones_snoc:
  "k < 9 \<Longrightarrow> take k all_milestones @ [all_milestones ! k] = take (Suc k) all_milestones"
  by (simp add: take_Suc_conv_app_nth all_milestones_def del: take_Suc_Cons)

text \<open>The milestones of a history, with the number the phase tells; a phase that does not tell has
  not seen them all.\<close>

definition passed :: "wire \<Rightarrow> hevent list \<Rightarrow> phase \<Rightarrow> nat \<Rightarrow> bool" where
  "passed w tr q k \<longleftrightarrow> k \<le> 9 \<and> milestones w tr = take k all_milestones \<and>
     (case level q of None \<Rightarrow> k < 9 | Some j \<Rightarrow> k = j)"

lemma hpath_milestones: "hpath w Waiting tr q \<Longrightarrow> \<exists>k. passed w tr q k"
proof (induction rule: path.induct)
  case path_nil
  show ?case by (auto simp: passed_def intro!: exI [of _ 0])
next
  case (path_snoc tr q e r)
  then obtain k where k: "passed w tr q k" by blast
  note step = hstep_level [OF path_snoc.hyps(2)]
  show ?case
  proof (cases "milestone_of w e")
    case None
    with step k show ?thesis by (auto simp: passed_def split: option.splits intro!: exI [of _ k])
  next
    case (Some m)
    with step k have "k < 9 \<and> level r = Some (Suc k) \<and> m = all_milestones ! k"
      by (auto simp: passed_def)
    with Some k show ?thesis
      by (auto simp: passed_def all_milestones_snoc intro!: exI [of _ "Suc k"])
  qed
qed

text \<open>Kicks: at most one, and where a phase comes from one.\<close>

definition is_kick :: "hevent \<Rightarrow> bool" where
  "is_kick e \<longleftrightarrow> e = EvSent HSKick"

definition kicks :: "hevent list \<Rightarrow> nat" where
  "kicks tr = length (filter is_kick tr)"

lemma kicks_simps [simp]:
  "kicks [] = 0" "kicks (tr @ [e]) = kicks tr + (if is_kick e then 1 else 0)"
  by (simp_all add: kicks_def)

lemma told_not_kick: "told w e = Some m \<Longrightarrow> \<not> is_kick e"
  by (auto simp: is_kick_def)

definition ends_with_left :: "wire \<Rightarrow> hevent list \<Rightarrow> bool" where
  "ends_with_left w tr \<longleftrightarrow> (\<exists>tr' v. tr = tr' @ [EvGot v] \<and> relay_of w v = RelLeft)"

text \<open>The kicks of a failure: one, except for a viewer that has left by itself.\<close>

definition failure_kicks :: "wire \<Rightarrow> attempt_failure \<Rightarrow> hevent list \<Rightarrow> bool" where
  "failure_kicks w f tr \<longleftrightarrow> kicks tr = 1 \<or> f = NoConfirm \<and> kicks tr = 0 \<and> ends_with_left w tr"

fun kick_inv :: "wire \<Rightarrow> phase \<Rightarrow> hevent list \<Rightarrow> bool" where
  "kick_inv w (Done (VFailed f)) tr = failure_kicks w f tr"
| "kick_inv w (Leaving (VFailed f)) tr = (kicks tr = 1)"
| "kick_inv w p tr = (kicks tr = 0)"

lemma kick_inv_step:
  "hstep w p e q \<Longrightarrow> kick_inv w p tr \<Longrightarrow> kick_inv w q (tr @ [e])"
proof (induction rule: hstep.induct)
  case (leave v)
  then show ?case by (cases v) (auto simp: failure_kicks_def is_kick_def)
next
  case (left_replied v)
  then show ?case by (auto simp: failure_kicks_def is_kick_def ends_with_left_def)
qed (auto simp: failure_kicks_def is_kick_def after_ask_cases split: option.splits)

lemma hpath_kicks: "hpath w Waiting tr q \<Longrightarrow> kick_inv w q tr"
  by (induction rule: path.induct) (auto intro: kick_inv_step)

text \<open>The channel: in scope from the answer on, until it is dropped or handed to the session.\<close>

fun on_data :: "phase \<Rightarrow> bool" where
  "on_data Answered = True" | "on_data DataOpen = True" | "on_data Greeted = True"
| "on_data HelloGot = True" | "on_data Asking = True" | "on_data AskAgain = True"
| "on_data Agreed = True" | "on_data Declined = True" | "on_data Decided = True"
| "on_data (Lingering f) = True" | "on_data (Dropping f) = True" | "on_data (Done VSession) = True"

| "on_data _ = False"

definition drops :: "hevent list \<Rightarrow> nat" where
  "drops tr = length (filter (\<lambda>e. e = EvDropped) tr)"

lemma drops_simps [simp]:
  "drops [] = 0" "drops (tr @ [e]) = drops tr + (if e = EvDropped then 1 else 0)"
  by (simp_all add: drops_def)

fun before_channel :: "phase \<Rightarrow> bool" where
  "before_channel (Kicking f) = False" | "before_channel (Done v) = False"
| "before_channel _ = True"

definition drop_inv :: "wire \<Rightarrow> phase \<Rightarrow> hevent list \<Rightarrow> bool" where
  "drop_inv w p tr \<longleftrightarrow>
     (on_data p \<longrightarrow> drops tr = 0) \<and> (before_channel p \<longrightarrow> drops tr = 0) \<and> drops tr \<le> 1 \<and>
     (MAnswered \<in> set (milestones w tr) \<longrightarrow> on_data p \<or> drops tr = 1)"

lemma answer_milestone:
  "milestone_of w e = Some MAnswered \<longleftrightarrow> (\<exists>a. told w e = Some (PAnswer a))"
proof -
  have "milestone_ev e \<noteq> Some MAnswered" by (cases e rule: milestone_ev.cases) auto
  moreover have "milestone_told m = Some MAnswered \<longleftrightarrow> (\<exists>a. m = PAnswer a)" for m
    by (cases m) auto
  ultimately show ?thesis by (auto simp: milestone_of_def split: option.splits)
qed

lemma answered_snoc:
  "MAnswered \<in> set (milestones w (tr @ [e])) \<longleftrightarrow>
     MAnswered \<in> set (milestones w tr) \<or> (\<exists>a. told w e = Some (PAnswer a))"
  unfolding answer_milestone [symmetric] by (auto split: option.splits)

lemma drop_inv_step:
  "hstep w p e q \<Longrightarrow> drop_inv w p tr \<Longrightarrow> drop_inv w q (tr @ [e])"
proof (induction rule: hstep.induct)
  case (leave v)
  then show ?case by (cases v) (auto simp: drop_inv_def answered_snoc simp del: milestones_simps)
next
  case (transport p x)
  then show ?case by (auto simp: drop_inv_def answered_snoc simp del: milestones_simps)
qed (auto simp: drop_inv_def answered_snoc after_ask_cases simp del: milestones_simps
  split: option.splits)

lemma hpath_drops: "hpath w Waiting tr q \<Longrightarrow> drop_inv w q tr"
proof (induction rule: path.induct)
  case (path_snoc tr q e r)
  then show ?case by (blast intro: drop_inv_step)
qed (simp add: drop_inv_def)

text \<open>The only way to a session, backwards.\<close>


lemma hpath_session:
  assumes "hpath w Waiting tr (Done VSession)"
  shows "\<exists>h. tr = h @ [EvAsked (Some True), EvTold (CDecision Accepted), EvNewCode]"
proof -
  have asks: "after_ask a = Agreed \<longleftrightarrow> a = Some True" "after_ask a \<noteq> Decided" "after_ask a \<noteq> Done VSession" for a
    by (auto simp: after_ask_cases split: option.splits)
  note asks = asks asks(2,3) [symmetric]
  from path_end [OF assms] obtain tr1 e r where 1: "tr = tr1 @ [e]" "hpath w Waiting tr1 r"
    "hstep w r e (Done VSession)" by blast
  from 1(3) have "r = Decided \<and> e = EvNewCode" using asks by cases auto
  with 1 path_end [of "hstep w" Waiting tr1 Decided] obtain tr2 e2 r2 where 2: "tr1 = tr2 @ [e2]"
    "hpath w Waiting tr2 r2" "hstep w r2 e2 Decided" by blast
  from 2(3) have "r2 = Agreed \<and> e2 = EvTold (CDecision Accepted)" using asks by cases auto
  with 2 path_end [of "hstep w" Waiting tr2 Agreed] obtain tr3 e3 r3 where 3: "tr2 = tr3 @ [e3]"
    "hstep w r3 e3 Agreed" by blast
  from 3(2) have "e3 = EvAsked (Some True)" using asks(1) by cases (auto simp: eq_commute [of Agreed])
  with 1 2 3 \<open>r = Decided \<and> e = EvNewCode\<close> \<open>r2 = Agreed \<and> e2 = _\<close> show ?thesis by simp
qed

end
