(* ===== verification/HostAccount.thy ===== *)
theory HostAccount
  imports HostSafety
begin

text \<open>
  What the host pays for a guess: the limiter and the code at the end of a run are those of its
  history, replayed.  Together with the machine of \<open>HostProtocol\<close> and the limiter of \<open>Attempts\<close> this
  bounds the guesses of all viewers of a host, over any number of runs of \<open>serve_next\<close>.
\<close>

section \<open>Replaying a history\<close>

fun billed :: "limiter \<Rightarrow> hevent \<Rightarrow> limiter" where
  "billed l (EvFailureRecorded t b) = fst (limiter_record_failure l t)"
| "billed l EvSuccessRecorded = limiter_record_success l"
| "billed l _ = l"

text \<open>The limiter answers and the rotations an event tells of are those of the limiter.\<close>

fun true_to :: "limiter \<Rightarrow> hevent \<Rightarrow> bool" where
  "true_to l (EvChecked t v) = (v = limiter_check l t)"
| "true_to l (EvFailureRecorded t b) = (b = snd (limiter_record_failure l t))"
| "true_to l _ = True"

fun bill :: "limiter \<Rightarrow> hevent list \<Rightarrow> limiter" where
  "bill l [] = l"
| "bill l (e # es) = bill (billed l e) es"

fun honest :: "limiter \<Rightarrow> hevent list \<Rightarrow> bool" where
  "honest l [] = True"
| "honest l (e # es) = (true_to l e \<and> honest (billed l e) es)"

lemma bill_append [simp]: "bill l (xs @ ys) = bill (bill l xs) ys"
  by (induction xs arbitrary: l) auto

lemma honest_append [simp]: "honest l (xs @ ys) = (honest l xs \<and> honest (bill l xs) ys)"
  by (induction xs arbitrary: l) auto

definition accounts :: "limiter \<Rightarrow> ustr \<Rightarrow> hevent list \<Rightarrow> 'w host_run \<Rightarrow> bool" where
  "accounts l c h s \<longleftrightarrow>
     (\<exists>tr. history s = h @ tr \<and> honest l tr \<and> h_limiter s = bill l tr \<and>
        (if EvNewCode \<in> set tr then six_digits (h_code s) else h_code s = c))"

definition quiet :: "hevent \<Rightarrow> bool" where
  "quiet e \<longleftrightarrow> e \<noteq> EvNewCode \<and> (\<forall>l. billed l e = l \<and> true_to l e)"

lemma quiet_simps [simp]:
  "quiet (EvGot v)" "quiet (EvSent m)" "quiet (EvLinkError x)" "quiet (EvOpened q)"
  "quiet (EvTold c)" "quiet (EvHeard n)" "quiet (EvTransportError y)" "quiet (EvAsked a)" "quiet EvDropped"
  by (simp_all add: quiet_def)

lemma same_host:
  assumes "same s s'"
  shows "h_limiter s' = h_limiter s" "h_code s' = h_code s" "history s' = history s"
  using assms by (cases s; cases s'; simp add: same_def)+

lemma logged_host:
  assumes "logged e s s'"
  shows "h_limiter s' = h_limiter s" "h_code s' = h_code s" "history s' = history s @ [e]"
  using assms by (cases s; cases s'; simp add: logged_def)+

lemma accounts_same: "accounts l c h s \<Longrightarrow> same s s' \<Longrightarrow> accounts l c h s'"
  by (simp only: accounts_def same_host)

lemma accounts_logged:
  assumes "accounts l c h s" "logged e s s'" "quiet e"
  shows "accounts l c h s'"
proof -
  from assms(1) obtain tr where tr: "history s = h @ tr" "honest l tr" "h_limiter s = bill l tr"
    "if EvNewCode \<in> set tr then six_digits (h_code s) else h_code s = c"
    by (auto simp: accounts_def)
  then show ?thesis
    unfolding accounts_def using assms(2,3)
    by (intro exI [of _ "tr @ [e]"]) (auto simp: logged_host quiet_def)
qed

lemmas accounts_step = accounts_same accounts_logged

section \<open>Every step keeps the accounts\<close>

abbreviation acc_keeps :: "limiter \<Rightarrow> ustr \<Rightarrow> hevent list \<Rightarrow> ('w host_run, 'x, 'a) prog \<Rightarrow> bool" where
  "acc_keeps l c h m \<equiv> preserves (accounts l c h) m"

abbreviation acc_keeps_c ::
  "limiter \<Rightarrow> ustr \<Rightarrow> hevent list \<Rightarrow> ('rtc channel \<times> 'w host_run, 'x, 'a) prog \<Rightarrow> bool"
where
  "acc_keeps_c l c h m \<equiv> preserves (\<lambda>t. accounts l c h (snd t)) m"

lemma acc_on_snd [preserves_intros]: "acc_keeps l c h m \<Longrightarrow> acc_keeps_c l c h (on_snd m)"
  by (auto simp: preserves_def wp_on_snd)

lemma acc_on_chan [preserves_intros]: "acc_keeps_c l c h (on_chan m)"
  by (auto simp: preserves_def wp_on_chan intro!: wp_any elim: accounts_same)

lemma acc_in_world [preserves_intros]: "acc_keeps l c h (in_world m)"
  by (auto simp: preserves_def intro!: in_world_any elim: accounts_same)

lemma acc_run_local [preserves_intros]: "preserves I (run_local t m)"
  by (simp add: preserves_def wp_run_local)

lemma acc_event [preserves_intros]: "quiet e \<Longrightarrow> acc_keeps l c h (record_event e)"
  by (auto simp: preserves_def wp_record_event elim!: accounts_logged)

lemma acc_noting [preserves_intros]:
  "(\<And>a. quiet (f a)) \<Longrightarrow> (\<And>x. quiet (g x)) \<Longrightarrow> acc_keeps l c h m \<Longrightarrow> acc_keeps l c h (noting f g m)"
  unfolding noting_def by (intro preserves_intros) auto

lemma acc_noting_c [preserves_intros]:
  "(\<And>a. quiet (f a)) \<Longrightarrow> acc_keeps_c l c h (noting_c f m)"
  unfolding noting_c_def by (intro preserves_intros) auto

lemma acc_base [preserves_intros]:
  "acc_keeps l c h (get_now L)" "acc_keeps l c h (link_send L m)" "acc_keeps l c h (link_recv L d)"
  "acc_keeps_c l c h (c_next L i)" "acc_keeps_c l c h (c_wait_open L i)"
  "acc_keeps_c l c h (c_send L msg)" "acc_keeps l c h (drop_channel L ch)"
  unfolding get_now_def link_send_def link_recv_def c_next_def c_wait_open_def c_send_def drop_channel_def
  by (intro preserves_intros; simp)+

lemma acc_scoped [preserves_intros]:
  fixes body :: "('rtc channel \<times> 'w host_run, 'x, 'a + 'b) prog"
  assumes "acc_keeps_c l c h body" "\<And>b ch'. acc_keeps l c h (k b ch')"
  shows "acc_keeps l c h (scoped L ch body k)"
proof (rule preservesI)
  fix s :: "'w host_run"
  assume s: "accounts l c h s"
  have drop: "acc_keeps l c h (bnd (drop_channel L ch') (\<lambda>_. ret a) :: ('w host_run, 'x, 'a) prog)"
    "acc_keeps l c h (bnd (drop_channel L ch') (\<lambda>_. fail x) :: ('w host_run, 'x, 'a) prog)" for ch' a x
    by (intro preserves_intros)+
  show "wp (scoped L ch body k) (\<lambda>_. accounts l c h) s"
    unfolding wp_scoped
    by (rule wp_mono [OF preserves_wp [OF assms(1)]])
      (use s in \<open>auto split: res.splits sum.splits intro: preserves_wp [OF drop(1)]
        preserves_wp [OF drop(2)] preserves_wp [OF assms(2)]\<close>)
qed

lemma acc_renew [preserves_intros]:
  fixes L :: "('w, 'rtc, 'p, 'k, 'st, 'out, 'sk, 'xk, 'rnd) host_libs"
  shows "acc_keeps l c h (renew_code L)"
proof (rule preservesI)
  fix s :: "'w host_run"
  assume s: "accounts l c h s"
  then obtain tr where tr: "history s = h @ tr" "honest l tr" "h_limiter s = bill l tr"
    by (auto simp: accounts_def)
  show "wp (renew_code L) (\<lambda>_. accounts l c h) s"
  proof (rule renew_code_any)
    fix s' :: "'w host_run"
    assume "history s' = history s @ [EvNewCode]" "h_limiter s' = h_limiter s" "six_digits (h_code s')"
    with tr show "accounts l c h s'"
      by (auto simp: accounts_def intro!: exI [of _ "tr @ [EvNewCode]"])
  qed (use s in \<open>auto intro: accounts_same\<close>)
qed

lemma acc_expect [preserves_intros]: "preserves I (expect v)"
  by (cases v) (auto intro: preserves_intros)

lemma acc_relay [preserves_intros]:
  "acc_keeps l c h (send_relay L m)" "acc_keeps l c h (recv_relay L d)" "acc_keeps l c h (kicked L f)"
  unfolding send_relay_def pake_encode_def recv_relay_def kicked_def by (intro preserves_intros)+

lemma acc_reject [preserves_intros]: "acc_keeps l c h (reject_relay L f)"
  unfolding reject_relay_def by (intro preserves_intros)

subsection \<open>On the data channel\<close>

lemma acc_ask [preserves_intros]: "acc_keeps l c h (ask_user approve req)"
  unfolding ask_user_def by (intro preserves_intros) auto

lemma acc_approval_loop [preserves_intros]:
  "acc_keeps_c l c h (wait_approval_loop L approve req n deadline :: (_, 'x, approval) prog)"
proof (induction n)
  case (Suc n)
  have "acc_keeps_c l c h
      (heard_while_asking (wait_approval_loop L approve req n deadline :: (_, 'x, approval) prog) v)" for v
    using Suc.IH by (cases v) (auto intro: preserves_intros)
  then show ?case
    by (auto intro!: preserves_intros split: option.splits bool.splits)
qed (auto intro: preserves_intros)

lemma acc_approval [preserves_intros]: "acc_keeps_c l c h (wait_approval L approve req d)"
  unfolding wait_approval_def by (intro preserves_intros)

lemma acc_linger [preserves_intros]: "acc_keeps_c l c h (linger_loop L n deadline)"
  by (induction n) (auto intro!: preserves_intros split: next_msg.splits)

lemma acc_reject_decision [preserves_intros]: "acc_keeps_c l c h (reject_decision L reason f d)"
  unfolding reject_decision_def by (intro preserves_intros)

lemma acc_decide [preserves_intros]: "acc_keeps_c l c h (host_decide L t v a)"
  by (cases a) (auto intro!: preserves_intros)

lemma acc_verified [preserves_intros]: "acc_keeps_c l c h (host_verified L t approve v)"
  unfolding host_verified_def by (intro preserves_intros)

lemma acc_heard_hello [preserves_intros]:
  "acc_keeps_c l c h (host_heard_hello L cfg sk approve lf rf v)"
  unfolding host_heard_hello_def Let_def
  by (auto intro!: preserves_intros split: next_msg.splits control.splits sum.splits)

lemma acc_greet [preserves_intros]: "acc_keeps_c l c h (host_greet L cfg sk approve lf rf)"
  unfolding host_greet_def Let_def by (intro preserves_intros)

lemma acc_opened [preserves_intros]: "acc_keeps_c l c h (host_opened L cfg sk approve q)"
  by (cases q) (auto intro!: preserves_intros split: option.splits)

lemma acc_handshake [preserves_intros]: "acc_keeps l c h (host_handshake L cfg sk approve ch)"
  unfolding host_handshake_def host_handshake_body_def by (intro preserves_intros)

subsection \<open>The attempt\<close>

lemma acc_answer_offer [preserves_intros]: "acc_keeps_c l c h (answer_offer L sk offer)"
proof -
  have "acc_keeps_c l c h (send_answer L sk a)" for a
    by (cases a) (auto intro!: preserves_intros)
  then show ?thesis unfolding answer_offer_def by (intro preserves_intros)
qed

lemma acc_attempt_ended [preserves_intros]: "acc_keeps l c h (attempt_ended L out)"
  by (cases out) (auto intro!: preserves_intros)

lemma acc_attempt_answer [preserves_intros]: "acc_keeps l c h (attempt_answer L cfg approve sk so)"
  unfolding attempt_answer_def
  by (intro preserves_intros) (auto intro!: preserves_intros split: option.splits)

lemma accounts_extend:
  assumes "accounts l c h s" "history s' = history s @ [e]" "true_to (h_limiter s) e"
    "h_limiter s' = billed (h_limiter s) e" "h_code s' = h_code s" "e \<noteq> EvNewCode"
  shows "accounts l c h s'"
proof -
  from assms(1) obtain tr where tr: "history s = h @ tr" "honest l tr" "h_limiter s = bill l tr"
    "if EvNewCode \<in> set tr then six_digits (h_code s) else h_code s = c"
    by (auto simp: accounts_def)
  then show ?thesis
    unfolding accounts_def using assms(2-) by (intro exI [of _ "tr @ [e]"]) auto
qed

lemma acc_success [preserves_intros]:
  assumes "acc_keeps l c h m"
  shows "acc_keeps l c h
     (bnd (modify (\<lambda>s. s\<lparr>h_limiter := limiter_record_success (h_limiter s)\<rparr>)) (\<lambda>_.
      bnd (record_event EvSuccessRecorded) (\<lambda>_. m)))"
  by (rule preservesI)
    (auto simp: wp_bnd wp_modify wp_record_event intro!: preserves_wp [OF assms]
      elim: accounts_extend [where e = EvSuccessRecorded])

lemma acc_got_confirm [preserves_intros]:
  "acc_keeps l c h (attempt_got_confirm L cfg approve pake v)"
proof -
  have "acc_keeps l c h (host_confirm (l_spake L) pake mac)" for mac
    unfolding host_confirm_def derive_session_keys_def by (intro preserves_intros)
  then show ?thesis
    unfolding attempt_got_confirm_def
    by (auto intro!: preserves_intros split: relay.splits pake_msg.splits)
qed

lemma acc_count_failure [preserves_intros]:
  fixes L :: "('w, 'rtc, 'p, 'k, 'st, 'out, 'sk, 'xk, 'rnd) host_libs"
  shows "acc_keeps l c h (count_failure L :: (_, 'x, unit) prog)"
proof (rule preservesI)
  fix s :: "'w host_run"
  assume s: "accounts l c h s"
  have "acc_keeps l c h ((if rotate then renew_code L else ret ()) :: ('w host_run, 'x, unit) prog)" for rotate
    by (auto intro: preserves_intros)
  note rest = preserves_wp [OF this]
  let ?Q = "(\<lambda>_. accounts l c h) :: ('x, unit) res \<Rightarrow> 'w host_run \<Rightarrow> bool"
  show "wp (count_failure L :: (_, 'x, unit) prog) (\<lambda>_. accounts l c h) s"
    unfolding count_failure_def wp_bnd [of "get_now L"]
  proof (rule get_now_any)
    fix t and s' :: "'w host_run"
    assume "same s s'"
    with s have s': "accounts l c h s'" by (rule accounts_same)
    let ?rot = "snd (limiter_record_failure (h_limiter s') t)"
    have "accounts l c h (s'\<lparr>h_limiter := fst (limiter_record_failure (h_limiter s') t),
        history := history s' @ [EvFailureRecorded t ?rot]\<rparr>)"
      by (rule accounts_extend [OF s', where e = "EvFailureRecorded t ?rot"]) simp_all
    from rest [OF this, of ?rot]
    show "after (\<lambda>t. wp (bnd (gets (\<lambda>s. snd (limiter_record_failure (h_limiter s) t))) (\<lambda>rotate.
         bnd (modify (\<lambda>s. s\<lparr>h_limiter := fst (limiter_record_failure (h_limiter s) t)\<rparr>)) (\<lambda>_.
         bnd (record_event (EvFailureRecorded t rotate)) (\<lambda>_.
         if rotate then renew_code L else ret ())))) ?Q)
       (\<lambda>x. accounts l c h) (\<lambda>_. accounts l c h) (Ok t :: ('x, instant) res) s'"
      by (cases ?rot) (simp_all add: wp_bnd [of "gets _"] wp_gets wp_bnd [of "modify _"] wp_modify
          wp_bnd [of "record_event _"] wp_record_event)
  qed
qed

lemma acc_reply [preserves_intros]: "acc_keeps l c h (attempt_reply L cfg approve pa)"
proof -
  have "acc_keeps l c h (host_respond (l_spake L) code hid pa rnd)" for code hid rnd
    unfolding host_respond_def
    by (intro preserves_intros) (auto intro!: preserves_intros split: option.splits)
  then show ?thesis
    unfolding attempt_reply_def
    by (intro preserves_intros) (auto intro!: preserves_intros)
qed

lemma acc_got_start [preserves_intros]: "acc_keeps l c h (attempt_got_start L cfg approve v)"
  unfolding attempt_got_start_def
  by (auto intro!: preserves_intros split: relay.splits pake_msg.splits)

lemma acc_attempt [preserves_intros]:
  fixes L :: "('w, 'rtc, 'p, 'k, 'st, 'out, 'sk, 'xk, 'rnd) host_libs"
  shows "acc_keeps l c h (attempt L cfg approve)"
proof (rule preservesI)
  fix s :: "'w host_run"
  assume s: "accounts l c h s"
  have "acc_keeps l c h (case v of
      Inl wait \<Rightarrow> bnd (send_relay L (PRetryAfter (wait_ms wait))) (\<lambda>_. kicked L WaitRequired)
    | Inr _ \<Rightarrow> bnd (recv_relay L d) (attempt_got_start L cfg approve))" for v d
    by (cases v) (auto intro!: preserves_intros)
  note rest = preserves_wp [OF this]
  show "wp (attempt L cfg approve) (\<lambda>_. accounts l c h) s"
    unfolding attempt_def wp_bnd [of "get_now L"]
  proof (rule get_now_any)
    fix t and s' :: "'w host_run"
    assume "same s s'"
    with s have s': "accounts l c h s'" by (rule accounts_same)
    let ?v = "limiter_check (h_limiter s') t"
    have "accounts l c h (s'\<lparr>history := history s' @ [EvChecked t ?v]\<rparr>)"
      by (rule accounts_extend [OF s', where e = "EvChecked t ?v"]) simp_all
    from rest [OF this]
    show "after (\<lambda>t. wp (bnd (gets (\<lambda>s. limiter_check (h_limiter s) t)) (\<lambda>verdict.
         bnd (record_event (EvChecked t verdict)) (\<lambda>_.
         case verdict of
           Inl wait \<Rightarrow> bnd (send_relay L (PRetryAfter (wait_ms wait))) (\<lambda>_. kicked L WaitRequired)
         | Inr _ \<Rightarrow> bnd (recv_relay L (signaling_step (hc_timeouts cfg))) (attempt_got_start L cfg approve))))
         (\<lambda>_. accounts l c h))
       (\<lambda>x. accounts l c h) (\<lambda>_. accounts l c h) (Ok t :: (host_error, instant) res) s'"
      by (simp add: wp_bnd [of "gets _"] wp_gets wp_bnd [of "record_event _"] wp_record_event)
  qed
qed

lemma acc_serve_next [preserves_intros]: "acc_keeps l c h (serve_next L cfg approve n)"
  by (induction n) (auto intro!: preserves_intros)

lemma serve_next_accounts:
  assumes "serve_next L cfg approve n s = (r, s')"
  shows "accounts (h_limiter s) (h_code s) (history s) s'"
proof (rule preservesD [OF acc_serve_next _ assms])
  show "accounts (h_limiter s) (h_code s) (history s) s"
    by (auto simp: accounts_def intro!: exI [of _ "[]"])
qed

section \<open>The cost of a run\<close>

text \<open>The guesses of a history (the failures recorded before a reply) and the moments it tells of.\<close>

fun guess_time :: "hevent \<Rightarrow> instant option" where
  "guess_time (EvFailureRecorded t b) = Some t"
| "guess_time _ = None"

fun event_time :: "hevent \<Rightarrow> instant option" where
  "event_time (EvChecked t v) = Some t"
| "event_time (EvFailureRecorded t b) = Some t"
| "event_time _ = None"

definition guesses :: "hevent list \<Rightarrow> instant list" where
  "guesses tr = List.map_filter guess_time tr"

definition event_times :: "hevent list \<Rightarrow> instant list" where
  "event_times tr = List.map_filter event_time tr"

definition is_reply :: "wire \<Rightarrow> hevent \<Rightarrow> bool" where
  "is_reply w e \<longleftrightarrow> (\<exists>pb mac. told w e = Some (PReply pb mac))"

definition replies :: "wire \<Rightarrow> hevent list \<Rightarrow> nat" where
  "replies w tr = length (filter (is_reply w) tr)"

lemma guesses_simps [simp]:
  "guesses [] = []" "guesses (xs @ ys) = guesses xs @ guesses ys"
  "guesses (e # xs) = (case guess_time e of Some t \<Rightarrow> [t] | None \<Rightarrow> []) @ guesses xs"
  by (auto simp: guesses_def List.map_filter_def split: option.splits)

lemma event_times_simps [simp]:
  "event_times [] = []" "event_times (xs @ ys) = event_times xs @ event_times ys"
  "event_times (e # xs) = (case event_time e of Some t \<Rightarrow> [t] | None \<Rightarrow> []) @ event_times xs"
  by (auto simp: event_times_def List.map_filter_def split: option.splits)

lemma milestones_Cons [simp]:
  "milestones w (e # xs) = (case milestone_of w e of Some m \<Rightarrow> [m] | None \<Rightarrow> []) @ milestones w xs"
  by (auto simp: milestones_def List.map_filter_def split: option.splits)

lemma milestones_append: "milestones w (xs @ ys) = milestones w xs @ milestones w ys"
  by (simp add: milestones_def List.map_filter_def)

lemma told_bills_nothing:
  "told w e = Some m \<Longrightarrow> billed l e = l \<and> guess_time e = None"
  by (cases e) auto

lemma milestone_billed:
  "milestone_of w e = Some MCounted \<longleftrightarrow> (\<exists>t b. e = EvFailureRecorded t b)"
  "milestone_of w e = Some MCorrect \<longleftrightarrow> e = EvSuccessRecorded"
  "milestone_of w e = Some MAllowed \<longleftrightarrow> (\<exists>t. e = EvChecked t (Inr ()))"
  "milestone_of w e = Some MReplied \<longleftrightarrow> is_reply w e"
proof -
  have t: "milestone_told m \<noteq> Some MCounted" "milestone_told m \<noteq> Some MCorrect"
    "milestone_told m \<noteq> Some MAllowed" "milestone_told m = Some MReplied \<longleftrightarrow> (\<exists>pb mac. m = PReply pb mac)" for m
    by (cases m; simp)+
  have e: "milestone_ev e = Some MCounted \<longleftrightarrow> (\<exists>t b. e = EvFailureRecorded t b)"
    "milestone_ev e = Some MCorrect \<longleftrightarrow> e = EvSuccessRecorded"
    "milestone_ev e = Some MAllowed \<longleftrightarrow> (\<exists>t. e = EvChecked t (Inr ()))" "milestone_ev e \<noteq> Some MReplied"
    by (cases e rule: milestone_ev.cases; simp)+
  show "milestone_of w e = Some MCounted \<longleftrightarrow> (\<exists>t b. e = EvFailureRecorded t b)"
    "milestone_of w e = Some MCorrect \<longleftrightarrow> e = EvSuccessRecorded"
    "milestone_of w e = Some MAllowed \<longleftrightarrow> (\<exists>t. e = EvChecked t (Inr ()))"
    "milestone_of w e = Some MReplied \<longleftrightarrow> is_reply w e"
    using t e by (auto simp: milestone_of_def is_reply_def split: option.splits)
qed

lemma uncounted:
  assumes "milestone_of w e \<noteq> Some MCounted" "milestone_of w e \<noteq> Some MCorrect"
  shows "billed l e = l" "guess_time e = None"
  using assms unfolding milestone_billed by (cases e; simp)+

lemma free_history:
  assumes "MCounted \<notin> set (milestones w tr)" "MCorrect \<notin> set (milestones w tr)"
  shows "bill l tr = l \<and> guesses tr = []"
  using assms
proof (induction tr)
  case (Cons e tr)
  then have "milestone_of w e \<noteq> Some MCounted" "milestone_of w e \<noteq> Some MCorrect"
    by (auto split: option.splits)
  from uncounted [OF this] Cons show ?case by (auto split: option.splits)
qed simp

text \<open>The check lets through every moment after one that it lets through.\<close>

lemma limiter_check_mono:
  "limiter_check l t = Inr () \<Longrightarrow> t \<le> t' \<Longrightarrow> limiter_check l t' = Inr ()"
  by (auto simp: limiter_check_def split: option.splits if_splits)

text \<open>From the check on: a history without a success costs nothing, or one failure at a moment the
  limiter lets through.\<close>

definition costs :: "limiter \<Rightarrow> hevent list \<Rightarrow> bool" where
  "costs l tr \<longleftrightarrow>
     guesses tr = [] \<and> bill l tr = l \<or>
     (\<exists>t. guesses tr = [t] \<and> limiter_check l t = Inr () \<and> bill l tr = fst (limiter_record_failure l t))"

lemma costs_from_check:
  assumes "milestones w tr = take j [MCounted, MReplied]" "honest l tr" "limiter_check l t0 = Inr ()"
    "\<forall>t\<in>set (event_times tr). t0 \<le> t"
  shows "costs l tr"
  using assms
proof (induction tr)
  case (Cons e tr)
  show ?case
  proof (cases "milestone_of w e")
    case None
    then have e: "billed l e = l" "guess_time e = None" using uncounted [of w e] by auto
    with Cons None have "costs l tr" by (auto split: option.splits)
    with e show ?thesis by (simp add: costs_def)
  next
    case (Some m)
    with Cons.prems(1) have m: "m = MCounted" "milestones w tr = [] \<or> milestones w tr = [MReplied]"
      by (cases j; auto simp: take_Cons split: nat.splits)+
    from Some m(1) obtain t b where e: "e = EvFailureRecorded t b"
      using milestone_billed(1) by blast
    have "bill (billed l e) tr = billed l e \<and> guesses tr = []"
      using m(2) by (intro free_history [of w]) auto
    moreover have "limiter_check l t = Inr ()"
      using Cons.prems e by (auto intro: limiter_check_mono)
    ultimately show ?thesis using e by (simp add: costs_def)
  qed
qed (simp add: costs_def)

lemma costs_run:
  assumes "milestones w tr = take k [MAllowed, MCounted, MReplied]" "honest l tr" "sorted (event_times tr)"
  shows "costs l tr"
  using assms
proof (induction tr)
  case (Cons e tr)
  show ?case
  proof (cases "milestone_of w e")
    case None
    then have e: "billed l e = l" "guess_time e = None" using uncounted [of w e] by auto
    with Cons None have "costs l tr" by (auto simp: sorted_append split: option.splits)
    with e show ?thesis by (simp add: costs_def)
  next
    case (Some m)
    with Cons.prems(1) obtain j where m: "m = MAllowed" "milestones w tr = take j [MCounted, MReplied]"
      by (cases k) auto
    from Some m(1) obtain t where e: "e = EvChecked t (Inr ())"
      using milestone_billed(3) by blast
    have "costs l tr"
      using Cons.prems e by (intro costs_from_check [OF m(2), where ?t0.0 = t]) auto
    with e show ?thesis by (simp add: costs_def)
  qed
qed (simp add: costs_def)

text \<open>A run by itself: the milestones of \<open>HostSafety\<close> without the success.\<close>

lemma take_three:
  "k \<le> 9 \<Longrightarrow> MCorrect \<notin> set (take k all_milestones) \<Longrightarrow>
     take k all_milestones = take k [MAllowed, MCounted, MReplied]"
  by (cases "k \<le> 3")
    (auto simp: all_milestones_def take_Cons numeral_eq_Suc split: nat.splits)

lemma success_milestone: "EvSuccessRecorded \<in> set tr \<longleftrightarrow> MCorrect \<in> set (milestones w tr)"
proof (induction tr)
  case (Cons e tr)
  have "EvSuccessRecorded = e \<longleftrightarrow> milestone_of w e = Some MCorrect"
    using milestone_billed(2) [of w e] by auto
  with Cons show ?case by (auto split: option.splits)
qed simp

lemma milestone_counts:
  "replies w tr = length (filter (\<lambda>m. m = MReplied) (milestones w tr))"
  "length (guesses tr) = length (filter (\<lambda>m. m = MCounted) (milestones w tr))"
proof (induction tr)
  case (Cons e tr)
  have r: "is_reply w e \<longleftrightarrow> milestone_of w e = Some MReplied"
    using milestone_billed(4) [of w e] by simp
  have g: "(\<exists>t. guess_time e = Some t) \<longleftrightarrow> milestone_of w e = Some MCounted"
    using milestone_billed(1) [of w e] by (cases e) auto
  show "replies w (e # tr) = length (filter (\<lambda>m. m = MReplied) (milestones w (e # tr)))"
    using Cons(1) r by (auto simp: replies_def split: option.splits)
  show "length (guesses (e # tr)) = length (filter (\<lambda>m. m = MCounted) (milestones w (e # tr)))"
    using Cons(2) g by (auto split: option.splits)
qed (auto simp: replies_def)

lemma serve_next_run:
  assumes "wire_ok (l_wire L)" "serve_next L cfg approve n s = (r, s')"
  obtains tr k q where "history s' = history s @ tr" "hpath (l_wire L) Waiting tr q"
    "passed (l_wire L) tr q k"
    "honest (h_limiter s) tr" "h_limiter s' = bill (h_limiter s) tr"
    "case r of Ok out \<Rightarrow> q = Done (verdict_of out) | Err x \<Rightarrow> q = Done VLinkError | _ \<Rightarrow> True"
    "if EvNewCode \<in> set tr then six_digits (h_code s') else h_code s' = h_code s"
proof -
  from serve_next_accounts [OF assms(2)] obtain tr where tr: "history s' = history s @ tr"
    "honest (h_limiter s) tr" "h_limiter s' = bill (h_limiter s) tr"
    "if EvNewCode \<in> set tr then six_digits (h_code s') else h_code s' = h_code s"
    unfolding accounts_def by blast
  have "wp (serve_next L cfg approve n) (ended (l_wire L) Waiting (history s)) s"
    by (rule serve_next_ended [OF assms(1) went_refl])
  then have "ended (l_wire L) Waiting (history s) r s'" using assms(2) by (simp add: wp_def)
  then obtain q where q: "went (hstep (l_wire L)) Waiting (history s) q s'"
    "case r of Ok out \<Rightarrow> q = Done (verdict_of out) | Err x \<Rightarrow> q = Done VLinkError | _ \<Rightarrow> True"
    by (cases r) (auto simp: ended_def)
  with tr(1) have "hpath (l_wire L) Waiting tr q" by (auto simp: went_def)
  with hpath_milestones [OF this] that tr q(2) show thesis by blast
qed

text \<open>What a host does besides \<open>serve_next\<close>: it serves a session, prints lines and drops a channel.  It
  talks on the data channel only, and leaves the code and the limiter alone.\<close>

fun session_event :: "hevent \<Rightarrow> bool" where
  "session_event (EvTold m) = True"
| "session_event (EvHeard v) = True"
| "session_event (EvTransportError x) = True"
| "session_event EvDropped = True"
| "session_event _ = False"

definition aside :: "'w host_run \<Rightarrow> 'w host_run \<Rightarrow> bool" where
  "aside s s' \<longleftrightarrow> run.more s' = run.more s \<and> (\<exists>tr. history s' = history s @ tr \<and> list_all session_event tr)"

lemma aside_refl: "aside s s"
  by (simp add: aside_def)

lemma aside_steps:
  "aside u s \<Longrightarrow> same s s' \<Longrightarrow> aside u s'" "aside u s \<Longrightarrow> logged e s s' \<Longrightarrow> session_event e \<Longrightarrow> aside u s'"
  by (auto simp: aside_def same_def logged_def)

lemma aside_code: "aside u s \<Longrightarrow> h_code s = h_code u \<and> h_limiter s = h_limiter u"
  by (cases u; cases s) (simp add: aside_def)

lemma aside_uncounted:
  "list_all session_event tr \<Longrightarrow> guesses tr = [] \<and> event_times tr = [] \<and> replies w tr = 0 \<and> EvSuccessRecorded \<notin> set tr"
proof (induction tr)
  case (Cons e tr)
  then show ?case by (cases e) (auto simp: replies_def is_reply_def told_def)
qed (simp add: replies_def)

text \<open>The life of a host: any number of runs of \<open>serve_next\<close>, with any user and any fuel, between
  which it does other things.\<close>

inductive host_runs ::
  "('w, 'rtc, 'p, 'k, 'st, 'out, 'sk, 'xk, 'rnd) host_libs \<Rightarrow> ('sk, 'xk) host_config \<Rightarrow>
   'w host_run \<Rightarrow> 'w host_run \<Rightarrow> bool"
for L cfg s where
  no_run: "aside s s' \<Longrightarrow> host_runs L cfg s s'"
| next_run: "host_runs L cfg s s1 \<Longrightarrow> serve_next L cfg approve n s1 = (r, s2) \<Longrightarrow> aside s2 s3 \<Longrightarrow>
    host_runs L cfg s s3"

lemma gated_run_snoc:
  "gated_run gate punish l (ts @ [t]) \<longleftrightarrow>
     gated_run gate punish l ts \<and> gate (foldl punish l ts) t = Inr ()"
  by (induction ts arbitrary: l) auto

lemma guesses_times: "set (guesses tr) \<subseteq> set (event_times tr)"
proof (induction tr)
  case (Cons e tr)
  then show ?case by (cases e) auto
qed simp

abbreviation punished :: "limiter \<Rightarrow> instant \<Rightarrow> limiter" where
  "punished l t \<equiv> fst (limiter_record_failure l t)"

text \<open>After the success nothing is billed, so the limiter is as new.\<close>

lemma correct_is_fourth: "i < 9 \<Longrightarrow> all_milestones ! i = MCorrect \<Longrightarrow> i = 3"
  by (auto simp: all_milestones_def numeral_eq_Suc less_Suc_eq)

lemma reset_by_success:
  assumes "passed w tr q k" "EvSuccessRecorded \<in> set tr"
  shows "bill l tr = limiter_new"
proof -
  from assms(2) obtain a b where tr: "tr = a @ EvSuccessRecorded # b" by (meson split_list)
  have ms: "milestones w a @ MCorrect # milestones w b = take k all_milestones"
    using assms(1) tr by (simp add: passed_def milestones_append milestone_of_def)
  let ?n = "length (milestones w a)"
  have len: "?n < k" "?n < 9" using arg_cong [OF ms, of length] by (auto simp: all_milestones_def)
  have "all_milestones ! ?n = MCorrect"
    using arg_cong [OF ms, of "\<lambda>xs. xs ! ?n"] len by (simp add: nth_append)
  with len have n: "?n = 3" by (intro correct_is_fourth)
  have "milestones w b = drop 4 (take k all_milestones)"
    using arg_cong [OF ms, of "drop 4"] n by simp
  then have "set (milestones w b) \<subseteq> set (drop 4 all_milestones)"
    by (simp add: drop_take set_take_subset)
  then have "MCounted \<notin> set (milestones w b)" "MCorrect \<notin> set (milestones w b)"
    by (auto simp: all_milestones_def)
  from free_history [OF this, of "limiter_record_success (bill l a)"] tr show ?thesis
    by (simp add: limiter_record_success_def limiter_new_def)
qed

end
