(* ===== verification/HostAuth.thy ===== *)
theory HostAuth
  imports HostAccount
begin

text \<open>
  What a session of the host rests on: the chain from the code to the identity that the user
  accepted.  Unlike the machine of \<open>HostProtocol\<close>, the statements here speak of the values: the
  confirmation, the keys derived from it, and the Hello verified under their binding.
\<close>

section \<open>Evidence in the history\<close>

text \<open>The event happened since the history was \<open>h\<close>.\<close>

definition seen :: "hevent list \<Rightarrow> hevent \<Rightarrow> 'w host_run \<Rightarrow> bool" where
  "seen h e s \<longleftrightarrow> (\<exists>tr. history s = h @ tr \<and> e \<in> set tr)"

definition since :: "hevent list \<Rightarrow> 'w host_run \<Rightarrow> bool" where
  "since h s \<longleftrightarrow> (\<exists>tr. history s = h @ tr)"

lemma since_same: "since h s \<Longrightarrow> same s s' \<Longrightarrow> since h s'"
  by (simp add: since_def same_host)

lemma since_logged: "since h s \<Longrightarrow> logged e s s' \<Longrightarrow> since h s' \<and> seen h e s'"
  by (auto simp: since_def seen_def logged_host)

lemma seen_same: "seen h e s \<Longrightarrow> same s s' \<Longrightarrow> seen h e s'"
  by (simp add: seen_def same_host)

lemma seen_logged: "seen h e s \<Longrightarrow> logged e' s s' \<Longrightarrow> seen h e s'"
  by (auto simp: seen_def logged_host)

lemma accounts_refl: "accounts (h_limiter s) (h_code s) (history s) s"
  by (auto simp: accounts_def intro!: exI [of _ "[]"])

lemma seen_grows: "seen h e s \<Longrightarrow> accounts l c (history s) s' \<Longrightarrow> seen h e s'"
  by (auto simp: seen_def accounts_def)

lemma since_grows: "since h s \<Longrightarrow> accounts l c (history s) s' \<Longrightarrow> since h s'"
  by (auto simp: since_def accounts_def)

text \<open>A result of a step together with the growth of the history.\<close>

lemma wp_grows_c:
  assumes "wp m Q t" "\<And>l c h. acc_keeps_c l c h m"
    "\<And>r t' l c. Q r t' \<Longrightarrow> accounts l c (history (snd t)) (snd t') \<Longrightarrow> R r t'"
  shows "wp m R t"
proof -
  have "wp m (\<lambda>_ t'. accounts (h_limiter (snd t)) (h_code (snd t)) (history (snd t)) (snd t')) t"
    by (rule preserves_wp [OF assms(2)]) (rule accounts_refl)
  from wp_conj [OF assms(1) this] show ?thesis
    by (rule wp_mono) (blast intro: assms(3))
qed

section \<open>The data channel\<close>

definition only_identity ::
  "(peer_identity \<Rightarrow> bool) \<Rightarrow> ('x, 'rtc serve_outcome + peer_identity) res \<Rightarrow> 't \<Rightarrow> bool"
where
  "only_identity P r t \<longleftrightarrow>
     (\<forall>v. r = Ok (Inr v) \<longrightarrow> P v) \<and> (\<forall>out. r = Ok (Inl out) \<longrightarrow> (\<exists>f. out = Failed f))"

lemma only_identity_simps [simp]:
  "only_identity P (Ok (Inr v)) = (\<lambda>_. P v)" "only_identity P (Ok (Inl out)) = (\<lambda>_. \<exists>f. out = Failed f)"
  "only_identity P (Err x) = (\<lambda>_. True)" "only_identity P Panic = (\<lambda>_. True)" "only_identity P Hang = (\<lambda>_. True)"
  by (auto simp: only_identity_def)

lemma reject_decision_no_identity:
  "wp (reject_decision L reason f d :: (_, 'x, _) prog) (only_identity P) t"
  unfolding reject_decision_def
  by (intro wp_handle_any wp_bnd_any) (simp_all add: wp_ret)

lemma host_decide_identity:
  "wp (host_decide L ts viewer a :: (_, 'x, _) prog) (only_identity (\<lambda>v. v = viewer)) t"
proof (cases a)
  case Granted
  then show ?thesis
    by (auto intro!: wp_handle_any wp_bnd_any simp: wp_ret)
qed (auto intro: reject_decision_no_identity simp: wp_ret)

lemma host_verified_identity:
  "wp (host_verified L ts approve viewer :: (_, 'x, _) prog) (only_identity (\<lambda>v. v = viewer)) t"
  unfolding host_verified_def
  by (intro wp_bnd_any host_decide_identity) simp_all

text \<open>What the viewer's message must be for an identity to come out.\<close>

definition hello_accepted ::
  "('w, 'rtc, 'p, 'k, 'st, 'out, 'sk, 'xk, 'rnd) host_libs \<Rightarrow> ('sk, 'xk) host_config \<Rightarrow>
   session_keys \<Rightarrow> bytes \<Rightarrow> bytes \<Rightarrow> hello \<Rightarrow> peer_identity \<Rightarrow> bool"
where
  "hello_accepted L cfg sk lf rf vh v \<longleftrightarrow>
     verify_hello (l_id L) vh RViewer (hello_binding sk) rf lf = Inr v \<and>
     protocol_version vh = hc_protocol_version cfg"

lemma host_heard_hello_identity:
  "wp (host_heard_hello L cfg sk approve lf rf m :: (_, 'x, _) prog)
     (only_identity (\<lambda>v. \<exists>vh. m = NMsg (CHello vh) \<and> hello_accepted L cfg sk lf rf vh v)) t"
proof (cases "\<exists>vh v. m = NMsg (CHello vh) \<and> hello_accepted L cfg sk lf rf vh v")
  case True
  then obtain vh v where m: "m = NMsg (CHello vh)" and ok: "hello_accepted L cfg sk lf rf vh v" by blast
  then have "wp (host_heard_hello L cfg sk approve lf rf m :: (_, 'x, _) prog) (only_identity (\<lambda>x. x = v)) t"
    by (simp add: host_heard_hello_def hello_accepted_def host_verified_identity)
  then show ?thesis
    by (rule wp_mono) (use m ok in \<open>auto simp: only_identity_def\<close>)
next
  case False
  then show ?thesis
    unfolding host_heard_hello_def Let_def hello_accepted_def
    by (auto simp: wp_ret intro!: reject_decision_no_identity split: next_msg.splits control.splits sum.splits)
qed

text \<open>The greeting of the host.\<close>

definition host_greeting ::
  "('w, 'rtc, 'p, 'k, 'st, 'out, 'sk, 'xk, 'rnd) host_libs \<Rightarrow> ('sk, 'xk) host_config \<Rightarrow>
   session_keys \<Rightarrow> bytes \<Rightarrow> bytes \<Rightarrow> hello"
where
  "host_greeting L cfg sk lf rf =
     (make_hello (l_id L) (hc_keys cfg) RHost (hello_binding sk) lf rf)
       \<lparr>protocol_version := hc_protocol_version cfg\<rparr>"

definition session_evidence ::
  "('w, 'rtc, 'p, 'k, 'st, 'out, 'sk, 'xk, 'rnd) host_libs \<Rightarrow> ('sk, 'xk) host_config \<Rightarrow>
   session_keys \<Rightarrow> hevent list \<Rightarrow> peer_identity \<Rightarrow> 'w host_run \<Rightarrow> bool"
where
  "session_evidence L cfg sk h v s \<longleftrightarrow>
     (\<exists>vh lf rf. seen h (EvTold (CHello (host_greeting L cfg sk lf rf))) s \<and>
        seen h (EvHeard (NMsg (CHello vh))) s \<and> hello_accepted L cfg sk lf rf vh v)"

definition chan_evidence ::
  "('w, 'rtc, 'p, 'k, 'st, 'out, 'sk, 'xk, 'rnd) host_libs \<Rightarrow> ('sk, 'xk) host_config \<Rightarrow>
   session_keys \<Rightarrow> hevent list \<Rightarrow> ('x, 'rtc serve_outcome + peer_identity) res \<Rightarrow>
   'rtc channel \<times> 'w host_run \<Rightarrow> bool"
where
  "chan_evidence L cfg sk h r t \<longleftrightarrow>
     (\<forall>v. r = Ok (Inr v) \<longrightarrow> session_evidence L cfg sk h v (snd t)) \<and>
     (\<forall>out. r = Ok (Inl out) \<longrightarrow> (\<exists>f. out = Failed f))"

lemma chan_evidence_simps [simp]:
  "chan_evidence L cfg sk h (Ok (Inl out)) t = (\<exists>f. out = Failed f)" "chan_evidence L cfg sk h (Err x) t"
  "chan_evidence L cfg sk h Panic t" "chan_evidence L cfg sk h Hang t"
  by (simp_all add: chan_evidence_def)

lemma heard_evidence:
  fixes t :: "'rtc channel \<times> 'w host_run" and L :: "('w, 'rtc, 'p, 'k, 'st, 'out, 'sk, 'xk, 'rnd) host_libs"
  assumes "seen h (EvHeard m) (snd t)" "seen h (EvTold (CHello (host_greeting L cfg sk lf rf))) (snd t)"
  shows "wp (host_heard_hello L cfg sk approve lf rf m :: (_, 'x, _) prog) (chan_evidence L cfg sk h) t"
proof (rule wp_grows_c [OF host_heard_hello_identity acc_heard_hello])
  fix r :: "('x, 'rtc serve_outcome + peer_identity) res" and t' :: "'rtc channel \<times> 'w host_run" and l c
  assume r: "only_identity (\<lambda>v. \<exists>vh. m = NMsg (CHello vh) \<and> hello_accepted L cfg sk lf rf vh v) r t'"
    and "accounts l c (history (snd t)) (snd t')"
  from seen_grows [OF assms(1) this(2)] seen_grows [OF assms(2) this(2)]
  have seen: "seen h (EvHeard m) (snd t')" "seen h (EvTold (CHello (host_greeting L cfg sk lf rf))) (snd t')" .
  have "session_evidence L cfg sk h v (snd t')" if "r = Ok (Inr v)" for v
  proof -
    from r that obtain vh where "m = NMsg (CHello vh)" "hello_accepted L cfg sk lf rf vh v"
      by (auto simp: only_identity_def)
    with seen show ?thesis unfolding session_evidence_def by blast
  qed
  with r show "chan_evidence L cfg sk h r t'" by (simp add: only_identity_def chan_evidence_def)
qed

lemma greet_evidence:
  assumes "since h (snd t)"
  shows "wp (host_greet L cfg sk approve lf rf :: (_, 'x, _) prog) (chan_evidence L cfg sk h) t"
proof -
  have hear: "wp (handle (c_next L d) (host_heard_hello L cfg sk approve lf rf)
      (\<lambda>_. ret (Inl (Failed FTransport))) :: (_, 'x, _) prog) (chan_evidence L cfg sk h) u"
    if "since h (snd u)" "seen h (EvTold (CHello (host_greeting L cfg sk lf rf))) (snd u)" for d u
    unfolding wp_handle
    by (rule c_next_any)
      (auto simp: wp_ret intro!: heard_evidence dest: since_logged [OF that(1)] seen_logged [OF that(2)])
  have rest: "wp (bnd (on_snd (get_now L)) (\<lambda>now2. handle (c_next L (now2 + d))
      (host_heard_hello L cfg sk approve lf rf) (\<lambda>_. ret (Inl (Failed FTransport)))) :: (_, 'x, _) prog)
      (chan_evidence L cfg sk h) u"
    if "since h (snd u)" "seen h (EvTold (CHello (host_greeting L cfg sk lf rf))) (snd u)" for d u
    unfolding wp_bnd
    by (rule c_now_any) (auto intro!: hear since_same [OF that(1)] seen_same [OF that(2)])
  show ?thesis
    unfolding host_greet_def host_greeting_def [symmetric] Let_def wp_handle
    by (rule c_send_any) (auto simp: wp_ret intro!: rest dest: since_logged [OF assms])
qed

lemma handshake_body_evidence:
  fixes t :: "'rtc channel \<times> 'w host_run"
  assumes "since h (snd t)"
  shows "wp (host_handshake_body L cfg sk approve :: (_, 'x, _) prog) (chan_evidence L cfg sk h) t"
proof -
  have opened: "wp (host_opened L cfg sk approve v :: (_, 'x, _) prog) (chan_evidence L cfg sk h) (c, s')"
    if "since h s'" for v s' and c :: "'rtc channel"
    using that
    by (cases v) (auto simp: wp_bnd wp_on_chan wp_on_peer peer_local_fp_def peer_remote_fp_def wp_gets wp_ret
        split: option.splits intro!: greet_evidence)
  have wait: "wp (handle (c_wait_open L d) (host_opened L cfg sk approve)
      (\<lambda>_. ret (Inl (Failed FTransport))) :: (_, 'x, _) prog) (chan_evidence L cfg sk h) u"
    if "since h (snd u)" for d and u :: "'rtc channel \<times> 'w host_run"
    unfolding wp_handle
    by (rule c_wait_open_any) (auto simp: wp_ret intro!: opened dest: since_logged [OF that])
  show ?thesis
    unfolding host_handshake_body_def wp_bnd
    by (rule c_now_any) (auto intro!: wait since_same [OF assms])
qed

text \<open>From the channel on: the outcome of the handshake and of the rest of the attempt.\<close>

definition outcome_evidence ::
  "(peer_identity \<Rightarrow> 'w host_run \<Rightarrow> bool) \<Rightarrow> ('x, 'rtc serve_outcome) res \<Rightarrow> 'w host_run \<Rightarrow> bool"
where
  "outcome_evidence E r s \<longleftrightarrow> (\<forall>v c. r = Ok (Session v c) \<longrightarrow> E v s)"

lemma outcome_evidence_simps [simp]:
  "outcome_evidence E (Ok (Session v c)) s = E v s" "outcome_evidence E (Ok (Failed f)) s"
  "outcome_evidence E (Ok ViewerLeft) s" "outcome_evidence E (Err x) s"
  "outcome_evidence E Panic s" "outcome_evidence E Hang s"
  by (auto simp: outcome_evidence_def)

lemma handshake_evidence:
  fixes s :: "'w host_run" and L :: "('w, 'rtc, 'p, 'k, 'st, 'out, 'sk, 'xk, 'rnd) host_libs"
  assumes "since h s"
  shows "wp (host_handshake L cfg sk approve ch :: (_, 'x, _) prog)
    (outcome_evidence (session_evidence L cfg sk h)) s"
proof -
  have body: "wp (host_handshake_body L cfg sk approve :: (_, 'x, _) prog) (chan_evidence L cfg sk h) (ch, s)"
    using assms by (intro handshake_body_evidence) simp
  have drop: "wp (bnd (drop_channel L c) (\<lambda>_. ret (Failed f)) :: ('w host_run, 'x, 'rtc serve_outcome) prog)
      (outcome_evidence (session_evidence L cfg sk h)) s'"
    "wp (bnd (drop_channel L c) (\<lambda>_. fail x) :: ('w host_run, 'x, 'rtc serve_outcome) prog)
      (outcome_evidence (session_evidence L cfg sk h)) s'" for c f s' x
    unfolding wp_bnd by (rule drop_channel_any; simp add: wp_ret wp_fail)+
  show ?thesis
    unfolding host_handshake_def wp_scoped
    by (rule wp_mono [OF body])
      (auto simp: chan_evidence_def wp_ret drop split: res.splits sum.splits)
qed

section \<open>The attempt\<close>

lemma wp_keeps_seen:
  assumes "wp m Q s" "\<And>l c h. acc_keeps l c h m" "seen h e s"
  shows "wp m (\<lambda>r s'. Q r s' \<and> seen h e s') s"
proof -
  have "wp m (\<lambda>_ s'. accounts (h_limiter s) (h_code s) (history s) s') s"
    by (rule preserves_wp [OF assms(2) accounts_refl])
  from wp_conj [OF assms(1) this] show ?thesis
    by (rule wp_mono) (blast intro: seen_grows [OF assms(3)])
qed

lemma rejects_only_fail:
  "wp (kicked L f) (\<lambda>r _. \<forall>out. r = Ok out \<longrightarrow> (\<exists>f. out = Failed f)) s"
  "wp (reject_relay L f) (\<lambda>r _. \<forall>out. r = Ok out \<longrightarrow> (\<exists>f. out = Failed f)) s"
  unfolding kicked_def reject_relay_def by (intro wp_bnd_any; simp add: wp_ret)+

lemma no_session:
  "wp (kicked L f) (outcome_evidence E) s" "wp (reject_relay L f) (outcome_evidence E) s"
  by (rule wp_mono [OF rejects_only_fail(1)] wp_mono [OF rejects_only_fail(2)];
      force simp: outcome_evidence_def)+

lemma answer_offer_no_session:
  fixes t :: "'rtc channel \<times> 'w host_run" and L :: "('w, 'rtc, 'p, 'k, 'st, 'out, 'sk, 'xk, 'rnd) host_libs"
  assumes "since h (snd t)"
  shows "wp (answer_offer L sk offer) (\<lambda>r t. since h (snd t) \<and> (\<forall>out. r = Ok (Inl out) \<longrightarrow> (\<exists>f. out = Failed f))) t"
proof -
  have "wp (send_answer L sk a) (\<lambda>r t. \<forall>out. r = Ok (Inl out) \<longrightarrow> (\<exists>f. out = Failed f)) u" for a u
  proof (cases a)
    case None
    then show ?thesis
      by (simp add: wp_bnd wp_on_snd)
        (rule wp_mono [OF rejects_only_fail(2)], auto simp: after_def wp_ret split: res.splits)
  next
    case (Some sdp)
    then show ?thesis by (auto simp: wp_ret intro!: wp_bnd_any)
  qed
  then have "wp (answer_offer L sk offer) (\<lambda>r t. \<forall>out. r = Ok (Inl out) \<longrightarrow> (\<exists>f. out = Failed f)) t"
    unfolding answer_offer_def by (intro wp_bnd_any) simp_all
  then show ?thesis
    by (rule wp_grows_c) (use assms in \<open>auto intro: preserves_intros since_grows\<close>)
qed

lemma attempt_ended_evidence:
  "(\<And>v c. out = Session v c \<Longrightarrow> E v s) \<Longrightarrow> wp (attempt_ended L out) (outcome_evidence E) s"
  by (cases out) (simp_all add: wp_ret no_session)

lemma attempt_answer_evidence:
  fixes s :: "'w host_run" and L :: "('w, 'rtc, 'p, 'k, 'st, 'out, 'sk, 'xk, 'rnd) host_libs"
  assumes "since h s"
  shows "wp (attempt_answer L cfg approve sk so) (outcome_evidence (session_evidence L cfg sk h)) s"
proof -
  let ?Q = "outcome_evidence (session_evidence L cfg sk h)"
  have hand: "wp (bnd (host_handshake L cfg sk approve ch) (attempt_ended L)) ?Q u" if "since h u" for ch u
    unfolding wp_bnd
    by (rule wp_mono [OF handshake_evidence [OF that]])
      (auto simp: after_def intro!: attempt_ended_evidence split: res.splits)
  have drop: "wp (bnd (drop_channel L c) (\<lambda>_. k)) ?Q u"
    if "\<And>u. wp k ?Q u" for c u and k :: "('w host_run, host_error, 'rtc serve_outcome) prog"
    unfolding wp_bnd by (rule drop_channel_any) (simp_all add: that)
  have scope: "wp (scoped L ch (answer_offer L sk offer)
      (\<lambda>_ ch. bnd (host_handshake L cfg sk approve ch) (attempt_ended L))) ?Q u"
    if "since h u" for ch offer u
    unfolding wp_scoped
    by (rule wp_mono [OF answer_offer_no_session [where h = h]])
      (use that in \<open>auto intro!: hand drop simp: wp_ret wp_fail split: res.splits sum.splits\<close>)
  have peer: "wp (handle (in_world (peer_new (l_os L) (l_rtc L) (hc_bind_ips cfg)))
      (\<lambda>peer. scoped L (channel_new peer) (answer_offer L sk offer)
                (\<lambda>_ ch. bnd (host_handshake L cfg sk approve ch) (attempt_ended L)))
      (\<lambda>_. kicked L FTransport)) ?Q s" for offer
    unfolding wp_handle wp_in_world
    by (rule wp_any) (auto simp: after_def intro!: scope no_session since_same [OF assms] split: res.splits)
  show ?thesis
    unfolding attempt_answer_def wp_bnd [of "run_local _ _"] wp_run_local
    by (auto simp: after_def intro!: peer no_session split: res.splits option.splits)
qed

subsection \<open>The exchange of the code\<close>

definition confirm_evidence ::
  "('w, 'rtc, 'p, 'k, 'st, 'out, 'sk, 'xk, 'rnd) host_libs \<Rightarrow> ('sk, 'xk) host_config \<Rightarrow> 'out \<Rightarrow>
   hevent list \<Rightarrow> peer_identity \<Rightarrow> 'w host_run \<Rightarrow> bool"
where
  "confirm_evidence L cfg out h v s \<longleftrightarrow>
     (\<exists>d mac so sk. relay_of (l_wire L) d = RelMsg (PConfirm mac so) \<and> seen h (EvGot d) s \<and>
        host_confirm (l_spake L) out mac () = (Ok sk, ()) \<and> session_evidence L cfg sk h v s)"

lemma got_confirm_evidence:
  fixes s :: "'w host_run" and L :: "('w, 'rtc, 'p, 'k, 'st, 'out, 'sk, 'xk, 'rnd) host_libs"
  assumes "since h s" "seen h (EvGot d) s"
  shows "wp (attempt_got_confirm L cfg approve out (relay_of (l_wire L) d))
    (outcome_evidence (confirm_evidence L cfg out h)) s"
proof (cases "\<exists>mac so. relay_of (l_wire L) d = RelMsg (PConfirm mac so)")
  case True
  then obtain mac so where d: "relay_of (l_wire L) d = RelMsg (PConfirm mac so)" by blast
  let ?E = "outcome_evidence (confirm_evidence L cfg out h)"
  have answer: "wp (attempt_answer L cfg approve sk so) ?E u"
    if k: "host_confirm (l_spake L) out mac s = (Ok sk, s')" and u: "since h u" "seen h (EvGot d) u" for sk u s'
    using wp_keeps_seen [OF attempt_answer_evidence [OF u(1)] acc_attempt_answer u(2)]
  proof (rule wp_mono)
    fix r s'
    assume "outcome_evidence (session_evidence L cfg sk h) r s' \<and> seen h (EvGot d) s'"
    with d host_confirm_result [OF k, of "()"] show "?E r s'"
      unfolding outcome_evidence_def confirm_evidence_def by blast
  qed
  have "wp (host_confirm (l_spake L) out mac) (after
       (\<lambda>sk. wp (bnd (modify (\<lambda>s. s\<lparr>h_limiter := limiter_record_success (h_limiter s)\<rparr>)) (\<lambda>_.
               bnd (record_event EvSuccessRecorded) (\<lambda>_. attempt_answer L cfg approve sk so))) ?E)
       (\<lambda>x. wp (reject_relay L FWrongCode) ?E) ?E) s"
  proof (rule wpI)
    fix r s'
    assume run: "host_confirm (l_spake L) out mac s = (r, s')"
    show "after (\<lambda>sk. wp (bnd (modify (\<lambda>s. s\<lparr>h_limiter := limiter_record_success (h_limiter s)\<rparr>)) (\<lambda>_.
               bnd (record_event EvSuccessRecorded) (\<lambda>_. attempt_answer L cfg approve sk so))) ?E)
       (\<lambda>x. wp (reject_relay L FWrongCode) ?E) ?E r s'"
    proof (cases r)
      case (Ok sk)
      with run have k: "host_confirm (l_spake L) out mac s = (Ok sk, s')" by simp
      then have "s' = s" using host_confirm_result [OF k, of s] by simp
      then show ?thesis
        using Ok assms by (auto simp: wp_bnd wp_modify wp_record_event since_def seen_def intro!: answer [OF k])
    qed (simp_all add: no_session)
  qed
  with d show ?thesis by (simp add: attempt_got_confirm_def wp_handle)
next
  case False
  then show ?thesis
    by (auto simp: attempt_got_confirm_def wp_ret no_session split: relay.splits pake_msg.splits)
qed

definition reply_evidence ::
  "('w, 'rtc, 'p, 'k, 'st, 'out, 'sk, 'xk, 'rnd) host_libs \<Rightarrow> ('sk, 'xk) host_config \<Rightarrow> ustr \<Rightarrow>
   bytes \<Rightarrow> hevent list \<Rightarrow> peer_identity \<Rightarrow> 'w host_run \<Rightarrow> bool"
where
  "reply_evidence L cfg code pa h v s \<longleftrightarrow>
     (\<exists>rnd out pb mac_b. host_respond (l_spake L) code (hc_host_id cfg) pa rnd () = (Ok (out, pb, mac_b), ()) \<and>
        (\<exists>e. told (l_wire L) e = Some (PReply pb mac_b) \<and> seen h e s) \<and> confirm_evidence L cfg out h v s)"

lemma replied_evidence:
  fixes s :: "'w host_run" and L :: "('w, 'rtc, 'p, 'k, 'st, 'out, 'sk, 'xk, 'rnd) host_libs"
  assumes "wire_ok (l_wire L)" "since h s"
  shows "wp (bnd (send_relay L (PReply pb mac_b)) (\<lambda>_. bnd (recv_relay L t) (attempt_got_confirm L cfg approve out)))
    (outcome_evidence (\<lambda>v s. (\<exists>e. told (l_wire L) e = Some (PReply pb mac_b) \<and> seen h e s) \<and>
       confirm_evidence L cfg out h v s)) s" (is "wp _ ?E s")
proof -
  have recv: "wp (bnd (recv_relay L t) (attempt_got_confirm L cfg approve out)) ?E u"
    if e: "told (l_wire L) e = Some (PReply pb mac_b)" "since h u" "seen h e u" for e u
    unfolding wp_bnd
  proof (rule recv_relay_any)
    fix d u'
    assume l: "logged (EvGot d) u u'"
    have "wp (attempt_got_confirm L cfg approve out (relay_of (l_wire L) d)) ?E u'"
    proof (rule wp_mono [OF wp_keeps_seen [OF got_confirm_evidence acc_got_confirm]])
      show "since h u'" "seen h (EvGot d) u'" using since_logged [OF e(2) l] by simp_all
      show "seen h e u'" by (rule seen_logged [OF e(3) l])
    qed (use e(1) in \<open>auto simp: outcome_evidence_def\<close>)
    then show "after (\<lambda>a. wp (attempt_got_confirm L cfg approve out a) ?E) (\<lambda>x. ?E (Err x)) ?E
        (Ok (relay_of (l_wire L) d)) u'" by simp
  qed simp_all
  show ?thesis
    unfolding wp_bnd [of "send_relay L _"]
  proof (rule send_relay_any [OF assms(1)])
    fix e s'
    assume "told (l_wire L) e = Some (PReply pb mac_b)" "logged e s s'"
    from recv [OF this(1)] since_logged [OF assms(2) this(2)]
    show "after (\<lambda>_. wp (bnd (recv_relay L t) (attempt_got_confirm L cfg approve out)) ?E) (\<lambda>x. ?E (Err x)) ?E
        (Ok ()) s'" by simp
  qed simp_all
qed

lemma wp_since:
  assumes "\<And>l c h. acc_keeps l c h m" "since h s"
  shows "wp m (\<lambda>_ s'. since h s') s"
  by (rule wp_mono [OF preserves_wp [OF assms(1) accounts_refl]]) (blast intro: since_grows [OF assms(2)])

lemma reply_gives_evidence:
  fixes s :: "'w host_run" and L :: "('w, 'rtc, 'p, 'k, 'st, 'out, 'sk, 'xk, 'rnd) host_libs"
  assumes "wire_ok (l_wire L)" "since h s"
  shows "wp (attempt_reply L cfg approve pa) (outcome_evidence (reply_evidence L cfg (h_code s) pa h)) s"
    (is "wp _ ?E s")
proof -
  have respond: "wp (handle (host_respond (l_spake L) (h_code s) (hc_host_id cfg) pa rnd)
      (\<lambda>(out, pb, mac_b). bnd (count_failure L) (\<lambda>_. bnd (send_relay L (PReply pb mac_b)) (\<lambda>_.
         bnd (recv_relay L t) (attempt_got_confirm L cfg approve out))))
      (\<lambda>_. reject_relay L FMalformed)) ?E u" if u: "since h u" for rnd t u
    unfolding wp_handle
  proof (rule wpI)
    fix r u'
    assume run: "host_respond (l_spake L) (h_code s) (hc_host_id cfg) pa rnd u = (r, u')"
    have counted: "wp (bnd (count_failure L) (\<lambda>_. bnd (send_relay L (PReply pb mac_b)) (\<lambda>_.
         bnd (recv_relay L t) (attempt_got_confirm L cfg approve out)))) ?E u'"
      if "r = Ok (out, pb, mac_b)" for out pb mac_b
    proof -
      from run that have k: "host_respond (l_spake L) (h_code s) (hc_host_id cfg) pa rnd u = (Ok (out, pb, mac_b), u')"
        by simp
      then have "since h u'" using host_respond_result [OF k, of u] u by simp
      moreover have "wp (bnd (send_relay L (PReply pb mac_b)) (\<lambda>_. bnd (recv_relay L t)
          (attempt_got_confirm L cfg approve out))) ?E v" if "since h v" for v
        by (rule wp_mono [OF replied_evidence [OF assms(1) that]])
          (use host_respond_result [OF k, of "()"] in \<open>unfold outcome_evidence_def reply_evidence_def, blast\<close>)
      ultimately show ?thesis
        unfolding wp_bnd [of "count_failure L"]
        by (intro wp_mono [OF wp_since [OF acc_count_failure]]) (auto simp: after_def split: res.splits)
    qed
    then show "after (\<lambda>a. wp (case a of (out, pb, mac_b) \<Rightarrow> bnd (count_failure L) (\<lambda>_.
         bnd (send_relay L (PReply pb mac_b)) (\<lambda>_. bnd (recv_relay L t) (attempt_got_confirm L cfg approve out)))) ?E)
        (\<lambda>x. wp (reject_relay L FMalformed) ?E) ?E r u'"
      by (auto simp: after_def no_session split: res.splits)
  qed
  show ?thesis
    unfolding attempt_reply_def wp_bnd [of "in_world _"] wp_in_world wp_ext_total
    by (auto simp: wp_bnd [of "gets _"] wp_gets split: prod.splits
        intro!: respond since_same [OF assms(2)])
qed

text \<open>Everything a session of \<open>serve_next\<close> rests on, from the code of the host on.\<close>

definition session_rests_on ::
  "('w, 'rtc, 'p, 'k, 'st, 'out, 'sk, 'xk, 'rnd) host_libs \<Rightarrow> ('sk, 'xk) host_config \<Rightarrow> ustr \<Rightarrow>
   hevent list \<Rightarrow> peer_identity \<Rightarrow> 'w host_run \<Rightarrow> bool"
where
  "session_rests_on L cfg code h v s \<longleftrightarrow>
     (\<exists>d pa. relay_of (l_wire L) d = RelMsg (PStart pa) \<and> seen h (EvGot d) s \<and>
        reply_evidence L cfg code pa h v s)"

lemma got_start_evidence:
  fixes s :: "'w host_run" and L :: "('w, 'rtc, 'p, 'k, 'st, 'out, 'sk, 'xk, 'rnd) host_libs"
  assumes "wire_ok (l_wire L)" "since h s" "seen h (EvGot d) s"
  shows "wp (attempt_got_start L cfg approve (relay_of (l_wire L) d))
    (outcome_evidence (session_rests_on L cfg (h_code s) h)) s"
proof (cases "\<exists>pa. relay_of (l_wire L) d = RelMsg (PStart pa)")
  case True
  then obtain pa where d: "relay_of (l_wire L) d = RelMsg (PStart pa)" by blast
  have "wp (attempt_reply L cfg approve pa) (outcome_evidence (session_rests_on L cfg (h_code s) h)) s"
    by (rule wp_mono [OF wp_keeps_seen [OF reply_gives_evidence [OF assms(1,2)] acc_reply assms(3)]])
      (use d in \<open>auto simp: outcome_evidence_def session_rests_on_def\<close>)
  with d show ?thesis by (simp add: attempt_got_start_def)
next
  case False
  then show ?thesis
    by (auto simp: attempt_got_start_def wp_ret no_session split: relay.splits pake_msg.splits)
qed

lemma attempt_evidence:
  fixes s :: "'w host_run" and L :: "('w, 'rtc, 'p, 'k, 'st, 'out, 'sk, 'xk, 'rnd) host_libs"
  assumes "wire_ok (l_wire L)" "since h s"
  shows "wp (attempt L cfg approve) (outcome_evidence (session_rests_on L cfg (h_code s) h)) s"
    (is "wp _ ?E s")
proof -
  have allow: "wp (bnd (recv_relay L d) (attempt_got_start L cfg approve)) ?E u"
    if u: "since h u" "h_code u = h_code s" for d u
    unfolding wp_bnd
  proof (rule recv_relay_any)
    fix v u'
    assume l: "logged (EvGot v) u u'"
    from got_start_evidence [OF assms(1), of h u' v cfg approve] since_logged [OF u(1) l] logged_host(2) [OF l] u(2)
    show "after (\<lambda>a. wp (attempt_got_start L cfg approve a) ?E) (\<lambda>x. ?E (Err x)) ?E
        (Ok (relay_of (l_wire L) v)) u'" by simp
  qed simp_all
  have refuse: "wp (bnd (send_relay L (PRetryAfter ms)) (\<lambda>_. kicked L WaitRequired)) ?E u" for ms u
    by (intro wp_bnd_any no_session) simp_all
  show ?thesis
    unfolding attempt_def wp_bnd [of "get_now L"]
    by (rule get_now_any) (use assms(2) in \<open>auto simp: wp_bnd [of "gets _"] wp_gets
        wp_bnd [of "record_event _"] wp_record_event since_def same_host
        intro!: refuse allow split: sum.splits\<close>)
qed

lemma serve_next_evidence:
  fixes s :: "'w host_run" and L :: "('w, 'rtc, 'p, 'k, 'st, 'out, 'sk, 'xk, 'rnd) host_libs"
  assumes "wire_ok (l_wire L)"
  shows "since h s \<Longrightarrow>
    wp (serve_next L cfg approve n) (outcome_evidence (session_rests_on L cfg (h_code s) h)) s"
proof (induction n arbitrary: s)
  case (Suc n)
  let ?E = "outcome_evidence (session_rests_on L cfg (h_code s) h)"
  show ?case
    unfolding serve_next.simps wp_bnd wp_map_err
  proof (rule link_recv_any)
    fix v s'
    assume l: "logged (EvGot v) s s'"
    have s': "since h s'" "h_code s' = h_code s"
      using since_logged [OF Suc.prems l] logged_host(2) [OF l] by simp_all
    from Suc.IH [OF s'(1)] attempt_evidence [OF assms s'(1), of cfg approve] s'(2)
    show "after (\<lambda>a. after (\<lambda>v. wp (if v \<noteq> Some SHViewerJoined then serve_next L cfg approve n
          else attempt L cfg approve) ?E) (\<lambda>x. ?E (Err x)) ?E (Ok a))
        (\<lambda>x. after (\<lambda>v. wp (if v \<noteq> Some SHViewerJoined then serve_next L cfg approve n
          else attempt L cfg approve) ?E) (\<lambda>x. ?E (Err x)) ?E (Err (HELink x)))
        (after (\<lambda>v. wp (if v \<noteq> Some SHViewerJoined then serve_next L cfg approve n
          else attempt L cfg approve) ?E) (\<lambda>x. ?E (Err x)) ?E) (Ok v) s'" by simp
  qed (simp_all)
qed (simp add: wp_hang)

end
