(* ===== verification/HostSample.thy ===== *)
theory HostSample
  imports HostAccount SignalingHex
begin

text \<open>
  A host that runs: the sample libraries of the components put together, a link that delivers what
  a script says at each moment, and an engine that plays a list of outputs.  The witnesses of the
  properties of the host are runs of it.  Its world is the time beside some other part \<open>'t\<close>, which the
  libraries do not touch.
\<close>

section \<open>Libraries\<close>

text \<open>An engine whose state is the list of outputs it has left; accepting an offer loads the list.\<close>

definition tape_rtc :: "rtc_output list \<Rightarrow> (rtc_output list, unit) rtc_lib" where
  "tape_rtc tape =
     \<lparr>rtc_build = (\<lambda>t. []), rtc_candidate = (\<lambda>a. Inr []), rtc_add_candidate = (\<lambda>c r. r),
      rtc_poll_output = (\<lambda>r. case r of [] \<Rightarrow> (Inr (OTimeout 0), []) | x # xs \<Rightarrow> (Inr x, xs)),
      rtc_timeout = (\<lambda>t r. (Inr (), r)), rtc_datagram_ok = (\<lambda>b. True),
      rtc_receive = (\<lambda>t a b m r. (Inr (), r)), rtc_offer = (\<lambda>l r. (Some (lit ''offer'', ()), tape)),
      sdp_offer = Inr, rtc_accept_offer = (\<lambda>sdp r. (Inr (lit ''answer''), tape)), sdp_answer = Inr,
      rtc_accept_answer = (\<lambda>p a r. (Inr (), r)), rtc_has_channel = (\<lambda>i r. True),
      rtc_write = (\<lambda>i d r. (Inr True, r)), rtc_local_fp = (\<lambda>r. [1]), rtc_remote_fp = (\<lambda>r. Some [2]),
      rtc_close = (\<lambda>r. (Inr (), r))\<rparr>"

lemma tape_rtc_simps [simp]:
  "rtc_poll_output (tape_rtc tape) r = (case r of [] \<Rightarrow> (Inr (OTimeout 0), []) | x # xs \<Rightarrow> (Inr x, xs))"
  "rtc_accept_offer (tape_rtc tape) sdp r = (Inr (lit ''answer''), tape)"
  "rtc_offer (tape_rtc tape) l r = (Some (lit ''offer'', ()), tape)"
  "sdp_offer (tape_rtc tape) = Inr" "sdp_answer (tape_rtc tape) = Inr"
  "rtc_accept_answer (tape_rtc tape) p a r = (Inr (), r)"
  "rtc_has_channel (tape_rtc tape) i r" "rtc_write (tape_rtc tape) i d r = (Inr True, r)"
  "rtc_local_fp (tape_rtc tape) r = [1]" "rtc_remote_fp (tape_rtc tape) r = Some [2]"
  "rtc_close (tape_rtc tape) r = (Inr (), r)" "rtc_candidate (tape_rtc tape) addr = Inr []"
  "rtc_add_candidate (tape_rtc tape) c r = r" "rtc_build (tape_rtc tape) t = []"
  by (simp_all add: tape_rtc_def)

type_synonym 't sample_libs =
  "('t \<times> nat, rtc_output list, unit, bytes, bytes \<times> bytes, bytes \<times> bytes, byte, byte, byte) host_libs"

definition sample_host :: "(nat \<Rightarrow> server_to_host option) \<Rightarrow> rtc_output list \<Rightarrow> 't sample_libs" where
  "sample_host script tape =
     \<lparr>l_os = beside_os sample_os, l_rtc = tape_rtc tape, l_wire = sample_wire, l_aead = sample_aead,
      l_spake = sample_spake, l_id = sample_id_lib, l_rng = (\<lambda>w. ([2], w)),
      l_send = (\<lambda>m w. (Ok (), w)), l_recv = (\<lambda>t w. (Ok (script (snd w)), fst w, Suc (snd w))), l_drop = Pair (), l_fuel = 9\<rparr>"

lemma sample_host_simps [simp]:
  "l_os (sample_host sc tape) = beside_os sample_os" "l_rtc (sample_host sc tape) = tape_rtc tape"
  "l_wire (sample_host sc tape) = sample_wire" "l_aead (sample_host sc tape) = sample_aead"
  "l_spake (sample_host sc tape) = sample_spake" "l_id (sample_host sc tape) = sample_id_lib"
  "l_rng (sample_host sc tape) = (\<lambda>w. ([2], w))" "l_send (sample_host sc tape) = (\<lambda>m w. (Ok (), w))"
  "l_recv (sample_host sc tape) = (\<lambda>t w. (Ok (sc (snd w)), fst w, Suc (snd w)))" "l_fuel (sample_host sc tape) = 9"
  by (simp_all add: sample_host_def)

definition sample_host_config :: "(byte, byte) host_config" where
  "sample_host_config =
     \<lparr>hc_host_id = lit ''123456789'', hc_keys = \<lparr>signing_key = 1, reconnect_secret = 2, dk_name = lit ''h''\<rparr>,
      hc_bind_ips = [V4 0x7F000001], hc_timeouts = default_timeouts, hc_protocol_version = 1\<rparr>"

definition run_beside :: "'t \<Rightarrow> ('t \<times> nat) host_run" where
  "run_beside a = \<lparr>world = (a, 0), history = [], h_code = lit ''123456'', h_limiter = limiter_new\<rparr>"

definition sample_run :: "(unit \<times> nat) host_run" where
  "sample_run = \<lparr>world = ((), 0), history = [], h_code = lit ''123456'', h_limiter = limiter_new\<rparr>"

text \<open>The time goes on.\<close>

abbreviation moved :: "nat \<Rightarrow> 't \<times> nat \<Rightarrow> 't \<times> nat" where
  "moved n w \<equiv> (fst w, snd w + n)"

definition sample_relay :: "pake_msg \<Rightarrow> ustr" where
  "sample_relay m = to_hex (sample_pake_to m)"

lemma sample_relay_of [simp]: "relay_of sample_wire (Some (SHRelay (sample_relay m))) = RelMsg m"
  by (simp add: relay_of_def relay_parse_def sample_relay_def sample_wire_def from_hex_to_hex
      pake_decode_def sample_pake_roundtrip)

lemma sample_told [simp]: "told sample_wire (EvSent (HSRelay (sample_relay m))) = Some m"
  by (simp add: told_def relay_parse_def sample_relay_def sample_wire_def from_hex_to_hex
      pake_decode_def sample_pake_roundtrip)

lemma sample_relay_of_others [simp]:
  "relay_of w (Some SHViewerLeft) = RelLeft" "relay_of w (Some SHViewerJoined) = RelMalformed"
  "relay_of w None = RelTimedOut"
  by (simp_all add: relay_of_def)

section \<open>Steps of the sample host\<close>

lemma sample_recv [simp]:
  "link_recv (sample_host sc tape) d s =
     (Ok (sc (snd (world s))),
      s\<lparr>world := moved 1 (world s), history := history s @ [EvGot (sc (snd (world s)))]\<rparr>)"
  by (simp add: link_recv_def noting_def in_world_def record_event_def run_simps)

lemma sample_send [simp]:
  "link_send (sample_host sc tape) m s = (Ok (), s\<lparr>history := history s @ [EvSent m]\<rparr>)"
  by (simp add: link_send_def noting_def in_world_def record_event_def run_simps)

lemma sample_now [simp]:
  "get_now (sample_host sc tape) s = (Ok (snd (world s)), s\<lparr>world := moved 1 (world s)\<rparr>)"
  by (simp add: get_now_def in_world_def now_def ext_total_def sample_os_def beside_os_def beside_def)

lemma sample_send_relay [simp]:
  "send_relay (sample_host sc tape) m s =
     (Ok (), s\<lparr>history := history s @ [EvSent (HSRelay (sample_relay m))]\<rparr>)"
  by (simp add: send_relay_def pake_encode_def sample_wire_def sample_relay_def run_simps del: sample_pake_to.simps)

lemma sample_recv_relay [simp]:
  "recv_relay (sample_host sc tape) d s =
     (Ok (relay_of sample_wire (sc (snd (world s)))),
      s\<lparr>world := moved 1 (world s), history := history s @ [EvGot (sc (snd (world s)))]\<rparr>)"
  by (simp add: recv_relay_def run_simps)

lemma sample_kicked [simp]:
  "kicked (sample_host sc tape) f s = (Ok (Failed f), s\<lparr>history := history s @ [EvSent HSKick]\<rparr>)"
  by (simp add: kicked_def run_simps)

section \<open>A viewer that guesses and leaves\<close>

definition guess_script :: "nat \<Rightarrow> server_to_host option" where
  "guess_script n =
     (if n = 0 then Some SHViewerJoined
      else if n = 2 then Some (SHRelay (sample_relay (PStart [9]))) else Some SHViewerLeft)"

lemma guess_script_simps [simp]:
  "guess_script 0 = Some SHViewerJoined"
  "guess_script (Suc (Suc 0)) = Some (SHRelay (sample_relay (PStart [9])))"
  "guess_script (Suc (Suc (Suc (Suc n)))) = Some SHViewerLeft"
  by (simp_all add: guess_script_def)

definition sample_mac_b :: bytes where
  "sample_mac_b = sample_mac (code_input (lit ''123456'')) (host_id_bytes (lit ''123456789''))"

lemma sample_lengths:
  "length (as_bytes (lit ''123456'')) = 6" "length (as_bytes (lit ''123456789'')) = 9"
  by code_simp+

lemma sample_respond [simp]:
  "host_respond sample_spake (lit ''123456'') (lit ''123456789'') pa [2] s =
     (Ok ((sample_mac_b, pa @ [2]), [2], sample_mac_b), s)"
  by (simp add: host_respond_def sample_spake_def sample_start_def code_scalar_def code_input_def
      host_id_bytes_def sample_mac_b_def sample_lengths run_simps)

lemma sample_count_failure [simp]:
  "h_limiter s = limiter_new \<Longrightarrow> count_failure (sample_host sc tape) s =
     (Ok (), s\<lparr>world := moved 1 (world s), h_limiter := fst (limiter_record_failure limiter_new (snd (world s))),
        history := history s @ [EvFailureRecorded (snd (world s)) False]\<rparr>)"
  by (simp add: count_failure_def run_simps record_event_def limiter_record_failure_def limiter_new_def Let_def
      word_le_nat_alt)

lemma limiter_new_check [simp]: "limiter_check limiter_new t = Inr ()"
  by (simp add: limiter_check_def limiter_new_def)

definition guess_history :: "hevent list" where
  "guess_history =
     [EvGot (Some SHViewerJoined), EvChecked 1 (Inr ()),
      EvGot (Some (SHRelay (sample_relay (PStart [9])))), EvFailureRecorded 3 False,
      EvSent (HSRelay (sample_relay (PReply [2] sample_mac_b))), EvGot (Some SHViewerLeft)]"

lemma guess_run:
  "serve_next (sample_host guess_script tape) sample_host_config approve 1 sample_run =
     (Ok (Failed NoConfirm), sample_run\<lparr>world := ((), 5), history := guess_history,
        h_limiter := fst (limiter_record_failure limiter_new 3)\<rparr>)"
  by (simp add: sample_run_def run_simps attempt_def record_event_def
      attempt_got_start_def attempt_reply_def in_world_def ext_total_def sample_host_config_def
      attempt_got_confirm_def guess_history_def
      numeral_3_eq_3)

end
