(* ===== verification/SessionSample.thy ===== *)
theory SessionSample
  imports HostSample HostAuth
begin

text \<open>
  A run of the sample host that ends with a session: a viewer with the right code, whose offer the
  host answers, whose Hello it verifies and whom the user accepts.
\<close>

declare sample_control_to.simps [simp del] sample_pake_to.simps [simp del]

section \<open>Keys, offer and Hello of the viewer\<close>

definition sample_keys :: session_keys where
  "sample_keys = derived_keys sample_spake (sample_mac_b @ [9, 2])"

definition sample_sealed :: "bytes \<Rightarrow> bytes \<Rightarrow> bytes" where
  "sample_sealed key m = u64_be 0 @ m @ take 16 (key @ replicate 16 0)"

definition sample_viewer_keys :: "(byte, byte) device_keys" where
  "sample_viewer_keys = \<lparr>signing_key = 3, reconnect_secret = 4, dk_name = lit ''v''\<rparr>"

definition sample_hello :: hello where
  "sample_hello = make_hello sample_id_lib sample_viewer_keys RViewer (hello_binding sample_keys) [2] [1]"

definition sample_viewer_id :: peer_identity where
  "sample_viewer_id = \<lparr>pi_device_key = replicate 32 3, pi_name = lit ''v'', pi_reconnect_key = replicate 32 4\<rparr>"

definition sample_tape :: "rtc_output list" where
  "sample_tape =
     [OEvent (EvChannelOpen 7 CONTROL_LABEL), OEvent (EvChannelData 7 (sample_control_to (CHello sample_hello)))]"

definition session_script :: "nat \<Rightarrow> server_to_host option" where
  "session_script n =
     (if n = 0 then Some SHViewerJoined
      else if n = 2 then Some (SHRelay (sample_relay (PStart [9])))
      else Some (SHRelay (sample_relay (PConfirm sample_mac_b
             (sample_sealed (viewer_to_host sample_keys) (as_bytes (lit ''offer'')))))))"

abbreviation session_host :: "'t sample_libs" where
  "session_host \<equiv> sample_host session_script sample_tape"

section \<open>The pieces\<close>

lemma sample_confirm [simp]:
  "host_confirm sample_spake (sample_mac_b, [9, 2]) sample_mac_b s = (Ok sample_keys, s)"
proof -
  have "hkdf_ok sample_spake" using sample_spake_ok by (simp add: spake_ok_def)
  moreover have "length sample_mac_b = 32"
    by (simp add: sample_mac_b_def sample_mac_def code_input_def host_id_bytes_def sample_lengths)
  ultimately show ?thesis
    by (simp add: host_confirm_def run_simps to_mac_def sample_spake_def [THEN arg_cong, of sp_verify]
        sample_spake_def [THEN arg_cong, of sp_key] derive_run sample_keys_def)
qed

lemma sample_open [simp]:
  "open_sealed sample_aead (sample_sealed k m) (sealed_receiver_new k l) =
     (Ok m, (sealed_receiver_new k l)\<lparr>expected_counter := 1\<rparr>)"
proof -
  have "length (sample_sealed k m) = length m + 24" by (simp add: sample_sealed_def)
  moreover have "take 8 (sample_sealed k m) = u64_be 0" "drop 8 (sample_sealed k m) = m @ take 16 (k @ replicate 16 0)"
    by (simp_all add: sample_sealed_def)
  ultimately show ?thesis
    by (simp add: open_sealed_def sealed_receiver_new_def MIN_SEALED_LEN_def sample_aead_def Let_def
        checked_add_u64_def)
qed

lemma sample_seal [simp]:
  "seal sample_aead m (sealed_sender_new k l) =
     (Ok (sample_sealed k m), (sealed_sender_new k l)\<lparr>snd_counter := 1\<rparr>)"
  by (simp add: seal_def sealed_sender_new_def sample_aead_def sample_sealed_def Let_def checked_add_u64_def)

lemma sample_text [simp]: "from_utf8 (as_bytes (lit ''offer'')) = Some (lit ''offer'')"
  by code_simp

lemma min_rest: "min a n + (n - a) = (n :: nat)"
  by simp

lemma sample_verify:
  "verify_hello sample_id_lib sample_hello RViewer (hello_binding sample_keys) [2] [1] = Inr sample_viewer_id"
proof -
  have "check_device_name (lit ''v'') = Inr ()" by code_simp
  then show ?thesis
    by (simp add: verify_hello_def sample_hello_def make_hello_def Let_def device_public_def
        reconnect_public_def sign_raw_def sample_viewer_keys_def sample_id_lib_def sample_viewer_id_def
        min_rest)
qed

lemma sample_hello_version: "protocol_version sample_hello = 1"
  by (simp add: sample_hello_def make_hello_def Let_def PROTOCOL_VERSION_def)

lemma sample_hello_decodes:
  "control_decode sample_wire (sample_control_to (CHello sample_hello)) = Inr (CHello sample_hello)"
proof -
  have b: "length (put_bytes xs) = 2 * length xs + 1" for xs by (induction xs) auto
  have s: "length (put_str (lit ''v'')) = 121" by code_simp
  have "length (sample_control_to (CHello sample_hello)) \<le> MAX_CONTROL_BYTES"
    by (simp add: sample_hello_def make_hello_def Let_def device_public_def
        reconnect_public_def sign_raw_def sample_viewer_keys_def sample_id_lib_def MAX_CONTROL_BYTES_def b s
        put_nat_def sample_control_to.simps)
  then show ?thesis
    by (intro control_roundtrip [OF sample_wire_ok]) (simp_all add: sample_wire_def)
qed

section \<open>The channel\<close>

definition sample_peer :: "rtc_output list \<Rightarrow> nat option \<Rightarrow> rtc_output list peer" where
  "sample_peer tape c = \<lparr>rtc = tape, sockets = [((V4 0x0A000001, 9), 0)], control_id = c\<rparr>"

definition sample_chan :: "rtc_output list \<Rightarrow> nat option \<Rightarrow> bytes list \<Rightarrow> rtc_output list channel" where
  "sample_chan tape c ds =
     \<lparr>ch_peer = sample_peer tape c, pending = ds, remote_closed = False, local_closed = False\<rparr>"

lemma sample_peer_new [simp]:
  "peer_new (beside_os sample_os) (tape_rtc tape) [V4 0x7F000001] w = (Ok (sample_peer [] None), moved 1 w)"
  by (simp add: peer_new_def sample_os_def beside_os_def beside_def run_simps now_def ext_total_def ext_def
      sample_peer_def insert_socket_def)

lemma sample_channel_new: "channel_new (sample_peer tape c) = sample_chan tape c []"
  by (simp add: channel_new_def sample_chan_def)

lemma sample_accept_offer [simp]:
  "on_chan (on_peer (peer_accept_offer (tape_rtc tape) sdp)) (sample_chan r c ds, s) =
     (Ok (lit ''answer''), sample_chan tape c ds, s)"
  by (simp add: on_chan_def on_peer_def peer_accept_offer_def run_simps rtc_call_def
      sample_chan_def sample_peer_def)

lemma sample_fps [simp]:
  "on_chan (on_peer (peer_local_fp (tape_rtc tape))) (sample_chan r c ds, s) = (Ok [1], sample_chan r c ds, s)"
  "on_chan (on_peer (peer_remote_fp (tape_rtc tape))) (sample_chan r c ds, s) = (Ok (Some [2]), sample_chan r c ds, s)"
  by (simp_all add: on_chan_def on_peer_def peer_local_fp_def peer_remote_fp_def run_simps
      sample_chan_def)

lemma sample_c_now [simp]:
  "on_snd (get_now (sample_host sc tape)) (c, s) = (Ok (snd (world s)), c, s\<lparr>world := moved 1 (world s)\<rparr>)"
  by (simp add: on_snd_def)

lemma sample_c_send [simp]:
  "c_send (sample_host sc tape) m (sample_chan r (Some i) ds, s) =
     (Ok (), sample_chan r (Some i) ds, s\<lparr>history := history s @ [EvTold m]\<rparr>)"
  by (simp add: c_send_def noting_c_def on_chan_def channel_send_def control_encode_def sample_wire_def
      on_peer_def peer_send_def run_simps sample_chan_def sample_peer_def rtc_call_def
      on_snd_def record_event_def)

lemma sample_drain:
  "drain_output (beside_os sample_os) (tape_rtc tape) 9 [] (sample_peer sample_tape None, w) =
     (Ok [PChannelOpen, PData (sample_control_to (CHello sample_hello))], sample_peer [] (Some 7), w)"
  by (simp add: numeral_eq_Suc run_simps rtc_call_def sample_peer_def sample_tape_def
      take_event_def Peer.map_event_def)

lemma sample_os_now [simp]:
  "now sample_os n = (Ok n, Suc n)" "now (beside_os sample_os) w = (Ok (snd w), moved 1 w)"
  by (simp_all add: now_def ext_total_def sample_os_def beside_os_def beside_def)

text \<open>One round of each loop, with the fuel as a successor.\<close>

lemma Suc_eight: "Suc 8 = 9"
  by simp

lemmas loop9 =
  poll_loop.simps(2) [where n = 8, unfolded Suc_eight]
  channel_wait_open.simps(2) [where n = 8, unfolded Suc_eight]
  channel_next.simps(2) [where n = 8, unfolded Suc_eight]
  wait_approval_loop.simps(2) [where n = 8, unfolded Suc_eight]
  code_generate.simps(2) [where fuel = 8, unfolded Suc_eight]

lemma sample_poll:
  "peer_poll (beside_os sample_os) (tape_rtc tape) 9 d (sample_peer sample_tape None, w) =
     (Ok [PChannelOpen, PData (sample_control_to (CHello sample_hello))], sample_peer [] (Some 7), moved 1 w)"
  by (simp add: peer_poll_def loop9 sample_drain run_simps on_snd_def)

lemma sample_wait_open [simp]:
  "Suc (snd (world s)) < d \<Longrightarrow> c_wait_open session_host d (sample_chan sample_tape None [], s) =
     (Ok Ready, sample_chan [] (Some 7) [sample_control_to (CHello sample_hello)],
      s\<lparr>world := moved 2 (world s), history := history s @ [EvOpened Ready]\<rparr>)"
  by (simp add: c_wait_open_def loop9 noting_c_def on_chan_def run_simps on_snd_def
      sample_chan_def on_peer_def sample_poll ch_absorb_def absorb_def record_event_def
     )

lemma sample_c_next [simp]:
  "c_next session_host d (sample_chan r c [sample_control_to (CHello sample_hello)], s) =
     (Ok (NMsg (CHello sample_hello)), sample_chan r c [],
      s\<lparr>history := history s @ [EvHeard (NMsg (CHello sample_hello))]\<rparr>)"
  by (simp add: c_next_def loop9 noting_c_def on_chan_def run_simps on_snd_def sample_chan_def
      ch_pop_def pop_pending_def sample_hello_decodes record_event_def)

section \<open>The run\<close>

definition zero_code :: ustr where
  "zero_code = lit ''000000''"

lemma sample_new_code: "generate_code session_host w = (Ok zero_code, w)"
proof -
  have "u32_from_be (replicate 4 0) = 0" by code_simp
  moreover have "(0 :: u32) < code_limit" by (simp add: code_limit_def word_less_nat_alt)
  moreover have "format06 0 = lit ''000000''" by code_simp
  ultimately show ?thesis
    by (simp add: generate_code_def loop9 sample_os_def beside_os_def beside_def zero_code_def Let_def)
qed

lemma sample_renew [simp]:
  "renew_code session_host s =
     (Ok (), s\<lparr>h_code := zero_code, history := history s @ [EvNewCode]\<rparr>)"
  by (simp add: renew_code_def in_world_def sample_new_code run_simps record_event_def)

abbreviation consent :: "'w ask" where
  "consent \<equiv> \<lambda>r w. (Some True, w)"

text \<open>What the user is asked.\<close>

definition sample_fingerprint :: ustr where
  "sample_fingerprint = the (key_fingerprint sample_id_lib sample_wire (replicate 32 3))"

definition session_request :: approval_request where
  "session_request = \<lparr>ar_viewer_name = lit ''v'', ar_viewer_key_fingerprint = sample_fingerprint\<rparr>"

text \<open>The user agrees: once the viewer has said Hello, the question ends with a yes; \<open>evs\<close> is what is said
  meanwhile.\<close>

definition agrees :: "('t \<times> nat) ask \<Rightarrow> 't \<times> nat \<Rightarrow> 't \<times> nat \<Rightarrow> hevent list \<Rightarrow> bool" where
  "agrees approve w w' evs \<longleftrightarrow>
     (\<forall>s. world s = w \<longrightarrow>
        (wait_approval session_host approve session_request (approval_limit default_timeouts)
           (sample_chan [] (Some 7) [], s) :: (host_error, approval) res \<times> _) =
        (Ok Granted, sample_chan [] (Some 7) [], s\<lparr>world := w', history := history s @ evs\<rparr>))"

lemma agreesD:
  "agrees approve (world s) w' evs \<Longrightarrow>
   wait_approval session_host approve session_request (approval_limit default_timeouts) (sample_chan [] (Some 7) [], s) =
     ((Ok Granted :: (host_error, approval) res), sample_chan [] (Some 7) [],
      s\<lparr>world := w', history := history s @ evs\<rparr>)"
  by (simp add: agrees_def)

lemma agrees_at_once:
  "approve session_request (moved 1 w) = (Some True, w') \<Longrightarrow> agrees approve w w' [EvAsked (Some True)]"
  by (simp add: agrees_def wait_approval_def loop9 run_simps ask_user_def on_snd_def in_world_def ext_total_def
      record_event_def)

text \<open>Or the first look finds no answer, the wait for the viewer ends, and the second look finds it.\<close>

lemma sample_c_next_late:
  "d \<le> snd (world s) \<Longrightarrow> c_next session_host d (sample_chan r c [], s) =
     (Ok NTimedOut, sample_chan r c [],
      s\<lparr>world := moved 1 (world s), history := history s @ [EvHeard NTimedOut]\<rparr>)"
  by (simp add: c_next_def loop9 noting_c_def on_chan_def run_simps on_snd_def sample_chan_def
      ch_pop_def pop_pending_def record_event_def)

lemma agrees_later:
  assumes "approve session_request (moved 1 w) = (None, w1)" "snd w1 = snd w + secs 30 - 1"
    and "approve session_request (moved 2 w1) = (Some True, w')"
  shows "agrees approve w w' [EvAsked None, EvHeard NTimedOut, EvAsked (Some True)]"
proof -
  have "approve session_request (fst w1, Suc (Suc (snd w1))) = (Some True, w')"
    using assms(3) by (simp add: numeral_2_eq_2)
  then show ?thesis
    using assms(1,2)
    by (simp add: agrees_def wait_approval_def loop9 wait_approval_loop.simps(2) [where n = 7, simplified] run_simps
        ask_user_def on_snd_def in_world_def ext_total_def record_event_def sample_c_next_late
        default_timeouts_def secs_def APPROVAL_POLL_def millis_def)
qed

definition session_hello :: hello where
  "session_hello =
     make_hello sample_id_lib (hc_keys sample_host_config) RHost (hello_binding sample_keys) [1] [2]
       \<lparr>protocol_version := 1\<rparr>"

lemma sample_verified:
  "agrees approve (world s) w' evs \<Longrightarrow>
   host_verified session_host default_timeouts approve sample_viewer_id (sample_chan [] (Some 7) [], s) =
     ((Ok (Inr sample_viewer_id) :: (host_error, _) res), sample_chan [] (Some 7) [],
      s\<lparr>world := w', h_code := zero_code,
        history := history s @ evs @ [EvTold (CDecision Accepted), EvNewCode]\<rparr>)"
  using agreesD [of approve s w' evs]
  by (simp add: host_verified_def sample_viewer_id_def sample_fingerprint_def session_request_def
      fingerprint_value [OF sample_wire_ok] run_simps on_snd_def)

lemma sample_heard [simp]:
  "host_heard_hello session_host sample_host_config sample_keys approve [1] [2]
     (NMsg (CHello sample_hello)) =
   host_verified session_host default_timeouts approve sample_viewer_id"
  by (simp add: host_heard_hello_def sample_verify sample_hello_version sample_host_config_def)

lemma sample_handshake_body:
  assumes "agrees approve (moved 4 (world s)) w' evs"
  shows "host_handshake_body session_host sample_host_config sample_keys approve (sample_chan sample_tape None [], s) =
     ((Ok (Inr sample_viewer_id) :: (host_error, _) res), sample_chan [] (Some 7) [],
      s\<lparr>world := w', h_code := zero_code,
        history := history s @ [EvOpened Ready, EvTold (CHello session_hello),
          EvHeard (NMsg (CHello sample_hello))] @ evs @ [EvTold (CDecision Accepted), EvNewCode]\<rparr>)"
proof -
  from assms have agreed: "agrees approve (fst (world s), Suc (Suc (Suc (Suc (snd (world s)))))) w' evs"
    by (simp add: eval_nat_numeral)
  have "hc_timeouts sample_host_config = default_timeouts" "hc_protocol_version sample_host_config = 1"
    "connect_limit default_timeouts = 10000000000"
    by (simp_all add: sample_host_config_def default_timeouts_def secs_def)
  with agreed show ?thesis
    by (simp add: host_handshake_body_def run_simps host_greet_def session_hello_def sample_verified)
qed

lemma sample_handshake:
  "agrees approve (moved 4 (world s)) w' evs \<Longrightarrow>
   host_handshake session_host sample_host_config sample_keys approve (sample_chan sample_tape None []) s =
     ((Ok (Session sample_viewer_id (sample_chan [] (Some 7) [])) :: (host_error, _) res),
      s\<lparr>world := w', h_code := zero_code,
        history := history s @ [EvOpened Ready, EvTold (CHello session_hello),
          EvHeard (NMsg (CHello sample_hello))] @ evs @ [EvTold (CDecision Accepted), EvNewCode]\<rparr>)"
  by (simp add: host_handshake_def scoped_def sample_handshake_body run_simps)

definition session_answer :: pake_msg where
  "session_answer = PAnswer (sample_sealed (host_to_viewer sample_keys) (as_bytes (lit ''answer'')))"

lemma sample_answer_offer:
  "answer_offer session_host sample_keys sdp (sample_chan [] None [], s) =
     (Ok (Inr ()), sample_chan sample_tape None [],
      s\<lparr>history := history s @ [EvSent (HSRelay (sample_relay session_answer))]\<rparr>)"
  by (simp add: answer_offer_def attempt_ok_def run_simps run_local_def infallible_def host_side_def
      on_snd_def session_answer_def)

lemma sample_answer:
  assumes "agrees approve (moved 5 (world s)) w' evs"
  shows "attempt_answer session_host sample_host_config approve sample_keys
     (sample_sealed (viewer_to_host sample_keys) (as_bytes (lit ''offer''))) s =
     (Ok (Session sample_viewer_id (sample_chan [] (Some 7) [])),
      s\<lparr>world := w', h_code := zero_code,
        history := history s @ [EvSent (HSRelay (sample_relay session_answer)), EvOpened Ready,
          EvTold (CHello session_hello), EvHeard (NMsg (CHello sample_hello))] @ evs @
          [EvTold (CDecision Accepted), EvNewCode]\<rparr>)"
proof -
  from assms have asked: "agrees approve (moved 4 (fst (world s), Suc (snd (world s)))) w' evs"
    by (simp add: add.commute)
  have "hc_bind_ips sample_host_config = [V4 0x7F000001]" by (simp add: sample_host_config_def)
  with asked show ?thesis
    by (simp add: attempt_answer_def run_local_def host_side_def attempt_ok_def run_simps in_world_def
        scoped_def sample_channel_new sample_answer_offer sample_handshake)
qed

definition session_history_with :: "hevent list \<Rightarrow> hevent list" where
  "session_history_with evs =
     [EvGot (Some SHViewerJoined), EvChecked 1 (Inr ()),
      EvGot (Some (SHRelay (sample_relay (PStart [9])))), EvFailureRecorded 3 False,
      EvSent (HSRelay (sample_relay (PReply [2] sample_mac_b))),
      EvGot (Some (SHRelay (sample_relay (PConfirm sample_mac_b
        (sample_sealed (viewer_to_host sample_keys) (as_bytes (lit ''offer''))))))),
      EvSuccessRecorded, EvSent (HSRelay (sample_relay session_answer)), EvOpened Ready,
      EvTold (CHello session_hello), EvHeard (NMsg (CHello sample_hello))] @ evs @
     [EvTold (CDecision Accepted), EvNewCode]"

definition session_history :: "hevent list" where
  "session_history = session_history_with [EvAsked (Some True)]"

lemmas session_history_defs = session_history_def session_history_with_def

lemma session_script_simps [simp]:
  "session_script 0 = Some SHViewerJoined"
  "session_script (Suc (Suc 0)) = Some (SHRelay (sample_relay (PStart [9])))"
  "session_script (Suc (Suc (Suc (Suc n)))) = Some (SHRelay (sample_relay (PConfirm sample_mac_b
     (sample_sealed (viewer_to_host sample_keys) (as_bytes (lit ''offer''))))))"
  by (simp_all add: session_script_def)

lemma success_resets [simp]: "limiter_record_success l = limiter_new"
  by (simp add: limiter_record_success_def limiter_new_def)

lemma session_run_beside:
  assumes "agrees approve (a, 10) w' evs"
  shows "serve_next session_host sample_host_config approve 1 (run_beside a) =
     (Ok (Session sample_viewer_id (sample_chan [] (Some 7) [])),
      \<lparr>world = w', history = session_history_with evs, h_code = zero_code, h_limiter = limiter_new\<rparr>)"
proof -
  have "hc_host_id sample_host_config = lit ''123456789''" by (simp add: sample_host_config_def)
  with assms show ?thesis
    by (simp add: run_beside_def run_simps attempt_def record_event_def attempt_got_start_def
        attempt_reply_def in_world_def ext_total_def attempt_got_confirm_def sample_answer
        session_history_with_def numeral_3_eq_3)
qed

lemma session_run:
  "serve_next session_host sample_host_config consent 1 sample_run =
     (Ok (Session sample_viewer_id (sample_chan [] (Some 7) [])),
      \<lparr>world = ((), 11), history = session_history, h_code = zero_code, h_limiter = limiter_new\<rparr>)"
  using session_run_beside [OF agrees_at_once, of consent "()" "((), 11)"]
  by (simp add: run_beside_def sample_run_def session_history_def)

end
