(* ===== verification/HostTheorems.thy ===== *)
theory HostTheorems
  imports SessionSample
begin

text \<open>
  The properties of the host: what every run of \<open>serve_next\<close> has done when it returns, whatever the
  viewer, the server, the network and the user did.  Each is read off the path of the run
  (\<open>HostProtocol\<close>), its milestones, kicks and drops (\<open>HostSafety\<close>) and its accounts (\<open>HostAccount\<close>).
\<close>

section \<open>Properties\<close>

text \<open>C6: The host follows its protocol: every run of \<open>serve_next\<close> walks the machine of
  \<open>HostProtocol\<close> from \<open>Waiting\<close>, and when it returns, the outcome is that of the phase reached; in
  particular only a signaling error makes it return an error.\<close>

theorem host_refines_machine:
  assumes "wire_ok (l_wire L)" and "serve_next L cfg approve n s = (r, s')"
  shows "\<exists>tr q. history s' = history s @ tr \<and> hpath (l_wire L) Waiting tr q \<and>
    (case r of Ok out \<Rightarrow> q = Done (verdict_of out) | Err x \<Rightarrow> q = Done VLinkError | _ \<Rightarrow> True)"
  using serve_next_run [OF assms] by metis

theorem host_refines_machine_witness:
  "\<exists>tr q. guess_history = [] @ tr \<and> hpath sample_wire Waiting tr q \<and> q = Done (VFailed NoConfirm)"
  using host_refines_machine [OF _ guess_run [of "[]" "\<lambda>r w. (None, w)"]]
  by (simp add: sample_wire_ok sample_run_def)

text \<open>C7: Nothing is given away early and nothing is skipped: the security-relevant events of a run
  (the guess allowed, counted, replied to, found right, the offer answered, the channel open, the
  greeting sent, the user's consent, the acceptance) happen at most once each and in this order, and
  all of them have happened exactly when the outcome is a session.\<close>

theorem host_milestones_in_order:
  assumes "wire_ok (l_wire L)" and "serve_next L cfg approve n s = (r, s')"
  shows "\<exists>tr k. history s' = history s @ tr \<and> k \<le> 9 \<and>
    milestones (l_wire L) tr = take k all_milestones \<and>
    (case r of Ok (Session v c) \<Rightarrow> k = 9 | Ok _ \<Rightarrow> k < 9 | Err x \<Rightarrow> k < 9 | _ \<Rightarrow> True)"
proof -
  from serve_next_run [OF assms] obtain tr k q where run: "history s' = history s @ tr"
    "passed (l_wire L) tr q k"
    "case r of Ok out \<Rightarrow> q = Done (verdict_of out) | Err x \<Rightarrow> q = Done VLinkError | _ \<Rightarrow> True"
    by metis
  then show ?thesis
    by (intro exI [of _ tr] exI [of _ k])
      (auto simp: passed_def split: res.splits serve_outcome.splits)
qed

theorem host_milestones_in_order_witness:
  "\<exists>tr k. guess_history = [] @ tr \<and> k \<le> 9 \<and> milestones sample_wire tr = take k all_milestones \<and> k < 9"
  using host_milestones_in_order [OF _ guess_run [of "[]" "\<lambda>r w. (None, w)"]]
  by (simp add: sample_wire_ok sample_run_def)







text \<open>C2: A session is authentic: it rests on a guess that the PAKE confirmed against the host's current
  code and id, and on a Hello received on the data channel whose signature the verified identity gave
  over the binding derived from that very exchange, with the host's protocol version.\<close>

theorem host_session_authentic:
  assumes "wire_ok (l_wire L)" and "serve_next L cfg approve n s = (Ok (Session v c), s')"
  shows "\<exists>d1 pa rnd out pb mac_b e d2 mac_a so sk vh local remote.
    relay_of (l_wire L) d1 = RelMsg (PStart pa) \<and> seen (history s) (EvGot d1) s' \<and>
    host_respond (l_spake L) (h_code s) (hc_host_id cfg) pa rnd () = (Ok (out, pb, mac_b), ()) \<and>
    told (l_wire L) e = Some (PReply pb mac_b) \<and> seen (history s) e s' \<and>
    relay_of (l_wire L) d2 = RelMsg (PConfirm mac_a so) \<and> seen (history s) (EvGot d2) s' \<and>
    host_confirm (l_spake L) out mac_a () = (Ok sk, ()) \<and>
    seen (history s) (EvHeard (NMsg (CHello vh))) s' \<and>
    verify_hello (l_id L) vh RViewer (hello_binding sk) remote local = Inr v \<and>
    protocol_version vh = hc_protocol_version cfg"
proof -
  have "since (history s) s" by (simp add: since_def)
  from serve_next_evidence [OF assms(1) this, of cfg approve n] assms(2)
  have "session_rests_on L cfg (h_code s) (history s) v s'" by (simp add: wp_def)
  then show ?thesis
    unfolding session_rests_on_def reply_evidence_def confirm_evidence_def session_evidence_def
      hello_accepted_def by blast
qed

theorem host_session_authentic_witness:
  "\<exists>d1 pa rnd out pb mac_b e d2 mac_a so sk vh local remote.
    relay_of sample_wire d1 = RelMsg (PStart pa) \<and> EvGot d1 \<in> set session_history \<and>
    host_respond sample_spake (lit ''123456'') (lit ''123456789'') pa rnd () = (Ok (out, pb, mac_b), ()) \<and>
    told sample_wire e = Some (PReply pb mac_b) \<and> e \<in> set session_history \<and>
    relay_of sample_wire d2 = RelMsg (PConfirm mac_a so) \<and> EvGot d2 \<in> set session_history \<and>
    host_confirm sample_spake out mac_a () = (Ok sk, ()) \<and>
    EvHeard (NMsg (CHello vh)) \<in> set session_history \<and>
    verify_hello sample_id_lib vh RViewer (hello_binding sk) remote local = Inr sample_viewer_id \<and>
    protocol_version vh = 1"
  using host_session_authentic [OF _ session_run]
  by (simp add: sample_wire_ok sample_run_def seen_def sample_host_config_def)

text \<open>C11: A code is good for one session: the last things a run with a session does are to take the
  user's consent, accept, and replace the code by a new one of six digits; the limiter starts afresh.\<close>

theorem host_session_consumes_code:
  assumes "wire_ok (l_wire L)" and "serve_next L cfg approve n s = (Ok (Session v c), s')"
  shows "(\<exists>h. history s' = h @ [EvAsked (Some True), EvTold (CDecision Accepted), EvNewCode]) \<and>
    six_digits (h_code s') \<and> h_limiter s' = limiter_new"
proof -
  obtain tr q k where run0: "history s' = history s @ tr" "hpath (l_wire L) Waiting tr q"
    "passed (l_wire L) tr q k" "honest (h_limiter s) tr" "h_limiter s' = bill (h_limiter s) tr"
    "q = Done VSession" "if EvNewCode \<in> set tr then six_digits (h_code s') else h_code s' = h_code s"
    by (rule serve_next_run [OF assms], rule that) simp_all
  then have run: "hpath (l_wire L) Waiting tr (Done VSession)" "passed (l_wire L) tr (Done VSession) k"
    by simp_all
  from hpath_session [OF run(1)] obtain h where h:
    "tr = h @ [EvAsked (Some True), EvTold (CDecision Accepted), EvNewCode]" by blast
  have "milestones (l_wire L) tr = all_milestones" using run(2) by (simp add: passed_def all_milestones_def)
  then have "EvSuccessRecorded \<in> set tr"
    by (simp add: success_milestone [of tr "l_wire L"] all_milestones_def)
  with reset_by_success [OF run(2)] run0 h show ?thesis by auto
qed

theorem host_session_consumes_code_witness:
  "(\<exists>h. session_history = h @ [EvAsked (Some True), EvTold (CDecision Accepted), EvNewCode]) \<and>
    six_digits zero_code \<and> limiter_new = limiter_new"
  using host_session_consumes_code [OF _ session_run] by (simp add: sample_wire_ok)

end
