(* ===== verification/ViewerConnect.thy ===== *)
theory ViewerConnect
  imports Flow
begin

text \<open>
  \<open>crates/viewer-core/src/connect.rs\<close>: the viewer's side of a first connection, from the join
  message of the signaling server to an accepted session or an error, and the Ping of a session.
  The link is owned by \<open>connect\<close> and dropped when it returns, the channel by the scope that made it.
\<close>

section \<open>Errors and results\<close>

datatype side = SideViewer | SideHost

datatype connect_error =
    CWrongCode
  | CRetryAfter duration
  | CHostNotWaiting
  | CBusy
  | CRateLimited
  | CHostLeft
  | CRejected reject_reason
  | CVersionMismatch (cv_ours: u32) (cv_theirs: u32) (cv_older: side)
  | CTimeout stage
  | CSecurity string
  | CLink link_error
  | CTransport transport_error

definition from_join_error :: "link_error \<Rightarrow> connect_error" where
  "from_join_error e =
     (case e of
        LHttp status \<Rightarrow>
          if status = 404 then CHostNotWaiting
          else if status = 409 then CBusy
          else if status = 429 then CRateLimited
          else CLink e
      | _ \<Rightarrow> CLink e)"

fun from_link :: "link_error \<Rightarrow> connect_error" where
  "from_link (LClosed _) = CHostLeft"
| "from_link e = CLink e"

record 'rtc viewer_session =
  vs_host :: peer_identity
  vs_ch :: "'rtc channel"
  vs_next_seq :: u64

type_synonym ('w, 'rtc, 'p, 'k, 'st, 'out, 'sk, 'xk, 'rnd) viewer_libs =
  "(server_to_viewer, viewer_to_server, 'w, 'rtc, 'p, 'k, 'st, 'out, 'sk, 'xk, 'rnd) libs"

type_synonym 'w viewer_run = "(server_to_viewer, viewer_to_server, 'w) run"

section \<open>Relayed messages and control messages\<close>

definition viewer_send_relay ::
  "('w, 'rtc, 'p, 'k, 'st, 'out, 'sk, 'xk, 'rnd) viewer_libs \<Rightarrow> pake_msg \<Rightarrow>
   ('w viewer_run, connect_error, unit) prog"
where
  "viewer_send_relay L msg =
     bnd (pake_encode (l_wire L) msg) (\<lambda>bs.
     handle (link_send L (VSRelay (hex_enc (l_wire L) bs)))
       (\<lambda>_. ret ())
       (\<lambda>e. case e of LClosed _ \<Rightarrow> ret () | _ \<Rightarrow> fail (CLink e)))"

definition viewer_relay_of :: "wire \<Rightarrow> stage \<Rightarrow> server_to_viewer option \<Rightarrow> connect_error + pake_msg" where
  "viewer_relay_of w stage v =
     (case v of
        Some (SVRelay data) \<Rightarrow>
          (case relay_parse w data of
             Some msg \<Rightarrow> Inr msg
           | None \<Rightarrow> Inl (CSecurity ''malformed relay''))
      | Some SVHostLeft \<Rightarrow> Inl CHostLeft
      | Some SVJoined \<Rightarrow> Inl (CSecurity ''unexpected signaling'')
      | None \<Rightarrow> Inl (CTimeout stage))"

definition viewer_recv_relay ::
  "('w, 'rtc, 'p, 'k, 'st, 'out, 'sk, 'xk, 'rnd) viewer_libs \<Rightarrow> duration \<Rightarrow> stage \<Rightarrow>
   ('w viewer_run, connect_error, pake_msg) prog"
where
  "viewer_recv_relay L timeout stage =
     bnd (map_err from_link (link_recv L timeout)) (\<lambda>v. lift_sum (viewer_relay_of (l_wire L) stage v))"

fun control_of :: "stage \<Rightarrow> next_msg \<Rightarrow> connect_error + control" where
  "control_of stage (NMsg msg) = Inr msg"
| "control_of stage NMalformed = Inl (CSecurity ''malformed control'')"
| "control_of stage NClosed = Inl CHostLeft"
| "control_of stage NTimedOut = Inl (CTimeout stage)"

definition next_control ::
  "('w, 'rtc, 'p, 'k, 'st, 'out, 'sk, 'xk, 'rnd) viewer_libs \<Rightarrow> instant \<Rightarrow> stage \<Rightarrow>
   ('rtc channel \<times> 'w viewer_run, connect_error, control) prog"
where
  "next_control L deadline stage =
     bnd (map_err CTransport (c_next L deadline)) (\<lambda>v. lift_sum (control_of stage v))"

section \<open>The handshake on the data channel\<close>

fun viewer_decision :: "peer_identity \<Rightarrow> control \<Rightarrow> connect_error + peer_identity" where
  "viewer_decision host (CDecision Accepted) = Inr host"
| "viewer_decision host (CDecision (Rejected (RVersionMismatch host_version))) =
     Inl (CVersionMismatch PROTOCOL_VERSION host_version
       (if PROTOCOL_VERSION < host_version then SideViewer else SideHost))"
| "viewer_decision host (CDecision (Rejected reason)) = Inl (CRejected reason)"
| "viewer_decision host _ = Inl (CSecurity ''unexpected control'')"

definition viewer_host_identity ::
  "('w, 'rtc, 'p, 'k, 'st, 'out, 'sk, 'xk, 'rnd) viewer_libs \<Rightarrow> session_keys \<Rightarrow> bytes \<Rightarrow> bytes \<Rightarrow>
   control \<Rightarrow> connect_error + peer_identity"
where
  "viewer_host_identity L sk local_fp remote_fp msg =
     (case msg of
        CHello h \<Rightarrow>
          (case verify_hello (l_id L) h RHost (hello_binding sk) remote_fp local_fp of
             Inl _ \<Rightarrow> Inl (CSecurity ''host identity'')
           | Inr host \<Rightarrow> Inr host)
      | _ \<Rightarrow> Inl (CSecurity ''unexpected control''))"

definition viewer_greet ::
  "('w, 'rtc, 'p, 'k, 'st, 'out, 'sk, 'xk, 'rnd) viewer_libs \<Rightarrow> session_keys \<Rightarrow>
   ('sk, 'xk) device_keys \<Rightarrow> timeouts \<Rightarrow> bytes \<Rightarrow> bytes \<Rightarrow>
   ('rtc channel \<times> 'w viewer_run, connect_error, peer_identity) prog"
where
  "viewer_greet L sk keys t local_fp remote_fp =
     bnd (map_err CTransport (c_send L
            (CHello (make_hello (l_id L) keys RViewer (hello_binding sk) local_fp remote_fp)))) (\<lambda>_.
     bnd (on_snd (get_now L)) (\<lambda>now1.
     bnd (next_control L (now1 + signaling_step t) StHello) (\<lambda>msg.
     bnd (lift_sum (viewer_host_identity L sk local_fp remote_fp msg)) (\<lambda>host.
     bnd (on_snd (get_now L)) (\<lambda>now2.
     bnd (next_control L (now2 + approval_limit t + signaling_step t) StDecision) (\<lambda>msg.
     lift_sum (viewer_decision host msg)))))))"

fun viewer_opened ::
  "('w, 'rtc, 'p, 'k, 'st, 'out, 'sk, 'xk, 'rnd) viewer_libs \<Rightarrow> session_keys \<Rightarrow>
   ('sk, 'xk) device_keys \<Rightarrow> timeouts \<Rightarrow> opened \<Rightarrow>
   ('rtc channel \<times> 'w viewer_run, connect_error, peer_identity) prog"
where
  "viewer_opened L sk keys t Ready =
     bnd (on_chan (on_peer (peer_local_fp (l_rtc L)))) (\<lambda>local_fp.
     bnd (on_chan (on_peer (peer_remote_fp (l_rtc L)))) (\<lambda>remote.
     case remote of
       None \<Rightarrow> fail (CSecurity ''no remote fingerprint'')
     | Some remote_fp \<Rightarrow> viewer_greet L sk keys t local_fp remote_fp))"
| "viewer_opened L sk keys t OClosed = fail CHostLeft"
| "viewer_opened L sk keys t OTimedOut = fail (CTimeout StConnect)"

definition viewer_answered ::
  "('w, 'rtc, 'p, 'k, 'st, 'out, 'sk, 'xk, 'rnd) viewer_libs \<Rightarrow> session_keys \<Rightarrow>
   ('sk, 'xk) device_keys \<Rightarrow> timeouts \<Rightarrow> 'p \<Rightarrow> ustr \<Rightarrow>
   ('rtc channel \<times> 'w viewer_run, connect_error, peer_identity) prog"
where
  "viewer_answered L sk keys t offer_pending answer =
     bnd (map_err CTransport (on_chan (on_peer (peer_accept_answer (l_rtc L) offer_pending answer)))) (\<lambda>_.
     bnd (on_snd (get_now L)) (\<lambda>now1.
     bnd (map_err CTransport (c_wait_open L (now1 + connect_limit t)))
       (viewer_opened L sk keys t)))"

text \<open>The answer of the host: the sealed SDP, or a refusal.\<close>

definition viewer_sealed_answer ::
  "('w, 'rtc, 'p, 'k, 'st, 'out, 'sk, 'xk, 'rnd) viewer_libs \<Rightarrow> session_keys \<Rightarrow> pake_msg \<Rightarrow>
   ('rtc channel \<times> 'w viewer_run, connect_error, ustr) prog"
where
  "viewer_sealed_answer L sk msg =
     (case msg of
        PAnswer sealed_answer \<Rightarrow>
          bnd (run_local (snd (viewer_side sk)) (attempt_ok (open_sealed (l_aead L) sealed_answer)))
            (\<lambda>opened.
               case Option.bind opened from_utf8 of
                 None \<Rightarrow> fail (CSecurity ''sealed answer'')
               | Some answer \<Rightarrow> ret answer)
      | PRejected \<Rightarrow> fail (CSecurity ''host rejected confirm'')
      | _ \<Rightarrow> fail (CSecurity ''unexpected relay''))"

definition viewer_handshake ::
  "('w, 'rtc, 'p, 'k, 'st, 'out, 'sk, 'xk, 'rnd) viewer_libs \<Rightarrow> session_keys \<Rightarrow> bytes \<Rightarrow>
   ('sk, 'xk) device_keys \<Rightarrow> timeouts \<Rightarrow>
   ('rtc channel \<times> 'w viewer_run, connect_error, peer_identity) prog"
where
  "viewer_handshake L sk mac_a keys t =
     bnd (map_err CTransport (on_chan (on_peer (peer_create_offer (l_rtc L))))) (\<lambda>(offer, offer_pending).
     bnd (run_local (fst (viewer_side sk)) (infallible (seal (l_aead L) (as_bytes offer))))
       (\<lambda>sealed_offer.
     bnd (on_snd (viewer_send_relay L (PConfirm mac_a sealed_offer))) (\<lambda>_.
     bnd (on_snd (viewer_recv_relay L (signaling_step t) StAnswer)) (\<lambda>msg.
     bnd (viewer_sealed_answer L sk msg) (viewer_answered L sk keys t offer_pending)))))"

section \<open>Connecting\<close>

fun map_reply_err :: "auth_error \<Rightarrow> connect_error" where
  "map_reply_err WrongCode = CWrongCode"
| "map_reply_err _ = CSecurity ''malformed relay''"

definition viewer_got_reply ::
  "('w, 'rtc, 'p, 'k, 'st, 'out, 'sk, 'xk, 'rnd) viewer_libs \<Rightarrow> 'st \<Rightarrow> pake_msg \<Rightarrow>
   ('w viewer_run, connect_error, session_keys \<times> bytes) prog"
where
  "viewer_got_reply L pake msg =
     (case msg of
        PReply pb mac_b \<Rightarrow> map_err map_reply_err (viewer_finish (l_spake L) pake pb mac_b)
      | PRetryAfter ms \<Rightarrow> fail (CRetryAfter (millis (unat ms)))
      | _ \<Rightarrow> fail (CSecurity ''unexpected relay''))"

text \<open>From the keys on: the channel is made and handed to the session, or dropped.\<close>

definition viewer_with_keys ::
  "('w, 'rtc, 'p, 'k, 'st, 'out, 'sk, 'xk, 'rnd) viewer_libs \<Rightarrow> ('sk, 'xk) device_keys \<Rightarrow>
   ip_addr list \<Rightarrow> timeouts \<Rightarrow> session_keys \<Rightarrow> bytes \<Rightarrow>
   ('w viewer_run, connect_error, 'rtc viewer_session) prog"
where
  "viewer_with_keys L keys bind_ips t sk mac_a =
     bnd (map_err CTransport (in_world (peer_new (l_os L) (l_rtc L) bind_ips))) (\<lambda>peer.
     scoped L (channel_new peer)
       (bnd (viewer_handshake L sk mac_a keys t) (\<lambda>host. ret (Inr host)))
       (\<lambda>host ch. ret \<lparr>vs_host = host, vs_ch = ch, vs_next_seq = 0\<rparr>))"

definition viewer_joined ::
  "('w, 'rtc, 'p, 'k, 'st, 'out, 'sk, 'xk, 'rnd) viewer_libs \<Rightarrow> ustr \<Rightarrow> ustr \<Rightarrow>
   ('sk, 'xk) device_keys \<Rightarrow> ip_addr list \<Rightarrow> timeouts \<Rightarrow>
   ('w viewer_run, connect_error, 'rtc viewer_session) prog"
where
  "viewer_joined L host_id code keys bind_ips t =
     bnd (in_world (ext_total (l_rng L))) (\<lambda>rnd.
     bnd (map_err (\<lambda>_. CSecurity ''pake start'') (viewer_start (l_spake L) code host_id rnd))
       (\<lambda>(pake, pa).
     bnd (viewer_send_relay L (PStart pa)) (\<lambda>_.
     bnd (viewer_recv_relay L (signaling_step t) StPake) (\<lambda>msg.
     bnd (viewer_got_reply L pake msg) (\<lambda>(sk, mac_a).
     viewer_with_keys L keys bind_ips t sk mac_a)))))"

definition viewer_connect_body ::
  "('w, 'rtc, 'p, 'k, 'st, 'out, 'sk, 'xk, 'rnd) viewer_libs \<Rightarrow> ustr \<Rightarrow> ustr \<Rightarrow>
   ('sk, 'xk) device_keys \<Rightarrow> ip_addr list \<Rightarrow> timeouts \<Rightarrow>
   ('w viewer_run, connect_error, 'rtc viewer_session) prog"
where
  "viewer_connect_body L host_id code keys bind_ips t =
     bnd (map_err from_link (link_recv L (signaling_step t))) (\<lambda>v.
     case v of
       Some SVJoined \<Rightarrow> viewer_joined L host_id code keys bind_ips t
     | Some SVHostLeft \<Rightarrow> fail CHostLeft
     | Some (SVRelay _) \<Rightarrow> fail (CSecurity ''unexpected relay'')
     | None \<Rightarrow> fail (CTimeout StJoin))"

definition connect ::
  "('w, 'rtc, 'p, 'k, 'st, 'out, 'sk, 'xk, 'rnd) viewer_libs \<Rightarrow> ustr \<Rightarrow> ustr \<Rightarrow>
   ('sk, 'xk) device_keys \<Rightarrow> ip_addr list \<Rightarrow> timeouts \<Rightarrow>
   ('w viewer_run, connect_error, 'rtc viewer_session) prog"
where
  "connect L host_id code keys bind_ips t =
     owning_link L (viewer_connect_body L host_id code keys bind_ips t)"

section \<open>Ping\<close>

text \<open>A program of the channel inside a session.\<close>

definition in_session ::
  "('rtc channel \<times> 'w viewer_run, 'x, 'a) prog \<Rightarrow> ('rtc viewer_session \<times> 'w viewer_run, 'x, 'a) prog"
where
  "in_session m s =
     (case m (vs_ch (fst s), snd s) of (r, c, t) \<Rightarrow> (r, (fst s)\<lparr>vs_ch := c\<rparr>, t))"

primrec ping_loop ::
  "('w, 'rtc, 'p, 'k, 'st, 'out, 'sk, 'xk, 'rnd) viewer_libs \<Rightarrow> nat \<Rightarrow> instant \<Rightarrow> instant \<Rightarrow> u64 \<Rightarrow>
   ('rtc channel \<times> 'w viewer_run, connect_error, duration) prog"
where
  "ping_loop L 0 start deadline sq = hang"
| "ping_loop L (Suc n) start deadline sq =
     bnd (next_control L deadline StPing) (\<lambda>msg.
     if msg = CPong sq then bnd (on_snd (get_now L)) (\<lambda>t. ret (t - start))
     else ping_loop L n start deadline sq)"

definition ping ::
  "('w, 'rtc, 'p, 'k, 'st, 'out, 'sk, 'xk, 'rnd) viewer_libs \<Rightarrow> duration \<Rightarrow>
   ('rtc viewer_session \<times> 'w viewer_run, connect_error, duration) prog"
where
  "ping L timeout =
     bnd (gets (\<lambda>s. vs_next_seq (fst s))) (\<lambda>sq.
     bnd (modify (\<lambda>(v, s). (v\<lparr>vs_next_seq := vs_next_seq v + 1\<rparr>, s))) (\<lambda>_.
     bnd (on_snd (get_now L)) (\<lambda>start.
     bnd (in_session (map_err CTransport (c_send L (CPing sq)))) (\<lambda>_.
     in_session (ping_loop L (l_fuel L) start (start + timeout) sq)))))"

end
