(* ===== verification/ViewerProtocol.thy ===== *)
theory ViewerProtocol
  imports ViewerConnect
begin

text \<open>
  The protocol of the viewer as a machine over the events of a run, and the refinement of
  \<open>connect\<close> to it.  The phases carry what the viewer holds at that point (the PAKE state, the keys,
  the identity of the host), so that the end of a path says where its values came from.
\<close>

section \<open>The machine\<close>

type_synonym vevent = "(server_to_viewer, viewer_to_server) event"

datatype 'st vphase =
    Connecting
  | SeatTaken
  | StartSent 'st
  | KeysAgreed session_keys bytes
  | OfferSent session_keys
  | AnswerGot session_keys
  | ChannelUp session_keys
  | HelloSent session_keys bytes bytes
  | HostKnown peer_identity
  | HostAccepted peer_identity
  | Closing connect_error \<comment> \<open>failed, the channel still to be dropped\<close>
  | Ending connect_error \<comment> \<open>failed, the link still to be dropped\<close>
  | Over "connect_error + peer_identity"
  | Crashed \<comment> \<open>the key derivation panicked\<close>

text \<open>A relay was sent, or the link was found closed, which the next receive will report.\<close>

definition viewer_said :: "wire \<Rightarrow> pake_msg \<Rightarrow> vevent \<Rightarrow> bool" where
  "viewer_said w msg e \<longleftrightarrow>
     (\<exists>d. relay_parse w d = Some msg \<and> e = EvSent (VSRelay d)) \<or> (\<exists>c. e = EvLinkError (LClosed c))"

fun join_refused :: "server_to_viewer option \<Rightarrow> connect_error option" where
  "join_refused (Some SVJoined) = None"
| "join_refused (Some SVHostLeft) = Some CHostLeft"
| "join_refused (Some (SVRelay d)) = Some (CSecurity ''unexpected relay'')"
| "join_refused None = Some (CTimeout StJoin)"

definition reply_refused :: "('k, 'st, 'out) spake \<Rightarrow> 'st \<Rightarrow> pake_msg \<Rightarrow> connect_error \<Rightarrow> bool" where
  "reply_refused sp st msg e \<longleftrightarrow>
     (case msg of
        PReply pb mac_b \<Rightarrow> \<exists>a. viewer_finish sp st pb mac_b () = (Err a, ()) \<and> e = map_reply_err a
      | PRetryAfter ms \<Rightarrow> e = CRetryAfter (millis (unat ms))
      | _ \<Rightarrow> e = CSecurity ''unexpected relay'')"

text \<open>The SDP in a sealed answer.\<close>

definition answer_in :: "aead \<Rightarrow> session_keys \<Rightarrow> bytes \<Rightarrow> ustr option" where
  "answer_in a sk sealed_answer =
     (case fst (open_sealed a sealed_answer (snd (viewer_side sk))) of Ok b \<Rightarrow> from_utf8 b | _ \<Rightarrow> None)"

definition answer_refused :: "aead \<Rightarrow> session_keys \<Rightarrow> pake_msg \<Rightarrow> connect_error \<Rightarrow> bool" where
  "answer_refused a sk msg e \<longleftrightarrow>
     (case msg of
        PAnswer sealed_answer \<Rightarrow> answer_in a sk sealed_answer = None \<and> e = CSecurity ''sealed answer''
      | PRejected \<Rightarrow> e = CSecurity ''host rejected confirm''
      | _ \<Rightarrow> e = CSecurity ''unexpected relay'')"

text \<open>A link error that a send passes on.\<close>

fun not_closed :: "link_error \<Rightarrow> bool" where
  "not_closed (LClosed c) = False"
| "not_closed _ = True"

inductive vstep ::
  "('w, 'rtc, 'p, 'k, 'st, 'out, 'sk, 'xk, 'rnd) viewer_libs \<Rightarrow> ('sk, 'xk) device_keys \<Rightarrow> ustr \<Rightarrow> ustr \<Rightarrow>
   'st vphase \<Rightarrow> vevent \<Rightarrow> 'st vphase \<Rightarrow> bool"
for L keys code hid where
  v_joined: "vstep L keys code hid Connecting (EvGot (Some SVJoined)) SeatTaken"
| v_not_joined: "join_refused v = Some e \<Longrightarrow> vstep L keys code hid Connecting (EvGot v) (Ending e)"
| v_no_start: "vstep L keys code hid SeatTaken EvLinkDropped (Over (Inl (CSecurity ''pake start'')))"
| v_start: "viewer_start (l_spake L) code hid rnd () = (Ok (st, pa), ()) \<Longrightarrow>
    viewer_said (l_wire L) (PStart pa) e \<Longrightarrow> vstep L keys code hid SeatTaken e (StartSent st)"
| v_reply: "viewer_relay_of (l_wire L) StPake v = Inr (PReply pb mac_b) \<Longrightarrow>
    viewer_finish (l_spake L) st pb mac_b () = (Ok (sk, mac_a), ()) \<Longrightarrow>
    vstep L keys code hid (StartSent st) (EvGot v) (KeysAgreed sk mac_a)"
| v_crash: "viewer_relay_of (l_wire L) StPake v = Inr (PReply pb mac_b) \<Longrightarrow>
    viewer_finish (l_spake L) st pb mac_b () = (Panic, ()) \<Longrightarrow>
    vstep L keys code hid (StartSent st) (EvGot v) Crashed"
| v_no_reply: "viewer_relay_of (l_wire L) StPake v = Inl e \<Longrightarrow>
    vstep L keys code hid (StartSent st) (EvGot v) (Ending e)"
| v_bad_reply: "viewer_relay_of (l_wire L) StPake v = Inr msg \<Longrightarrow> reply_refused (l_spake L) st msg e \<Longrightarrow>
    vstep L keys code hid (StartSent st) (EvGot v) (Ending e)"
| v_no_peer: "vstep L keys code hid (KeysAgreed sk mac_a) EvLinkDropped (Over (Inl (CTransport x)))"
| v_no_offer: "vstep L keys code hid (KeysAgreed sk mac_a) EvDropped (Ending (CTransport x))"
| v_confirm: "fst (seal (l_aead L) (as_bytes offer) (fst (viewer_side sk))) = Ok sealed_offer \<Longrightarrow>
    viewer_said (l_wire L) (PConfirm mac_a sealed_offer) e \<Longrightarrow>
    vstep L keys code hid (KeysAgreed sk mac_a) e (OfferSent sk)"
| v_answer: "viewer_relay_of (l_wire L) StAnswer v = Inr (PAnswer sealed_answer) \<Longrightarrow>
    answer_in (l_aead L) sk sealed_answer = Some answer \<Longrightarrow>
    vstep L keys code hid (OfferSent sk) (EvGot v) (AnswerGot sk)"
| v_no_answer: "viewer_relay_of (l_wire L) StAnswer v = Inl e \<Longrightarrow>
    vstep L keys code hid (OfferSent sk) (EvGot v) (Closing e)"
| v_bad_answer: "viewer_relay_of (l_wire L) StAnswer v = Inr msg \<Longrightarrow> answer_refused (l_aead L) sk msg e \<Longrightarrow>
    vstep L keys code hid (OfferSent sk) (EvGot v) (Closing e)"
| v_bad_sdp: "vstep L keys code hid (AnswerGot sk) EvDropped (Ending (CTransport x))"
| v_open: "vstep L keys code hid (AnswerGot sk) (EvOpened Ready) (ChannelUp sk)"
| v_open_closed: "vstep L keys code hid (AnswerGot sk) (EvOpened OClosed) (Closing CHostLeft)"
| v_open_late: "vstep L keys code hid (AnswerGot sk) (EvOpened OTimedOut) (Closing (CTimeout StConnect))"
| v_no_fingerprint:
    "vstep L keys code hid (ChannelUp sk) EvDropped (Ending (CSecurity ''no remote fingerprint''))"
| v_hello: "h = make_hello (l_id L) keys RViewer (hello_binding sk) lf rf \<Longrightarrow>
    vstep L keys code hid (ChannelUp sk) (EvTold (CHello h)) (HelloSent sk lf rf)"
| v_host_hello: "viewer_host_identity L sk lf rf msg = Inr host \<Longrightarrow>
    vstep L keys code hid (HelloSent sk lf rf) (EvHeard (NMsg msg)) (HostKnown host)"
| v_bad_hello: "viewer_host_identity L sk lf rf msg = Inl e \<Longrightarrow>
    vstep L keys code hid (HelloSent sk lf rf) (EvHeard (NMsg msg)) (Closing e)"
| v_no_hello: "control_of StHello v = Inl e \<Longrightarrow>
    vstep L keys code hid (HelloSent sk lf rf) (EvHeard v) (Closing e)"
| v_accepted: "viewer_decision host msg = Inr host \<Longrightarrow>
    vstep L keys code hid (HostKnown host) (EvHeard (NMsg msg)) (HostAccepted host)"
| v_refused: "viewer_decision host msg = Inl e \<Longrightarrow>
    vstep L keys code hid (HostKnown host) (EvHeard (NMsg msg)) (Closing e)"
| v_no_decision: "control_of StDecision v = Inl e \<Longrightarrow>
    vstep L keys code hid (HostKnown host) (EvHeard v) (Closing e)"
| v_transport: "(\<exists>sk lf rf host. p \<in> {AnswerGot sk, ChannelUp sk, HelloSent sk lf rf, HostKnown host}) \<Longrightarrow>
    vstep L keys code hid p (EvTransportError x) (Closing (CTransport x))"
| v_recv_error: "p = Connecting \<or> (\<exists>st. p = StartSent st) \<Longrightarrow>
    vstep L keys code hid p (EvLinkError x) (Ending (from_link x))"
| v_recv_error_open: "vstep L keys code hid (OfferSent sk) (EvLinkError x) (Closing (from_link x))"
| v_send_error: "not_closed x \<Longrightarrow> vstep L keys code hid SeatTaken (EvLinkError x) (Ending (CLink x))"
| v_send_error_open: "not_closed x \<Longrightarrow>
    vstep L keys code hid (KeysAgreed sk mac_a) (EvLinkError x) (Closing (CLink x))"
| v_dropped: "vstep L keys code hid (Closing e) EvDropped (Ending e)"
| v_failed: "vstep L keys code hid (Ending e) EvLinkDropped (Over (Inl e))"
| v_session: "vstep L keys code hid (HostAccepted host) EvLinkDropped (Over (Inr host))"

inductive_cases vstep_over: "vstep L keys code hid p e (Over r)"
inductive_cases vstep_from_over: "vstep L keys code hid (Over r) e q"

section \<open>Refinement\<close>

text \<open>Where a part of a run may stop: \<open>out\<close> gives the phase of a result, and an error leaves the run
  ready for the clean-up event \<open>ev\<close> that leads to the phase \<open>bad\<close> of the error.\<close>

definition stops ::
  "('st vphase \<Rightarrow> vevent \<Rightarrow> 'st vphase \<Rightarrow> bool) \<Rightarrow> vevent \<Rightarrow> (connect_error \<Rightarrow> 'st vphase) \<Rightarrow>
   ('a \<Rightarrow> 'st vphase) \<Rightarrow> 'st vphase \<Rightarrow> vevent list \<Rightarrow> (connect_error, 'a) res \<Rightarrow> 'w viewer_run \<Rightarrow> bool"
where
  "stops step ev bad out p h r s \<longleftrightarrow>
     (case r of
        Ok a \<Rightarrow> went step p h (out a) s
      | Err e \<Rightarrow> \<exists>q. went step p h q s \<and> step q ev (bad e)
      | _ \<Rightarrow> \<exists>q. went step p h q s)"

lemma stops_simps [simp]:
  "stops step ev bad out p h (Ok a) s = went step p h (out a) s"
  "stops step ev bad out p h (Err e) s = (\<exists>q. went step p h q s \<and> step q ev (bad e))"
  "stops step ev bad out p h Panic s = (\<exists>q. went step p h q s)"
  "stops step ev bad out p h Hang s = (\<exists>q. went step p h q s)"
  by (simp_all add: stops_def)

text \<open>Without a channel the clean-up is the drop of the link, with one first that of the channel.\<close>

abbreviation v_stops ::
  "('w, 'rtc, 'p, 'k, 'st, 'out, 'sk, 'xk, 'rnd) viewer_libs \<Rightarrow> ('sk, 'xk) device_keys \<Rightarrow> ustr \<Rightarrow> ustr \<Rightarrow>
   ('a \<Rightarrow> 'st vphase) \<Rightarrow> vevent list \<Rightarrow> (connect_error, 'a) res \<Rightarrow> 'w viewer_run \<Rightarrow> bool" where
  "v_stops L keys code hid out h \<equiv>
     stops (vstep L keys code hid) EvLinkDropped (\<lambda>e. Over (Inl e)) out Connecting h"

abbreviation c_stops ::
  "('w, 'rtc, 'p, 'k, 'st, 'out, 'sk, 'xk, 'rnd) viewer_libs \<Rightarrow> ('sk, 'xk) device_keys \<Rightarrow> ustr \<Rightarrow> ustr \<Rightarrow>
   vevent list \<Rightarrow> (connect_error, peer_identity) res \<Rightarrow> 'rtc channel \<times> 'w viewer_run \<Rightarrow> bool" where
  "c_stops L keys code hid h r t \<equiv>
     stops (vstep L keys code hid) EvDropped Ending HostAccepted Connecting h r (snd t)"

abbreviation v_went ::
  "('w, 'rtc, 'p, 'k, 'st, 'out, 'sk, 'xk, 'rnd) viewer_libs \<Rightarrow> ('sk, 'xk) device_keys \<Rightarrow> ustr \<Rightarrow> ustr \<Rightarrow>
   vevent list \<Rightarrow> 'st vphase \<Rightarrow> 'w viewer_run \<Rightarrow> bool" where
  "v_went L keys code hid h \<equiv> went (vstep L keys code hid) Connecting h"

lemma v_ending: "v_went L keys code hid h (Ending e) s \<Longrightarrow> v_stops L keys code hid out h (Err e) s"
  by (auto intro: vstep.v_failed)

lemma c_closing: "v_went L keys code hid h (Closing e) s \<Longrightarrow>
   stops (vstep L keys code hid) EvDropped Ending out Connecting h (Err e) s"
  by (auto intro: vstep.v_dropped)

subsection \<open>The link\<close>

lemma viewer_send_any:
  assumes "wire_ok (l_wire L)"
    "\<And>e s'. viewer_said (l_wire L) msg e \<Longrightarrow> logged e s s' \<Longrightarrow> Q (Ok ()) s'"
    "\<And>x s'. not_closed x \<Longrightarrow> logged (EvLinkError x) s s' \<Longrightarrow> Q (Err (CLink x)) s'"
    "\<And>s'. same s s' \<Longrightarrow> Q Panic s'" "\<And>s'. same s s' \<Longrightarrow> Q Hang s'"
  shows "wp (viewer_send_relay L msg) Q s"
proof -
  obtain d where d: "relay_text (l_wire L) msg = Some d" "relay_parse (l_wire L) d = Some msg"
    using relay_roundtrip [OF assms(1)] by blast
  then obtain bs where bs: "pake_to (l_wire L) msg = Some bs" "d = hex_enc (l_wire L) bs"
    by (auto simp: relay_text_def)
  have sent: "Q (Ok ()) s'" if "logged (EvSent (VSRelay d)) s s'" for s'
    using assms(2) [OF _ that] d(2) by (simp add: viewer_said_def)
  have lost: "wp (case x of LClosed y \<Rightarrow> ret () | _ \<Rightarrow> fail (CLink x)) Q s'"
    if l: "logged (EvLinkError x) s s'" for x s'
  proof (cases "\<exists>c. x = LClosed c")
    case True
    with assms(2) [OF _ l] show ?thesis by (auto simp: wp_ret viewer_said_def)
  next
    case False
    then have "not_closed x" by (cases x) auto
    with assms(3) [OF this l] show ?thesis by (cases x) (simp_all add: wp_fail)
  qed
  show ?thesis
    unfolding viewer_send_relay_def pake_encode_def wp_bnd
    using bs sent lost assms(4,5) by (auto simp: wp_ret wp_handle intro!: link_send_any)
qed

lemma viewer_recv_any:
  "(\<And>v s' msg. logged (EvGot v) s s' \<Longrightarrow> viewer_relay_of (l_wire L) st v = Inr msg \<Longrightarrow> Q (Ok msg) s') \<Longrightarrow>
   (\<And>v s' e. logged (EvGot v) s s' \<Longrightarrow> viewer_relay_of (l_wire L) st v = Inl e \<Longrightarrow> Q (Err e) s') \<Longrightarrow>
   (\<And>x s'. logged (EvLinkError x) s s' \<Longrightarrow> Q (Err (from_link x)) s') \<Longrightarrow>
   (\<And>s'. same s s' \<Longrightarrow> Q Panic s') \<Longrightarrow> (\<And>s'. same s s' \<Longrightarrow> Q Hang s') \<Longrightarrow>
   wp (viewer_recv_relay L t st) Q s"
  unfolding viewer_recv_relay_def wp_map_err wp_bnd
  by (rule link_recv_any) (auto simp: wp_lift_sum split: sum.splits)

lemma next_control_any:
  "(\<And>c s' msg. logged (EvHeard (NMsg msg)) (snd t) s' \<Longrightarrow> Q (Ok msg) (c, s')) \<Longrightarrow>
   (\<And>v c s' e. logged (EvHeard v) (snd t) s' \<Longrightarrow> control_of st v = Inl e \<Longrightarrow> Q (Err e) (c, s')) \<Longrightarrow>
   (\<And>x c s'. logged (EvTransportError x) (snd t) s' \<Longrightarrow> Q (Err (CTransport x)) (c, s')) \<Longrightarrow>
   (\<And>c s'. same (snd t) s' \<Longrightarrow> Q Panic (c, s')) \<Longrightarrow> (\<And>c s'. same (snd t) s' \<Longrightarrow> Q Hang (c, s')) \<Longrightarrow>
   wp (next_control L d st) Q t"
  unfolding next_control_def wp_bnd wp_map_err
proof (rule c_next_any, goal_cases)
  case (1 v c s')
  then show ?case by (cases v) (auto simp: wp_ret wp_fail)
qed auto

subsection \<open>The data channel\<close>

lemma viewer_greet_stops:
  fixes L :: "('w, 'rtc, 'p, 'k, 'st, 'out, 'sk, 'xk, 'rnd) viewer_libs"
    and t :: "'rtc channel \<times> 'w viewer_run"
  assumes up: "v_went L keys code hid h (ChannelUp sk) (snd t)"
  shows "wp (viewer_greet L sk keys ts lf rf) (c_stops L keys code hid h) t"
proof -
  have decide: "wp (bnd (next_control L d StDecision) (\<lambda>msg. lift_sum (viewer_decision host msg)))
      (c_stops L keys code hid h) u" if k: "v_went L keys code hid h (HostKnown host) (snd u)" for d host u
    unfolding wp_bnd
  proof (rule next_control_any)
    fix c s' msg
    assume l: "logged (EvHeard (NMsg msg)) (snd u) s'"
    have "viewer_decision host msg = Inr x \<Longrightarrow> x = host" for x
      by (cases "(host, msg)" rule: viewer_decision.cases) auto
    then show "after (\<lambda>a. wp (lift_sum (viewer_decision host a)) (c_stops L keys code hid h))
        (\<lambda>x. c_stops L keys code hid h (Err x)) (c_stops L keys code hid h) (Ok msg) (c, s')"
      using went_logged [OF k l vstep.v_accepted] went_logged [OF k l vstep.v_refused] c_closing
      by (auto simp: wp_lift_sum simp del: stops_simps(2) split: sum.splits)
  qed (auto simp del: stops_simps(2) intro!: c_closing went_same_ex [OF k]
      intro: went_logged [OF k _ vstep.v_no_decision] went_logged [OF k _ vstep.v_transport])
  have know: "wp (bnd (lift_sum (viewer_host_identity L sk lf rf msg)) (\<lambda>host. bnd (on_snd (get_now L)) (\<lambda>now2.
        bnd (next_control L (now2 + d) StDecision) (\<lambda>msg. lift_sum (viewer_decision host msg)))))
      (c_stops L keys code hid h) u"
    if k: "v_went L keys code hid h (HelloSent sk lf rf) s" and l: "logged (EvHeard (NMsg msg)) s (snd u)"
    for d msg s u
  proof (cases "viewer_host_identity L sk lf rf msg")
    case (Inl e)
    then show ?thesis
      by (auto simp: wp_bnd wp_fail simp del: stops_simps(2) intro!: c_closing
          intro: went_logged [OF k l vstep.v_bad_hello])
  next
    case (Inr host)
    have "wp (bnd (on_snd (get_now L)) (\<lambda>now2. bnd (next_control L (now2 + d) StDecision)
        (\<lambda>msg. lift_sum (viewer_decision host msg)))) (c_stops L keys code hid h) u"
      unfolding wp_bnd [of "on_snd _"]
      by (rule c_now_any) (auto intro!: decide went_same [OF went_logged [OF k l vstep.v_host_hello [OF Inr]]])
    with Inr show ?thesis by (simp add: wp_bnd [of "ret _"] wp_ret)
  qed
  have hear: "wp (bnd (on_snd (get_now L)) (\<lambda>now1. bnd (next_control L (now1 + d) StHello) (\<lambda>msg.
        bnd (lift_sum (viewer_host_identity L sk lf rf msg)) (\<lambda>host. bnd (on_snd (get_now L)) (\<lambda>now2.
        bnd (next_control L (now2 + d') StDecision) (\<lambda>msg. lift_sum (viewer_decision host msg)))))))
      (c_stops L keys code hid h) u"
    if k: "v_went L keys code hid h (HelloSent sk lf rf) (snd u)" for d d' u
    unfolding wp_bnd [of "on_snd _"]
  proof (rule c_now_any)
    fix now1 s'
    assume "same (snd u) s'"
    then have k: "v_went L keys code hid h (HelloSent sk lf rf) s'" by (rule went_same [OF k])
    have "wp (bnd (next_control L (now1 + d) StHello) (\<lambda>msg.
        bnd (lift_sum (viewer_host_identity L sk lf rf msg)) (\<lambda>host. bnd (on_snd (get_now L)) (\<lambda>now2.
        bnd (next_control L (now2 + d') StDecision) (\<lambda>msg. lift_sum (viewer_decision host msg))))))
        (c_stops L keys code hid h) (fst u, s')"
      unfolding wp_bnd [of "next_control L _ _"]
    proof (rule next_control_any, goal_cases)
      case (1 c s2 msg)
      then show ?case using know [OF k] by simp
    next
      case (2 v c s2 e)
      then show ?case
        using went_logged [OF k _ vstep.v_no_hello] c_closing by (simp del: stops_simps(2)) blast
    next
      case (3 x c s2)
      then show ?case
        using went_logged [OF k _ vstep.v_transport] c_closing by (simp del: stops_simps(2)) blast
    qed (auto intro: went_same_ex [OF k])
    then show "after (\<lambda>now1. wp (bnd (next_control L (now1 + d) StHello) (\<lambda>msg.
        bnd (lift_sum (viewer_host_identity L sk lf rf msg)) (\<lambda>host. bnd (on_snd (get_now L)) (\<lambda>now2.
        bnd (next_control L (now2 + d') StDecision) (\<lambda>msg. lift_sum (viewer_decision host msg))))))
        (c_stops L keys code hid h)) (\<lambda>x. c_stops L keys code hid h (Err x)) (c_stops L keys code hid h)
        (Ok now1 :: (connect_error, instant) res) (fst u, s')" by simp
  qed
  show ?thesis
    unfolding viewer_greet_def add.assoc wp_bnd [of "map_err _ _"] wp_map_err
  proof (rule c_send_any, goal_cases)
    case (1 c s')
    then show ?case using hear [of "(c, s')"] went_logged [OF up _ vstep.v_hello] by simp
  next
    case (2 x c s')
    then show ?case
      using went_logged [OF up _ vstep.v_transport] c_closing by (simp del: stops_simps(2)) blast
  qed (auto intro: went_same_ex [OF up])
qed

lemma viewer_opened_stops:
  fixes L :: "('w, 'rtc, 'p, 'k, 'st, 'out, 'sk, 'xk, 'rnd) viewer_libs" and c :: "'rtc channel"
  assumes a: "v_went L keys code hid h (AnswerGot sk) s" and l: "logged (EvOpened v) s s'"
  shows "wp (viewer_opened L sk keys ts v) (c_stops L keys code hid h) (c, s')"
proof (cases v)
  case Ready
  have up: "v_went L keys code hid h (ChannelUp sk) s'"
    by (rule went_logged [OF a l [unfolded Ready] vstep.v_open])
  then have "\<exists>q. v_went L keys code hid h q s' \<and>
      vstep L keys code hid q EvDropped (Ending (CSecurity ''no remote fingerprint''))"
    using vstep.v_no_fingerprint by blast
  with Ready up show ?thesis
    by (auto simp: wp_bnd wp_on_chan wp_on_peer peer_local_fp_def peer_remote_fp_def wp_gets wp_fail
        split: option.splits intro!: viewer_greet_stops)
next
  case OClosed
  then show ?thesis
    using went_logged [OF a l [unfolded OClosed] vstep.v_open_closed] c_closing by (simp add: wp_fail del: stops_simps(2)) blast
next
  case OTimedOut
  then show ?thesis
    using went_logged [OF a l [unfolded OTimedOut] vstep.v_open_late] c_closing by (simp add: wp_fail del: stops_simps(2)) blast
qed

lemma viewer_answered_stops:
  fixes L :: "('w, 'rtc, 'p, 'k, 'st, 'out, 'sk, 'xk, 'rnd) viewer_libs"
    and t :: "'rtc channel \<times> 'w viewer_run"
  assumes a: "v_went L keys code hid h (AnswerGot sk) (snd t)"
  shows "wp (viewer_answered L sk keys ts op answer) (c_stops L keys code hid h) t"
proof -
  have bad: "\<exists>q. v_went L keys code hid h q s \<and> vstep L keys code hid q EvDropped (Ending (CTransport x))"
    if "v_went L keys code hid h (AnswerGot sk) s" for s x
    using that vstep.v_bad_sdp by blast
  have wait: "wp (bnd (map_err CTransport (c_wait_open L d)) (viewer_opened L sk keys ts))
      (c_stops L keys code hid h) u" if k: "v_went L keys code hid h (AnswerGot sk) (snd u)" for d u
    unfolding wp_bnd wp_map_err
  proof (rule c_wait_open_any, goal_cases)
    case (1 v c s')
    then show ?case using viewer_opened_stops [OF k] by simp
  next
    case (2 x c s')
    then show ?case
      using went_logged [OF k _ vstep.v_transport] c_closing by (simp del: stops_simps(2)) blast
  qed (auto intro: went_same_ex [OF k])
  have rest: "wp (bnd (on_snd (get_now L)) (\<lambda>now1. bnd (map_err CTransport (c_wait_open L (now1 + d)))
      (viewer_opened L sk keys ts))) (c_stops L keys code hid h) u"
    if k: "v_went L keys code hid h (AnswerGot sk) (snd u)" for d u
    unfolding wp_bnd [of "on_snd _"]
    by (rule c_now_any) (auto intro!: wait went_same [OF k])
  show ?thesis
    unfolding viewer_answered_def wp_bnd [of "map_err _ (on_chan _)"] wp_map_err wp_on_chan
  proof (rule wp_any)
    fix r and u :: "'rtc channel \<times> 'w"
    have k: "v_went L keys code hid h (AnswerGot sk) ((snd t)\<lparr>world := snd u\<rparr>)"
      by (rule went_same [OF a]) simp
    from rest [of "(fst u, (snd t)\<lparr>world := snd u\<rparr>)"] bad k
    show "after (\<lambda>a. after (\<lambda>_. wp (bnd (on_snd (get_now L)) (\<lambda>now1. bnd (map_err CTransport
          (c_wait_open L (now1 + connect_limit ts))) (viewer_opened L sk keys ts))) (c_stops L keys code hid h))
          (\<lambda>x. c_stops L keys code hid h (Err x)) (c_stops L keys code hid h) (Ok a))
        (\<lambda>x. after (\<lambda>_. wp (bnd (on_snd (get_now L)) (\<lambda>now1. bnd (map_err CTransport
          (c_wait_open L (now1 + connect_limit ts))) (viewer_opened L sk keys ts))) (c_stops L keys code hid h))
          (\<lambda>x. c_stops L keys code hid h (Err x)) (c_stops L keys code hid h) (Err (CTransport x)))
        (after (\<lambda>_. wp (bnd (on_snd (get_now L)) (\<lambda>now1. bnd (map_err CTransport
          (c_wait_open L (now1 + connect_limit ts))) (viewer_opened L sk keys ts))) (c_stops L keys code hid h))
          (\<lambda>x. c_stops L keys code hid h (Err x)) (c_stops L keys code hid h)) r
        (fst u, (snd t)\<lparr>world := snd u\<rparr>)"
      by (cases r) auto
  qed
qed

text \<open>The first message of a sealing end does not overflow its counter.\<close>

lemma first_answer_no_panic:
  "\<exists>r. fst (open_sealed a so (snd (viewer_side sk))) = r \<and> (\<exists>b x. r = Ok b \<or> r = Err x)"
  by (auto simp: open_sealed_def viewer_side_def sealed_receiver_new_def checked_add_u64_def Let_def
      split: option.splits)

text \<open>The answer of the host, after which the link is no longer used.\<close>

lemma viewer_sealed_answer_stops:
  fixes L :: "('w, 'rtc, 'p, 'k, 'st, 'out, 'sk, 'xk, 'rnd) viewer_libs"
    and t :: "'rtc channel \<times> 'w viewer_run"
  assumes a: "v_went L keys code hid h (OfferSent sk) s" and l: "logged (EvGot v) s (snd t)"
    and m: "viewer_relay_of (l_wire L) StAnswer v = Inr msg"
  shows "wp (bnd (viewer_sealed_answer L sk msg) (viewer_answered L sk keys ts op)) (c_stops L keys code hid h) t"
proof -
  have bad: "c_stops L keys code hid h (Err e) t" if "answer_refused (l_aead L) sk msg e" for e
    using went_logged [OF a l vstep.v_bad_answer [OF m that]] by (rule c_closing)
  show ?thesis
  proof (cases "\<exists>sealed_answer. msg = PAnswer sealed_answer")
    case True
    then obtain so where msg: "msg = PAnswer so" by blast
    have good: "wp (viewer_answered L sk keys ts op answer) (c_stops L keys code hid h) t"
      if "answer_in (l_aead L) sk so = Some answer" for answer
      by (rule viewer_answered_stops [OF went_logged [OF a l vstep.v_answer [OF m [unfolded msg] that]]])
    have "fst (open_sealed (l_aead L) so (snd (viewer_side sk))) = Ok b \<Longrightarrow>
        answer_in (l_aead L) sk so = from_utf8 b" for b
      by (simp add: answer_in_def)
    moreover have "fst (open_sealed (l_aead L) so (snd (viewer_side sk))) = Err x \<Longrightarrow>
        answer_in (l_aead L) sk so = None" for x
      by (simp add: answer_in_def)
    moreover have "answer_in (l_aead L) sk so = None \<Longrightarrow>
        answer_refused (l_aead L) sk msg (CSecurity ''sealed answer'')"
      by (simp add: answer_refused_def msg)
    moreover obtain r where r: "fst (open_sealed (l_aead L) so (snd (viewer_side sk))) = r"
      "\<exists>b x. r = Ok b \<or> r = Err x"
      using first_answer_no_panic by blast
    ultimately show ?thesis
      using good bad by (auto simp: msg viewer_sealed_answer_def wp_bnd wp_run_local attempt_ok_def handle_def
          ret_def fail_def wp_fail wp_ret bind_eq_None_conv simp del: stops_simps split: prod.splits option.splits)
  next
    case False
    then have "viewer_sealed_answer L sk msg = fail (CSecurity ''host rejected confirm'') \<and>
          answer_refused (l_aead L) sk msg (CSecurity ''host rejected confirm'') \<or>
        viewer_sealed_answer L sk msg = fail (CSecurity ''unexpected relay'') \<and>
          answer_refused (l_aead L) sk msg (CSecurity ''unexpected relay'')"
      by (cases msg) (simp_all add: viewer_sealed_answer_def answer_refused_def)
    then show ?thesis using bad by (auto simp: wp_bnd wp_fail simp del: stops_simps)
  qed
qed


lemma viewer_offer_stops:
  fixes L :: "('w, 'rtc, 'p, 'k, 'st, 'out, 'sk, 'xk, 'rnd) viewer_libs"
    and t :: "'rtc channel \<times> 'w viewer_run"
  assumes ok: "wire_ok (l_wire L)" and k: "v_went L keys code hid h (KeysAgreed sk mac_a) (snd t)"
    and so: "fst (seal (l_aead L) (as_bytes offer) (fst (viewer_side sk))) = Ok sealed_offer"
  shows "wp (bnd (on_snd (viewer_send_relay L (PConfirm mac_a sealed_offer))) (\<lambda>_.
     bnd (on_snd (viewer_recv_relay L d StAnswer)) (\<lambda>msg.
     bnd (viewer_sealed_answer L sk msg) (viewer_answered L sk keys ts op)))) (c_stops L keys code hid h) t"
proof -
  have recv: "wp (bnd (on_snd (viewer_recv_relay L d StAnswer)) (\<lambda>msg.
      bnd (viewer_sealed_answer L sk msg) (viewer_answered L sk keys ts op))) (c_stops L keys code hid h) u"
    if o: "v_went L keys code hid h (OfferSent sk) (snd u)" for u
    unfolding wp_bnd [of "on_snd _"] wp_on_snd
  proof (rule viewer_recv_any, goal_cases)
    case (1 v s' msg)
    then show ?case using viewer_sealed_answer_stops [OF o, of v "(fst u, s')"] by simp
  next
    case (2 v s' e)
    then show ?case
      using went_logged [OF o _ vstep.v_no_answer] c_closing by (simp del: stops_simps(2)) blast
  next
    case (3 x s')
    then show ?case
      using went_logged [OF o _ vstep.v_recv_error_open] c_closing by (simp del: stops_simps(2)) blast
  qed (auto intro: went_same_ex [OF o])
  show ?thesis
    unfolding wp_bnd [of "on_snd (viewer_send_relay L _)"] wp_on_snd
  proof (rule viewer_send_any [OF ok], goal_cases)
    case (1 e s')
    then show ?case using recv went_logged [OF k _ vstep.v_confirm [OF so]] by simp
  next
    case (2 x s')
    then show ?case
      using went_logged [OF k _ vstep.v_send_error_open] c_closing by (simp del: stops_simps(2)) blast
  qed (auto intro: went_same_ex [OF k])
qed

lemma viewer_handshake_stops:
  fixes L :: "('w, 'rtc, 'p, 'k, 'st, 'out, 'sk, 'xk, 'rnd) viewer_libs"
    and t :: "'rtc channel \<times> 'w viewer_run"
  assumes ok: "wire_ok (l_wire L)" and k: "v_went L keys code hid h (KeysAgreed sk mac_a) (snd t)"
  shows "wp (viewer_handshake L sk mac_a keys ts) (c_stops L keys code hid h) t"
proof -
  have bad: "\<exists>q. v_went L keys code hid h q s \<and> vstep L keys code hid q EvDropped (Ending (CTransport x))"
    if "v_went L keys code hid h (KeysAgreed sk mac_a) s" for s x
    using that vstep.v_no_offer by blast
  let ?rest = "\<lambda>(offer, op). bnd (run_local (fst (viewer_side sk)) (infallible (seal (l_aead L) (as_bytes offer))))
      (\<lambda>sealed_offer. bnd (on_snd (viewer_send_relay L (PConfirm mac_a sealed_offer))) (\<lambda>_.
       bnd (on_snd (viewer_recv_relay L (signaling_step ts) StAnswer)) (\<lambda>msg.
       bnd (viewer_sealed_answer L sk msg) (viewer_answered L sk keys ts op))))"
  have seal: "wp (?rest (offer, op)) (c_stops L keys code hid h) u"
    if g: "v_went L keys code hid h (KeysAgreed sk mac_a) (snd u)" for offer op u
  proof (cases "seal (l_aead L) (as_bytes offer) (fst (viewer_side sk))")
    case (Pair r s2)
    then show ?thesis
      using g viewer_offer_stops [OF ok g, of offer _ "signaling_step ts" ts op]
      by (cases r) (auto simp: wp_bnd [of "run_local _ _"] wp_run_local infallible_def handle_def ret_def
          panic_def)
  qed
  show ?thesis
    unfolding viewer_handshake_def wp_bnd [of "map_err _ (on_chan _)"] wp_map_err wp_on_chan
  proof (rule wp_any)
    fix r :: "(transport_error, ustr \<times> 'p) res" and u :: "'rtc channel \<times> 'w"
    have g: "v_went L keys code hid h (KeysAgreed sk mac_a) ((snd t)\<lparr>world := snd u\<rparr>)"
      by (rule went_same [OF k]) simp
    then show "after (\<lambda>a. after (\<lambda>x. wp (?rest x) (c_stops L keys code hid h))
          (\<lambda>x. c_stops L keys code hid h (Err x)) (c_stops L keys code hid h) (Ok a))
        (\<lambda>x. after (\<lambda>x. wp (?rest x) (c_stops L keys code hid h))
          (\<lambda>x. c_stops L keys code hid h (Err x)) (c_stops L keys code hid h) (Err (CTransport x)))
        (after (\<lambda>x. wp (?rest x) (c_stops L keys code hid h))
          (\<lambda>x. c_stops L keys code hid h (Err x)) (c_stops L keys code hid h)) r
        (fst u, (snd t)\<lparr>world := snd u\<rparr>)"
      using seal [of "(fst u, (snd t)\<lparr>world := snd u\<rparr>)"] bad by (cases r) auto
  qed
qed

subsection \<open>Connecting\<close>

lemma viewer_with_keys_stops:
  fixes L :: "('w, 'rtc, 'p, 'k, 'st, 'out, 'sk, 'xk, 'rnd) viewer_libs" and s :: "'w viewer_run"
  assumes ok: "wire_ok (l_wire L)" and k: "v_went L keys code hid h (KeysAgreed sk mac_a) s"
  shows "wp (viewer_with_keys L keys ips ts sk mac_a) (v_stops L keys code hid (\<lambda>v. HostAccepted (vs_host v)) h) s"
    (is "wp _ ?Q s")
proof -
  have drop: "wp (bnd (drop_channel L c) (\<lambda>_. fail e)) ?Q u"
    if "c_stops L keys code hid h (Err e) (c, u)" for c u e
    unfolding wp_bnd
    by (rule drop_channel_any)
      (use that in \<open>auto simp: wp_fail simp del: stops_simps(2) intro!: v_ending
        intro: went_logged went_same_ex dest!: stops_simps(2) [THEN iffD1]\<close>)
  have scope: "wp (scoped L (channel_new peer) (bnd (viewer_handshake L sk mac_a keys ts) (\<lambda>host. ret (Inr host)))
      (\<lambda>host ch. ret \<lparr>vs_host = host, vs_ch = ch, vs_next_seq = 0\<rparr>)) ?Q u"
    if "v_went L keys code hid h (KeysAgreed sk mac_a) u" for peer u
    unfolding wp_scoped wp_bnd [of "viewer_handshake _ _ _ _ _"]
    by (rule wp_mono [OF viewer_handshake_stops [OF ok, of _ _ _ h]])
      (use that drop in \<open>auto simp: after_def wp_ret simp del: stops_simps(2) split: res.splits\<close>)
  have bad: "\<exists>q. v_went L keys code hid h q u \<and>
      vstep L keys code hid q EvLinkDropped (Over (Inl (CTransport x)))"
    if "v_went L keys code hid h (KeysAgreed sk mac_a) u" for u x
    using that vstep.v_no_peer by blast
  show ?thesis
    unfolding viewer_with_keys_def wp_bnd [of "map_err _ (in_world _)"] wp_map_err wp_in_world
  proof (rule wp_any)
    fix r and w :: 'w
    have "v_went L keys code hid h (KeysAgreed sk mac_a) (s\<lparr>world := w\<rparr>)" by (rule went_same [OF k]) simp
    with scope bad show "after (\<lambda>a. after (\<lambda>peer. wp (scoped L (channel_new peer) (bnd (viewer_handshake L sk mac_a
          keys ts) (\<lambda>host. ret (Inr host))) (\<lambda>host ch. ret \<lparr>vs_host = host, vs_ch = ch, vs_next_seq = 0\<rparr>)) ?Q)
          (\<lambda>x. ?Q (Err x)) ?Q (Ok a))
        (\<lambda>x. after (\<lambda>peer. wp (scoped L (channel_new peer) (bnd (viewer_handshake L sk mac_a
          keys ts) (\<lambda>host. ret (Inr host))) (\<lambda>host ch. ret \<lparr>vs_host = host, vs_ch = ch, vs_next_seq = 0\<rparr>)) ?Q)
          (\<lambda>x. ?Q (Err x)) ?Q (Err (CTransport x)))
        (after (\<lambda>peer. wp (scoped L (channel_new peer) (bnd (viewer_handshake L sk mac_a
          keys ts) (\<lambda>host. ret (Inr host))) (\<lambda>host ch. ret \<lparr>vs_host = host, vs_ch = ch, vs_next_seq = 0\<rparr>)) ?Q)
          (\<lambda>x. ?Q (Err x)) ?Q) r (s\<lparr>world := w\<rparr>)"
      by (cases r) auto
  qed
qed

lemma viewer_finish_no_hang: "viewer_finish sp st pb mac_b s \<noteq> (Hang, s')"
  by (auto simp: viewer_finish_def derive_session_keys_def run_simps lift_sum_run expect_run
    split: sum.splits option.splits)

lemma viewer_got_reply_stops:
  fixes L :: "('w, 'rtc, 'p, 'k, 'st, 'out, 'sk, 'xk, 'rnd) viewer_libs" and s :: "'w viewer_run"
  assumes a: "v_went L keys code hid h (StartSent st) s" and l: "logged (EvGot v) s s'"
    and m: "viewer_relay_of (l_wire L) StPake v = Inr msg"
  shows "wp (viewer_got_reply L st msg) (\<lambda>r u. u = s' \<and>
    (case r of Ok (sk, mac_a) \<Rightarrow> v_went L keys code hid h (KeysAgreed sk mac_a) s'
     | Err e \<Rightarrow> v_went L keys code hid h (Ending e) s'
     | Panic \<Rightarrow> v_went L keys code hid h Crashed s'
     | Hang \<Rightarrow> False)) s'"
proof (cases "\<exists>pb mac_b. msg = PReply pb mac_b")
  case True
  then obtain pb mac_b where msg: "msg = PReply pb mac_b" by blast
  show ?thesis
  proof (rule wpI)
    fix r u
    assume run: "viewer_got_reply L st msg s' = (r, u)"
    then obtain r' where fin: "viewer_finish (l_spake L) st pb mac_b s' = (r', u)"
      "r = (case r' of Ok a \<Rightarrow> Ok a | Err x \<Rightarrow> Err (map_reply_err x) | Panic \<Rightarrow> Panic | Hang \<Rightarrow> Hang)"
      by (auto simp: msg viewer_got_reply_def map_err_def handle_def ret_def fail_def
          split: prod.splits res.splits)
    from viewer_finish_result [OF fin(1), of "()"] viewer_finish_result [OF fin(1), of s']
    have pure: "viewer_finish (l_spake L) st pb mac_b () = (r', ())" "u = s'" by simp_all
    show "u = s' \<and> (case r of Ok (sk, mac_a) \<Rightarrow> v_went L keys code hid h (KeysAgreed sk mac_a) s'
        | Err e \<Rightarrow> v_went L keys code hid h (Ending e) s' | Panic \<Rightarrow> v_went L keys code hid h Crashed s'
        | Hang \<Rightarrow> False)"
    proof (cases r')
      case (Ok x)
      then show ?thesis
        using pure fin(2) went_logged [OF a l vstep.v_reply [OF m [unfolded msg]]]
        by (auto split: prod.splits)
    next
      case (Err x)
      have "reply_refused (l_spake L) st msg (map_reply_err x)"
        using pure Err by (auto simp: reply_refused_def msg)
      with Err show ?thesis
        using pure(2) fin(2) went_logged [OF a l vstep.v_bad_reply [OF m]] by simp
    next
      case Panic
      then show ?thesis
        using pure fin(2) went_logged [OF a l vstep.v_crash [OF m [unfolded msg]]] by simp
    next
      case Hang
      then show ?thesis using pure(1) viewer_finish_no_hang [of "l_spake L" st pb mac_b "()" "()"] by simp
    qed
  qed
next
  case False
  then have "\<exists>e. viewer_got_reply L st msg = fail e \<and> reply_refused (l_spake L) st msg e"
    by (cases msg) (simp_all add: viewer_got_reply_def reply_refused_def)
  then show ?thesis
    using went_logged [OF a l vstep.v_bad_reply [OF m]] by (auto simp: wp_fail)
qed

lemma viewer_joined_stops:
  fixes L :: "('w, 'rtc, 'p, 'k, 'st, 'out, 'sk, 'xk, 'rnd) viewer_libs" and s :: "'w viewer_run"
  assumes ok: "wire_ok (l_wire L)" and j: "v_went L keys code hid h SeatTaken s"
  shows "wp (viewer_joined L hid code keys ips ts) (v_stops L keys code hid (\<lambda>v. HostAccepted (vs_host v)) h) s"
    (is "wp _ ?Q s")
proof -
  let ?k = "\<lambda>(sk, mac_a). viewer_with_keys L keys ips ts sk mac_a"
  have reply: "wp (bnd (viewer_got_reply L st msg) ?k) ?Q s'"
    if "v_went L keys code hid h (StartSent st) u" "logged (EvGot v) u s'"
      "viewer_relay_of (l_wire L) StPake v = Inr msg" for st msg u v s'
    unfolding wp_bnd [of "viewer_got_reply L _ _"]
    by (rule wp_mono [OF viewer_got_reply_stops [OF that]])
      (auto simp: after_def simp del: stops_simps(2) intro!: viewer_with_keys_stops [OF ok] v_ending
        split: res.splits prod.splits)
  have recv: "wp (bnd (viewer_recv_relay L d StPake) (\<lambda>msg. bnd (viewer_got_reply L st msg) ?k)) ?Q u"
    if g: "v_went L keys code hid h (StartSent st) u" for d st u
    unfolding wp_bnd [of "viewer_recv_relay _ _ _"]
  proof (rule viewer_recv_any, goal_cases)
    case (1 v s' msg)
    then show ?case using reply [OF g] by simp
  next
    case (2 v s' e)
    then show ?case
      using went_logged [OF g _ vstep.v_no_reply] v_ending by (simp del: stops_simps(2)) blast
  next
    case (3 x s')
    then show ?case
      using went_logged [OF g _ vstep.v_recv_error] v_ending by (simp del: stops_simps(2)) blast
  qed (auto intro: went_same_ex [OF g])
  have send: "wp (bnd (viewer_send_relay L (PStart pa)) (\<lambda>_. bnd (viewer_recv_relay L d StPake)
      (\<lambda>msg. bnd (viewer_got_reply L st msg) ?k))) ?Q u"
    if g: "v_went L keys code hid h SeatTaken u"
      and st: "viewer_start (l_spake L) code hid rnd () = (Ok (st, pa), ())" for st pa d rnd u
    unfolding wp_bnd [of "viewer_send_relay _ _"]
  proof (rule viewer_send_any [OF ok], goal_cases)
    case (1 e s')
    then show ?case using recv went_logged [OF g _ vstep.v_start [OF st]] by simp
  next
    case (2 x s')
    then show ?case
      using went_logged [OF g _ vstep.v_send_error] v_ending by (simp del: stops_simps(2)) blast
  qed (auto intro: went_same_ex [OF g])
  let ?rest = "\<lambda>(pake, pa). bnd (viewer_send_relay L (PStart pa)) (\<lambda>_.
      bnd (viewer_recv_relay L (signaling_step ts) StPake) (\<lambda>msg. bnd (viewer_got_reply L pake msg) ?k))"
  have start: "wp (bnd (map_err (\<lambda>_. CSecurity ''pake start'') (viewer_start (l_spake L) code hid rnd)) ?rest) ?Q u"
    if g: "v_went L keys code hid h SeatTaken u" for rnd u
    unfolding wp_bnd [of "map_err _ _"] wp_map_err
  proof (rule wpI)
    fix r u'
    assume run: "viewer_start (l_spake L) code hid rnd u = (r, u')"
    from viewer_start_result [OF run, of "()"] viewer_start_result [OF run, of u]
    have pure: "viewer_start (l_spake L) code hid rnd () = (r, ())" "u' = u" by simp_all
    have "\<exists>q. v_went L keys code hid h q u \<and>
        vstep L keys code hid q EvLinkDropped (Over (Inl (CSecurity ''pake start'')))"
      using g vstep.v_no_start by blast
    with pure g send [OF g] show "after (\<lambda>a. after (\<lambda>x. wp (?rest x) ?Q) (\<lambda>x. ?Q (Err x)) ?Q (Ok a))
        (\<lambda>x. after (\<lambda>x. wp (?rest x) ?Q) (\<lambda>x. ?Q (Err x)) ?Q (Err (CSecurity ''pake start'')))
        (after (\<lambda>x. wp (?rest x) ?Q) (\<lambda>x. ?Q (Err x)) ?Q) r u'"
      by (cases r) (auto split: prod.splits)
  qed
  show ?thesis
    unfolding viewer_joined_def wp_bnd [of "in_world _"] wp_in_world wp_ext_total
    by (auto intro!: start went_same [OF j] split: prod.splits)
qed

text \<open>The whole run: the link is dropped at the end, whatever the result.\<close>

definition v_over ::
  "('w, 'rtc, 'p, 'k, 'st, 'out, 'sk, 'xk, 'rnd) viewer_libs \<Rightarrow> ('sk, 'xk) device_keys \<Rightarrow> ustr \<Rightarrow> ustr \<Rightarrow>
   vevent list \<Rightarrow> (connect_error, 'rtc viewer_session) res \<Rightarrow> 'w viewer_run \<Rightarrow> bool"
where
  "v_over L keys code hid h r s \<longleftrightarrow>
     (case r of
        Ok v \<Rightarrow> v_went L keys code hid h (Over (Inr (vs_host v)) :: 'st vphase) s
      | Err e \<Rightarrow> v_went L keys code hid h (Over (Inl e) :: 'st vphase) s
      | _ \<Rightarrow> \<exists>q :: 'st vphase. v_went L keys code hid h q s)"

lemma connect_body_stops:
  fixes L :: "('w, 'rtc, 'p, 'k, 'st, 'out, 'sk, 'xk, 'rnd) viewer_libs" and s :: "'w viewer_run"
  assumes ok: "wire_ok (l_wire L)" and c: "v_went L keys code hid h Connecting s"
  shows "wp (viewer_connect_body L hid code keys ips ts)
    (v_stops L keys code hid (\<lambda>v. HostAccepted (vs_host v)) h) s" (is "wp _ ?Q s")
  unfolding viewer_connect_body_def wp_bnd wp_map_err
proof (rule link_recv_any, goal_cases)
  case (1 v s')
  have joined: "v_went L keys code hid h SeatTaken s'" if "v = Some SVJoined"
    using went_logged [OF c 1 [unfolded that] vstep.v_joined] .
  have refused: "?Q (Err e) s'" if "join_refused v = Some e" for e
    by (rule v_ending [OF went_logged [OF c 1 vstep.v_not_joined [OF that]]])
  show ?case
    using viewer_joined_stops [OF ok joined] refused
    by (auto simp: wp_fail simp del: stops_simps split: option.splits server_to_viewer.splits)
next
  case (2 x s')
  then show ?case
    using went_logged [OF c _ vstep.v_recv_error] v_ending by (simp del: stops_simps(2)) blast
qed (auto intro: went_same_ex [OF c])

lemma connect_over:
  fixes L :: "('w, 'rtc, 'p, 'k, 'st, 'out, 'sk, 'xk, 'rnd) viewer_libs" and s :: "'w viewer_run"
  assumes "wire_ok (l_wire L)"
  shows "wp (connect L hid code keys ips ts) (v_over L keys code hid (history s)) s"
proof -
  have drop: "wp (bnd (drop_link L) (\<lambda>_. k)) Q u"
    if "\<And>s'. logged EvLinkDropped u s' \<Longrightarrow> wp k Q s'" for k Q and u :: "'w viewer_run"
    unfolding wp_bnd by (rule drop_link_any) (simp add: that)
  have over: "v_went L keys code hid h (Over (Inr host)) s'"
    if "v_went L keys code hid h (HostAccepted host) u" "logged EvLinkDropped u s'" for h host u s'
    by (rule went_logged [OF that, of "Over (Inr host)"]) (rule vstep.v_session)
  have "v_went L keys code hid (history s) Connecting s" by (rule went_refl)
  from connect_body_stops [OF assms this] show ?thesis
    unfolding connect_def owning_link_def wp_handle
    by (rule wp_mono)
      (auto simp: after_def v_over_def wp_ret wp_fail intro!: drop
        intro: went_logged over split: res.splits)
qed

end
