(* ===== verification/ViewerSafety.thy ===== *)
theory ViewerSafety
  imports ViewerProtocol
begin

text \<open>
  Invariants of the viewer's machine: the evidence that a phase stands for, when the viewer reveals
  anything that depends on the session, how it cleans up, and what each error goes back to.
\<close>

section \<open>Evidence\<close>

text \<open>The viewer has opened the exchange for the code and the host, and \<open>st\<close> is its PAKE state.\<close>

definition started_with ::
  "('w, 'rtc, 'p, 'k, 'st, 'out, 'sk, 'xk, 'rnd) viewer_libs \<Rightarrow> ustr \<Rightarrow> ustr \<Rightarrow> vevent list \<Rightarrow> 'st \<Rightarrow> bool"
where
  "started_with L code hid tr st \<longleftrightarrow>
     (\<exists>rnd pa. viewer_start (l_spake L) code hid rnd () = (Ok (st, pa), ()) \<and>
        (\<exists>e\<in>set tr. viewer_said (l_wire L) (PStart pa) e))"

text \<open>The host has proved that it knows the code: its Reply was confirmed.\<close>

definition host_confirmed ::
  "('w, 'rtc, 'p, 'k, 'st, 'out, 'sk, 'xk, 'rnd) viewer_libs \<Rightarrow> ustr \<Rightarrow> ustr \<Rightarrow> vevent list \<Rightarrow>
   session_keys \<Rightarrow> bytes \<Rightarrow> bool"
where
  "host_confirmed L code hid tr sk mac_a \<longleftrightarrow>
     (\<exists>st v pb mac_b. started_with L code hid tr st \<and> EvGot v \<in> set tr \<and>
        viewer_relay_of (l_wire L) StPake v = Inr (PReply pb mac_b) \<and>
        viewer_finish (l_spake L) st pb mac_b () = (Ok (sk, mac_a), ()))"

definition offered ::
  "('w, 'rtc, 'p, 'k, 'st, 'out, 'sk, 'xk, 'rnd) viewer_libs \<Rightarrow> ustr \<Rightarrow> ustr \<Rightarrow> vevent list \<Rightarrow>
   session_keys \<Rightarrow> bool"
where
  "offered L code hid tr sk \<longleftrightarrow>
     (\<exists>mac_a offer so. host_confirmed L code hid tr sk mac_a \<and>
        fst (seal (l_aead L) (as_bytes offer) (fst (viewer_side sk))) = Ok so \<and>
        (\<exists>e\<in>set tr. viewer_said (l_wire L) (PConfirm mac_a so) e))"

definition answered ::
  "('w, 'rtc, 'p, 'k, 'st, 'out, 'sk, 'xk, 'rnd) viewer_libs \<Rightarrow> ustr \<Rightarrow> ustr \<Rightarrow> vevent list \<Rightarrow>
   session_keys \<Rightarrow> bool"
where
  "answered L code hid tr sk \<longleftrightarrow>
     offered L code hid tr sk \<and>
     (\<exists>v sa answer. EvGot v \<in> set tr \<and> viewer_relay_of (l_wire L) StAnswer v = Inr (PAnswer sa) \<and>
        answer_in (l_aead L) sk sa = Some answer)"

definition greeted ::
  "('w, 'rtc, 'p, 'k, 'st, 'out, 'sk, 'xk, 'rnd) viewer_libs \<Rightarrow> ('sk, 'xk) device_keys \<Rightarrow> ustr \<Rightarrow> ustr \<Rightarrow>
   vevent list \<Rightarrow> session_keys \<Rightarrow> bytes \<Rightarrow> bytes \<Rightarrow> bool"
where
  "greeted L keys code hid tr sk lf rf \<longleftrightarrow>
     answered L code hid tr sk \<and> EvOpened Ready \<in> set tr \<and>
     EvTold (CHello (make_hello (l_id L) keys RViewer (hello_binding sk) lf rf)) \<in> set tr"

definition host_known ::
  "('w, 'rtc, 'p, 'k, 'st, 'out, 'sk, 'xk, 'rnd) viewer_libs \<Rightarrow> ('sk, 'xk) device_keys \<Rightarrow> ustr \<Rightarrow> ustr \<Rightarrow>
   vevent list \<Rightarrow> peer_identity \<Rightarrow> bool"
where
  "host_known L keys code hid tr host \<longleftrightarrow>
     (\<exists>sk lf rf hh. greeted L keys code hid tr sk lf rf \<and> EvHeard (NMsg (CHello hh)) \<in> set tr \<and>
        verify_hello (l_id L) hh RHost (hello_binding sk) rf lf = Inr host)"

lemmas evidence_defs = started_with_def host_confirmed_def offered_def answered_def greeted_def host_known_def

text \<open>Evidence stays.\<close>

lemma started_with_mono: "started_with L code hid tr st \<Longrightarrow> started_with L code hid (tr @ x) st"
  by (auto simp: started_with_def)

lemma host_confirmed_mono: "host_confirmed L code hid tr sk m \<Longrightarrow> host_confirmed L code hid (tr @ x) sk m"
  unfolding host_confirmed_def using started_with_mono [of L code hid tr] by fastforce

lemma offered_mono: "offered L code hid tr sk \<Longrightarrow> offered L code hid (tr @ x) sk"
  unfolding offered_def using host_confirmed_mono [of L code hid tr] by fastforce

lemma answered_mono: "answered L code hid tr sk \<Longrightarrow> answered L code hid (tr @ x) sk"
  unfolding answered_def using offered_mono [of L code hid tr] by fastforce

lemma greeted_mono: "greeted L keys code hid tr sk lf rf \<Longrightarrow> greeted L keys code hid (tr @ x) sk lf rf"
  unfolding greeted_def using answered_mono [of L code hid tr] by fastforce

lemma host_known_mono: "host_known L keys code hid tr host \<Longrightarrow> host_known L keys code hid (tr @ x) host"
  unfolding host_known_def using greeted_mono [of L keys code hid tr] by fastforce

lemmas evidence_mono = started_with_mono host_confirmed_mono offered_mono answered_mono greeted_mono host_known_mono

text \<open>What has happened when the machine is in a phase; a failure with the channel open comes after
  the confirmation, an earlier one may come before it.\<close>

fun v_evidence ::
  "('w, 'rtc, 'p, 'k, 'st, 'out, 'sk, 'xk, 'rnd) viewer_libs \<Rightarrow> ('sk, 'xk) device_keys \<Rightarrow> ustr \<Rightarrow> ustr \<Rightarrow>
   vevent list \<Rightarrow> 'st vphase \<Rightarrow> bool"
where
  "v_evidence L keys code hid tr (StartSent st) = started_with L code hid tr st"
| "v_evidence L keys code hid tr (KeysAgreed sk mac_a) = host_confirmed L code hid tr sk mac_a"
| "v_evidence L keys code hid tr (OfferSent sk) = offered L code hid tr sk"
| "v_evidence L keys code hid tr (AnswerGot sk) = answered L code hid tr sk"
| "v_evidence L keys code hid tr (ChannelUp sk) = (answered L code hid tr sk \<and> EvOpened Ready \<in> set tr)"
| "v_evidence L keys code hid tr (HelloSent sk lf rf) = greeted L keys code hid tr sk lf rf"
| "v_evidence L keys code hid tr (HostKnown host) = host_known L keys code hid tr host"
| "v_evidence L keys code hid tr (HostAccepted host) =
     (host_known L keys code hid tr host \<and> EvHeard (NMsg (CDecision Accepted)) \<in> set tr)"
| "v_evidence L keys code hid tr (Closing e) = (\<exists>sk mac_a. host_confirmed L code hid tr sk mac_a)"
| "v_evidence L keys code hid tr (Over (Inr host)) =
     (host_known L keys code hid tr host \<and> EvHeard (NMsg (CDecision Accepted)) \<in> set tr)"
| "v_evidence L keys code hid tr _ = True"

lemma later_confirmed:
  "offered L code hid tr sk \<Longrightarrow> \<exists>sk m. host_confirmed L code hid tr sk m"
  "answered L code hid tr sk \<Longrightarrow> \<exists>sk m. host_confirmed L code hid tr sk m"
  "greeted L keys code hid tr sk lf rf \<Longrightarrow> \<exists>sk m. host_confirmed L code hid tr sk m"
  "host_known L keys code hid tr host \<Longrightarrow> \<exists>sk m. host_confirmed L code hid tr sk m"
  unfolding offered_def answered_def greeted_def host_known_def by blast+

lemma confirmed_then:
  "\<exists>sk m. host_confirmed L code hid tr sk m \<Longrightarrow> \<exists>sk m. host_confirmed L code hid (tr @ x) sk m"
  using host_confirmed_mono by blast

lemma decision_accepted: "viewer_decision host msg = Inr x \<Longrightarrow> x = host \<and> msg = CDecision Accepted"
  by (cases "(host, msg)" rule: viewer_decision.cases) auto

lemma host_identity_verified:
  "viewer_host_identity L sk lf rf msg = Inr host \<Longrightarrow>
     \<exists>hh. msg = CHello hh \<and> verify_hello (l_id L) hh RHost (hello_binding sk) rf lf = Inr host"
  by (auto simp: viewer_host_identity_def split: control.splits sum.splits)

lemma v_evidence_step:
  assumes "vstep L keys code hid p e q" "v_evidence L keys code hid tr p"
  shows "v_evidence L keys code hid (tr @ [e]) q"
  using assms
proof (cases rule: vstep.cases)
  case (v_start rnd st pa)
  then show ?thesis by (auto simp: started_with_def)
next
  case (v_reply v pb mac_b st sk mac_a)
  then show ?thesis
    using assms(2) started_with_mono [of L code hid tr st "[e]"]
    by (fastforce simp: host_confirmed_def)
next
  case (v_confirm offer sk so mac_a)
  then show ?thesis
    using assms(2) host_confirmed_mono [of L code hid tr sk mac_a "[e]"]
    by (fastforce simp: offered_def)
next
  case (v_answer v sa sk answer)
  then show ?thesis
    using assms(2) offered_mono [of L code hid tr sk "[e]"]
    by (fastforce simp: answered_def)
next
  case (v_hello h sk lf rf)
  then show ?thesis
    using assms(2) answered_mono [of L code hid tr sk "[e]"] by (simp add: greeted_def)
next
  case (v_host_hello sk lf rf msg host)
  then show ?thesis
    using assms(2) greeted_mono [of L keys code hid tr sk lf rf "[e]"] host_identity_verified
    by (fastforce simp: host_known_def)
next
  case (v_accepted host msg)
  then show ?thesis
    using assms(2) host_known_mono [of L keys code hid tr host "[e]"] decision_accepted [of host msg]
    by simp
qed (use assms(2) in \<open>auto intro!: confirmed_then intro: evidence_mono later_confirmed\<close>)

lemma v_path_evidence:
  "path (vstep L keys code hid) Connecting tr q \<Longrightarrow> v_evidence L keys code hid tr q"
  by (induction rule: path.induct) (auto intro: v_evidence_step)

section \<open>What the viewer gives away\<close>

text \<open>Events that show the network or the host more than the opening message, or that need a peer.\<close>

fun reveals :: "wire \<Rightarrow> vevent \<Rightarrow> bool" where
  "reveals w (EvSent (VSRelay d)) = (\<nexists>pa. relay_parse w d = Some (PStart pa))"
| "reveals w (EvTold m) = True"
| "reveals w (EvOpened v) = True"
| "reveals w (EvHeard v) = True"
| "reveals w EvDropped = True"
| "reveals w e = False"

text \<open>Before any such event the host has proved its knowledge of the code.\<close>

definition guarded ::
  "('w, 'rtc, 'p, 'k, 'st, 'out, 'sk, 'xk, 'rnd) viewer_libs \<Rightarrow> ustr \<Rightarrow> ustr \<Rightarrow> vevent list \<Rightarrow> bool"
where
  "guarded L code hid tr \<longleftrightarrow>
     (\<forall>pre e post. tr = pre @ e # post \<longrightarrow> reveals (l_wire L) e \<longrightarrow>
        (\<exists>sk mac_a. host_confirmed L code hid pre sk mac_a))"

lemma guarded_nil: "guarded L code hid []"
  by (simp add: guarded_def)

lemma guarded_snoc:
  "guarded L code hid (tr @ [e]) \<longleftrightarrow>
     guarded L code hid tr \<and> (reveals (l_wire L) e \<longrightarrow> (\<exists>sk mac_a. host_confirmed L code hid tr sk mac_a))"
  (is "?l \<longleftrightarrow> ?g \<and> ?e")
proof (intro iffI conjI)
  assume l: ?l
  show ?g
    unfolding guarded_def
  proof (intro allI impI)
    fix pre x post
    assume "tr = pre @ x # post" and r: "reveals (l_wire L) x"
    then have "tr @ [e] = pre @ x # (post @ [e])" by simp
    with l r show "\<exists>sk mac_a. host_confirmed L code hid pre sk mac_a" unfolding guarded_def by blast
  qed
  show ?e using l unfolding guarded_def by blast
next
  assume r: "?g \<and> ?e"
  show ?l
    unfolding guarded_def
  proof (intro allI impI)
    fix pre x post
    assume split: "tr @ [e] = pre @ x # post" and x: "reveals (l_wire L) x"
    show "\<exists>sk mac_a. host_confirmed L code hid pre sk mac_a"
    proof (cases post rule: rev_cases)
      case Nil
      with split x r show ?thesis by simp
    next
      case (snoc post' y)
      with split have "tr = pre @ x # post'" by simp
      with r x show ?thesis unfolding guarded_def by blast
    qed
  qed
qed

text \<open>The phases whose next event may reveal something.\<close>

fun open_phase :: "'st vphase \<Rightarrow> bool" where
  "open_phase Connecting = False"
| "open_phase SeatTaken = False"
| "open_phase (StartSent st) = False"
| "open_phase (Ending e) = False"
| "open_phase (Over r) = False"
| "open_phase Crashed = False"
| "open_phase _ = True"

lemma reveals_from_open: "vstep L keys code hid p e q \<Longrightarrow> reveals (l_wire L) e \<Longrightarrow> open_phase p"
  by (cases rule: vstep.cases) (auto simp: viewer_said_def)

lemma open_confirmed:
  "v_evidence L keys code hid tr p \<Longrightarrow> open_phase p \<Longrightarrow> \<exists>sk mac_a. host_confirmed L code hid tr sk mac_a"
  by (cases p) (auto intro: later_confirmed)

lemma v_path_guarded: "path (vstep L keys code hid) Connecting tr q \<Longrightarrow> guarded L code hid tr"
proof (induction rule: path.induct)
  case (path_snoc tr q e r)
  then show ?case
    using open_confirmed [OF v_path_evidence [OF path_snoc.hyps(1)]] reveals_from_open [OF path_snoc.hyps(2)]
    unfolding guarded_snoc by blast
qed (rule guarded_nil)

section \<open>Cleaning up, and what an error goes back to\<close>

text \<open>The event an error reports.\<close>

fun explains ::
  "('w, 'rtc, 'p, 'k, 'st, 'out, 'sk, 'xk, 'rnd) viewer_libs \<Rightarrow> vevent list \<Rightarrow> connect_error \<Rightarrow> bool"
where
  "explains L tr (CTimeout st) \<longleftrightarrow>
     last tr = (case st of StConnect \<Rightarrow> EvOpened OTimedOut | StHello \<Rightarrow> EvHeard NTimedOut
       | StDecision \<Rightarrow> EvHeard NTimedOut | _ \<Rightarrow> EvGot None)"
| "explains L tr CHostLeft \<longleftrightarrow>
     last tr \<in> {EvGot (Some SVHostLeft), EvOpened OClosed, EvHeard NClosed} \<or> (\<exists>c. last tr = EvLinkError (LClosed c))"
| "explains L tr (CRejected reason) \<longleftrightarrow> last tr = EvHeard (NMsg (CDecision (Rejected reason)))"
| "explains L tr (CVersionMismatch ours theirs older) \<longleftrightarrow>
     ours = PROTOCOL_VERSION \<and> older = (if ours < theirs then SideViewer else SideHost) \<and>
     last tr = EvHeard (NMsg (CDecision (Rejected (RVersionMismatch theirs))))"
| "explains L tr (CRetryAfter d) \<longleftrightarrow>
     (\<exists>v ms. last tr = EvGot v \<and> viewer_relay_of (l_wire L) StPake v = Inr (PRetryAfter ms) \<and> d = millis (unat ms))"
| "explains L tr CWrongCode \<longleftrightarrow>
     (\<exists>v pb mac_b. last tr = EvGot v \<and> viewer_relay_of (l_wire L) StPake v = Inr (PReply pb mac_b) \<and>
        (\<exists>st. viewer_finish (l_spake L) st pb mac_b () = (Err WrongCode, ())))"
| "explains L tr (CLink x) \<longleftrightarrow> last tr = EvLinkError x \<and> not_closed x"
| "explains L tr (CTransport x) \<longleftrightarrow> True"
| "explains L tr (CSecurity m) \<longleftrightarrow> True"
| "explains L tr _ \<longleftrightarrow> False"

text \<open>The errors of an exchange that was cut short before the viewer trusted the host.\<close>

fun early :: "connect_error \<Rightarrow> bool" where
  "early CWrongCode = True"
| "early (CRetryAfter d) = True"
| "early e = False"

definition late_error ::
  "('w, 'rtc, 'p, 'k, 'st, 'out, 'sk, 'xk, 'rnd) viewer_libs \<Rightarrow> vevent list \<Rightarrow> connect_error \<Rightarrow> bool"
where
  "late_error L tr e \<longleftrightarrow> explains L tr e \<and> \<not> early e"

definition quiet_run :: "wire \<Rightarrow> vevent list \<Rightarrow> bool" where
  "quiet_run w tr \<longleftrightarrow> (\<forall>e\<in>set tr. \<not> reveals w e)"

definition undropped :: "vevent list \<Rightarrow> bool" where
  "undropped tr \<longleftrightarrow> EvDropped \<notin> set tr \<and> EvLinkDropped \<notin> set tr"

text \<open>A failed run before the link is dropped: nothing was revealed, or the channel was dropped last.\<close>

definition failed_tidily ::
  "('w, 'rtc, 'p, 'k, 'st, 'out, 'sk, 'xk, 'rnd) viewer_libs \<Rightarrow> vevent list \<Rightarrow> connect_error \<Rightarrow> bool"
where
  "failed_tidily L tr e \<longleftrightarrow>
     (\<exists>core. undropped core \<and> explains L core e \<and>
        (tr = core \<and> quiet_run (l_wire L) core \<or> tr = core @ [EvDropped] \<and> \<not> early e))"

fun v_tidy ::
  "('w, 'rtc, 'p, 'k, 'st, 'out, 'sk, 'xk, 'rnd) viewer_libs \<Rightarrow> vevent list \<Rightarrow> 'st vphase \<Rightarrow> bool"
where
  "v_tidy L tr (Closing e) = (undropped tr \<and> late_error L tr e)"
| "v_tidy L tr (Ending e) = failed_tidily L tr e"
| "v_tidy L tr (Over (Inl e)) = (\<exists>tr'. tr = tr' @ [EvLinkDropped] \<and> failed_tidily L tr' e)"
| "v_tidy L tr (Over (Inr host)) = (\<exists>core. tr = core @ [EvLinkDropped] \<and> undropped core)"
| "v_tidy L tr Connecting = (undropped tr \<and> quiet_run (l_wire L) tr)"
| "v_tidy L tr SeatTaken = (undropped tr \<and> quiet_run (l_wire L) tr)"
| "v_tidy L tr (StartSent st) = (undropped tr \<and> quiet_run (l_wire L) tr)"
| "v_tidy L tr (KeysAgreed sk mac_a) = (undropped tr \<and> quiet_run (l_wire L) tr)"
| "v_tidy L tr _ = undropped tr"

lemma undropped_simps [simp]:
  "undropped []" "undropped (tr @ [e]) \<longleftrightarrow> undropped tr \<and> e \<noteq> EvDropped \<and> e \<noteq> EvLinkDropped"
  by (auto simp: undropped_def)

lemma quiet_run_simps [simp]:
  "quiet_run w []" "quiet_run w (tr @ [e]) \<longleftrightarrow> quiet_run w tr \<and> \<not> reveals w e"
  by (auto simp: quiet_run_def)

lemma failed_quietly:
  "undropped tr \<Longrightarrow> explains L tr e \<Longrightarrow> quiet_run (l_wire L) tr \<Longrightarrow> failed_tidily L tr e"
  "undropped tr \<Longrightarrow> late_error L tr e \<Longrightarrow> failed_tidily L (tr @ [EvDropped]) e"
  by (auto simp: failed_tidily_def late_error_def)

lemma late_errors [simp]: "late_error L tr (CTransport x)" "late_error L tr (CSecurity m)"
  by (simp_all add: late_error_def)

lemma late_explains: "late_error L tr e \<Longrightarrow> explains L tr e"
  by (simp add: late_error_def)

text \<open>The errors of the steps, with what they go back to.\<close>

lemma said_undropped [simp]: "viewer_said w msg EvDropped = False" "viewer_said w msg EvLinkDropped = False"
  by (simp_all add: viewer_said_def)

lemma start_quiet: "viewer_said w (PStart pa) e \<Longrightarrow> \<not> reveals w e"
  by (auto simp: viewer_said_def)

lemma explains_join: "join_refused v = Some e \<Longrightarrow> explains L (tr @ [EvGot v]) e"
  by (cases v rule: join_refused.cases) auto

lemma explains_relay:
  "viewer_relay_of (l_wire L) st v = Inl e \<Longrightarrow> st = StPake \<or> st = StAnswer \<Longrightarrow>
     late_error L (tr @ [EvGot v]) e"
  by (auto simp: viewer_relay_of_def late_error_def split: option.splits server_to_viewer.splits)

lemma explains_reply:
  assumes "viewer_relay_of (l_wire L) StPake v = Inr msg" "reply_refused (l_spake L) st msg e"
  shows "explains L (tr @ [EvGot v]) e"
proof (cases msg)
  case (PReply pb mac_b)
  then obtain a where a: "viewer_finish (l_spake L) st pb mac_b () = (Err a, ())" "e = map_reply_err a"
    using assms(2) by (auto simp: reply_refused_def)
  show ?thesis
  proof (cases "a = WrongCode")
    case True
    with a assms(1) PReply show ?thesis by auto
  next
    case False
    then have "e = CSecurity ''malformed relay''" using a by (cases a) auto
    then show ?thesis by simp
  qed
qed (use assms in \<open>auto simp: reply_refused_def\<close>)

lemma explains_answer: "answer_refused a sk msg e \<Longrightarrow> late_error L tr e"
  by (cases msg) (auto simp: answer_refused_def)

lemma explains_host_hello: "viewer_host_identity L sk lf rf msg = Inl e \<Longrightarrow> late_error L tr e"
  by (auto simp: viewer_host_identity_def split: control.splits sum.splits)

lemma explains_control:
  "control_of st v = Inl e \<Longrightarrow> st = StHello \<or> st = StDecision \<Longrightarrow> late_error L (tr @ [EvHeard v]) e"
  by (cases "(st, v)" rule: control_of.cases) (auto simp: late_error_def)

lemma explains_decision:
  "viewer_decision host msg = Inl e \<Longrightarrow> late_error L (tr @ [EvHeard (NMsg msg)]) e"
  by (cases "(host, msg)" rule: viewer_decision.cases) (auto simp: late_error_def)

lemma explains_link: "late_error L (tr @ [EvLinkError x]) (from_link x)"
  by (cases x) (simp_all add: late_error_def)

lemma explains_opened:
  "late_error L (tr @ [EvOpened OClosed]) CHostLeft" "late_error L (tr @ [EvOpened OTimedOut]) (CTimeout StConnect)"
  "not_closed x \<Longrightarrow> late_error L (tr @ [EvLinkError x]) (CLink x)"
  by (simp_all add: late_error_def)

lemmas explains_steps = explains_join explains_relay explains_reply explains_answer explains_host_hello
  explains_control explains_decision explains_link explains_opened

lemma v_tidy_step:
  assumes "vstep L keys code hid p e q" "v_tidy L tr p"
  shows "v_tidy L (tr @ [e]) q"
  using assms
proof (cases rule: vstep.cases)
  case (v_transport x)
  then show ?thesis using assms(2) by auto
qed (use assms(2) in \<open>auto simp: start_quiet intro!: failed_quietly intro: explains_steps late_explains\<close>)

lemma v_path_tidy: "path (vstep L keys code hid) Connecting tr q \<Longrightarrow> v_tidy L tr q"
  by (induction rule: path.induct) (auto intro: v_tidy_step)

end
