(* ===== verification/ViewerSample.thy ===== *)
theory ViewerSample
  imports SessionSample ViewerSafety
begin

text \<open>
  The other end of the run of \<open>SessionSample\<close>: a viewer with the same code, on the same libraries,
  whose link delivers what that host sends and whose channel what that host tells.  Its run ends with
  a session, and its messages are the ones the host was given.
\<close>

declare sample_control_to.simps [simp del] sample_pake_to.simps [simp del]

section \<open>A viewer that runs\<close>

type_synonym sample_viewer_libs =
  "(nat, rtc_output list, unit, bytes, bytes \<times> bytes, bytes \<times> bytes, byte, byte, byte) viewer_libs"

definition viewer_rtc :: "rtc_output list \<Rightarrow> (rtc_output list, unit) rtc_lib" where
  "viewer_rtc tape = (tape_rtc tape)\<lparr>rtc_local_fp := (\<lambda>r. [2]), rtc_remote_fp := (\<lambda>r. Some [1])\<rparr>"

definition sample_viewer :: "(nat \<Rightarrow> server_to_viewer option) \<Rightarrow> rtc_output list \<Rightarrow> sample_viewer_libs" where
  "sample_viewer script tape =
     \<lparr>l_os = sample_os, l_rtc = viewer_rtc tape, l_wire = sample_wire, l_aead = sample_aead,
      l_spake = sample_spake, l_id = sample_id_lib, l_rng = (\<lambda>w. ([9], w)),
      l_send = (\<lambda>m w. (Ok (), w)), l_recv = (\<lambda>t w. (Ok (script w), Suc w)), l_drop = Pair (), l_fuel = 9\<rparr>"

lemma sample_viewer_simps [simp]:
  "l_os (sample_viewer sc tape) = sample_os" "l_rtc (sample_viewer sc tape) = viewer_rtc tape"
  "l_wire (sample_viewer sc tape) = sample_wire" "l_aead (sample_viewer sc tape) = sample_aead"
  "l_spake (sample_viewer sc tape) = sample_spake" "l_id (sample_viewer sc tape) = sample_id_lib"
  "l_rng (sample_viewer sc tape) = (\<lambda>w. ([9], w))" "l_send (sample_viewer sc tape) = (\<lambda>m w. (Ok (), w))"
  "l_recv (sample_viewer sc tape) = (\<lambda>t w. (Ok (sc w), Suc w))" "l_fuel (sample_viewer sc tape) = 9"
  "l_drop (sample_viewer sc tape) = Pair ()"
  by (simp_all add: sample_viewer_def)

lemma viewer_rtc_simps [simp]:
  "rtc_poll_output (viewer_rtc tape) r = (case r of [] \<Rightarrow> (Inr (OTimeout 0), []) | x # xs \<Rightarrow> (Inr x, xs))"
  "rtc_offer (viewer_rtc tape) l r = (Some (lit ''offer'', ()), tape)"
  "sdp_answer (viewer_rtc tape) = Inr" "rtc_accept_answer (viewer_rtc tape) p a r = (Inr (), r)"
  "rtc_has_channel (viewer_rtc tape) i r" "rtc_write (viewer_rtc tape) i d r = (Inr True, r)"
  "rtc_local_fp (viewer_rtc tape) r = [2]" "rtc_remote_fp (viewer_rtc tape) r = Some [1]"
  "rtc_close (viewer_rtc tape) r = (Inr (), r)" "rtc_candidate (viewer_rtc tape) addr = Inr []"
  "rtc_add_candidate (viewer_rtc tape) c r = r" "rtc_build (viewer_rtc tape) t = []"
  by (simp_all add: viewer_rtc_def)

definition viewer_start_run :: "nat viewer_run" where
  "viewer_start_run = \<lparr>world = 0, history = []\<rparr>"

lemma viewer_recv [simp]:
  "link_recv (sample_viewer sc tape) d s =
     (Ok (sc (world s)), s\<lparr>world := Suc (world s), history := history s @ [EvGot (sc (world s))]\<rparr>)"
  by (simp add: link_recv_def noting_def in_world_def record_event_def run_simps)

lemma viewer_send [simp]:
  "link_send (sample_viewer sc tape) m s = (Ok (), s\<lparr>history := history s @ [EvSent m]\<rparr>)"
  by (simp add: link_send_def noting_def in_world_def record_event_def run_simps)

lemma viewer_now [simp]:
  "get_now (sample_viewer sc tape) s = (Ok (world s), s\<lparr>world := Suc (world s)\<rparr>)"
  by (simp add: get_now_def in_world_def)

lemma viewer_relay_of_simps [simp]:
  "viewer_relay_of sample_wire st (Some (SVRelay (sample_relay m))) = Inr m"
  "viewer_relay_of w st (Some SVHostLeft) = Inl CHostLeft" "viewer_relay_of w st None = Inl (CTimeout st)"
  by (simp_all add: viewer_relay_of_def relay_parse_def sample_relay_def sample_wire_def from_hex_to_hex
      pake_decode_def sample_pake_roundtrip)

lemma sample_viewer_send_relay [simp]:
  "viewer_send_relay (sample_viewer sc tape) m s =
     (Ok (), s\<lparr>history := history s @ [EvSent (VSRelay (sample_relay m))]\<rparr>)"
  by (simp add: viewer_send_relay_def pake_encode_def sample_wire_def sample_relay_def run_simps)

lemma sample_viewer_recv_relay [simp]:
  "viewer_recv_relay (sample_viewer sc tape) d st s =
     ((case viewer_relay_of sample_wire st (sc (world s)) of Inl e \<Rightarrow> Err e | Inr m \<Rightarrow> Ok m),
      s\<lparr>world := Suc (world s), history := history s @ [EvGot (sc (world s))]\<rparr>)"
  by (simp add: viewer_recv_relay_def run_simps lift_sum_run split: sum.splits)

lemma viewer_drop_link [simp]:
  "drop_link (sample_viewer sc tape) s = (Ok (), s\<lparr>history := history s @ [EvLinkDropped]\<rparr>)"
  by (simp add: drop_link_def in_world_def ext_total_def record_event_def run_simps)

section \<open>A host that asks to wait\<close>

definition wait_script :: "nat \<Rightarrow> server_to_viewer option" where
  "wait_script n = (if n = 0 then Some SVJoined else Some (SVRelay (sample_relay (PRetryAfter 1500))))"

definition wait_history :: "vevent list" where
  "wait_history =
     [EvGot (Some SVJoined), EvSent (VSRelay (sample_relay (PStart [9]))),
      EvGot (Some (SVRelay (sample_relay (PRetryAfter 1500)))), EvLinkDropped]"

lemma sample_viewer_start [simp]:
  "viewer_start sample_spake (lit ''123456'') (lit ''123456789'') [9] s = (Ok ((sample_mac_b, [9]), [9]), s)"
  by (simp add: viewer_start_def sample_spake_def sample_start_def code_scalar_def code_input_def
      host_id_bytes_def sample_mac_b_def sample_lengths run_simps)

abbreviation sample_connect ::
  "sample_viewer_libs \<Rightarrow> (nat viewer_run, connect_error, rtc_output list viewer_session) prog" where
  "sample_connect L \<equiv>
     connect L (lit ''123456789'') (lit ''123456'') sample_viewer_keys [V4 0x7F000001] default_timeouts"

lemma wait_run:
  "sample_connect (sample_viewer wait_script tape) viewer_start_run =
     (Err (CRetryAfter (millis 1500)), \<lparr>world = 2, history = wait_history\<rparr>)"
  by (simp add: connect_def owning_link_def viewer_connect_body_def viewer_joined_def in_world_def ext_total_def
      viewer_start_run_def wait_script_def wait_history_def viewer_got_reply_def run_simps)

section \<open>The host of the sample session\<close>

definition host_tape :: "rtc_output list" where
  "host_tape =
     [OEvent (EvChannelOpen 7 CONTROL_LABEL), OEvent (EvChannelData 7 (sample_control_to (CHello session_hello))),
      OEvent (EvChannelData 7 (sample_control_to (CDecision Accepted)))]"

definition host_script :: "nat \<Rightarrow> server_to_viewer option" where
  "host_script n =
     (if n = 0 then Some SVJoined
      else if n = 1 then Some (SVRelay (sample_relay (PReply [2] sample_mac_b)))
      else Some (SVRelay (sample_relay session_answer)))"

lemma host_script_simps [simp]:
  "host_script 0 = Some SVJoined"
  "host_script (Suc 0) = Some (SVRelay (sample_relay (PReply [2] sample_mac_b)))"
  "host_script (Suc (Suc n)) = Some (SVRelay (sample_relay session_answer))"
  by (simp_all add: host_script_def)

abbreviation session_viewer :: sample_viewer_libs where
  "session_viewer \<equiv> sample_viewer host_script host_tape"

definition sample_host_id :: peer_identity where
  "sample_host_id = \<lparr>pi_device_key = replicate 32 1, pi_name = lit ''h'', pi_reconnect_key = replicate 32 2\<rparr>"

lemma sample_viewer_finish [simp]:
  "viewer_finish sample_spake (sample_mac_b, [9]) [2] sample_mac_b s = (Ok (sample_keys, sample_mac_b), s)"
proof -
  have "hkdf_ok sample_spake" using sample_spake_ok by (simp add: spake_ok_def)
  moreover have "length sample_mac_b = 32"
    by (simp add: sample_mac_b_def sample_mac_def code_input_def host_id_bytes_def sample_lengths)
  ultimately show ?thesis
    by (simp add: viewer_finish_def run_simps to_mac_def sample_spake_def [THEN arg_cong, of sp_verify]
        sample_spake_def [THEN arg_cong, of sp_key] sample_spake_def [THEN arg_cong, of a_finish]
        sample_spake_def [THEN arg_cong, of sp_mac] derive_run sample_keys_def)
qed

lemma host_verifies:
  "verify_hello sample_id_lib session_hello RHost (hello_binding sample_keys) [1] [2] = Inr sample_host_id"
proof -
  have "check_device_name (lit ''h'') = Inr ()" by code_simp
  then show ?thesis
    by (simp add: verify_hello_def session_hello_def make_hello_def Let_def device_public_def
        reconnect_public_def sign_raw_def sample_host_config_def sample_id_lib_def sample_host_id_def
        min_rest)
qed

lemma host_hello_decodes:
  "control_decode sample_wire (sample_control_to (CHello session_hello)) = Inr (CHello session_hello)"
proof -
  have b: "length (put_bytes xs) = 2 * length xs + 1" for xs by (induction xs) auto
  have s: "length (put_str (lit ''h'')) = 107" by code_simp
  have "length (sample_control_to (CHello session_hello)) \<le> MAX_CONTROL_BYTES"
    by (simp add: session_hello_def make_hello_def Let_def device_public_def
        reconnect_public_def sign_raw_def sample_host_config_def sample_id_lib_def MAX_CONTROL_BYTES_def b s
        put_nat_def sample_control_to.simps)
  then show ?thesis
    by (intro control_roundtrip [OF sample_wire_ok]) (simp_all add: sample_wire_def)
qed

lemma accepted_decodes:
  "control_decode sample_wire (sample_control_to (CDecision Accepted)) = Inr (CDecision Accepted)"
proof -
  have "length (sample_control_to (CDecision Accepted)) \<le> MAX_CONTROL_BYTES" by code_simp
  then show ?thesis
    by (intro control_roundtrip [OF sample_wire_ok]) (simp_all add: sample_wire_def)
qed

section \<open>The channel of the viewer\<close>

lemma viewer_peer_new [simp]:
  "peer_new sample_os (viewer_rtc tape) [V4 0x7F000001] w = (Ok (sample_peer [] None), Suc w)"
  by (simp add: peer_new_def sample_os_def run_simps now_def ext_total_def ext_def
      sample_peer_def insert_socket_def)

lemma viewer_create_offer [simp]:
  "on_chan (on_peer (peer_create_offer (viewer_rtc tape))) (sample_chan r c ds, s) =
     (Ok (lit ''offer'', ()), sample_chan tape c ds, s)"
  by (simp add: on_chan_def on_peer_def peer_create_offer_def run_simps rtc_call_def
      sample_chan_def sample_peer_def)

lemma viewer_accept_answer [simp]:
  "on_chan (on_peer (peer_accept_answer (viewer_rtc tape) () a)) (sample_chan r c ds, s) =
     (Ok (), sample_chan r c ds, s)"
  by (simp add: on_chan_def on_peer_def peer_accept_answer_def run_simps rtc_call_def
      sample_chan_def sample_peer_def)

lemma viewer_fps [simp]:
  "on_chan (on_peer (peer_local_fp (viewer_rtc tape))) (sample_chan r c ds, s) = (Ok [2], sample_chan r c ds, s)"
  "on_chan (on_peer (peer_remote_fp (viewer_rtc tape))) (sample_chan r c ds, s) = (Ok (Some [1]), sample_chan r c ds, s)"
  by (simp_all add: on_chan_def on_peer_def peer_local_fp_def peer_remote_fp_def run_simps
      sample_chan_def)

lemma viewer_c_now [simp]:
  "on_snd (get_now (sample_viewer sc tape)) (c, s) = (Ok (world s), c, s\<lparr>world := Suc (world s)\<rparr>)"
  by (simp add: on_snd_def)

lemma viewer_c_send [simp]:
  "c_send (sample_viewer sc tape) m (sample_chan r (Some i) ds, s) =
     (Ok (), sample_chan r (Some i) ds, s\<lparr>history := history s @ [EvTold m]\<rparr>)"
  by (simp add: c_send_def noting_c_def on_chan_def channel_send_def control_encode_def sample_wire_def
      on_peer_def peer_send_def run_simps sample_chan_def sample_peer_def rtc_call_def
      on_snd_def record_event_def)

abbreviation host_words :: "bytes list" where
  "host_words \<equiv> [sample_control_to (CHello session_hello), sample_control_to (CDecision Accepted)]"

lemma viewer_drain:
  "drain_output sample_os (viewer_rtc tape) 9 [] (sample_peer host_tape None, w) =
     (Ok (PChannelOpen # map PData host_words), sample_peer [] (Some 7), w)"
  by (simp add: numeral_eq_Suc run_simps rtc_call_def sample_peer_def host_tape_def
      take_event_def Peer.map_event_def)

lemma viewer_poll:
  "peer_poll sample_os (viewer_rtc tape) 9 d (sample_peer host_tape None, w) =
     (Ok (PChannelOpen # map PData host_words), sample_peer [] (Some 7), Suc w)"
  by (simp add: peer_poll_def loop9 viewer_drain [simplified] run_simps on_snd_def)

lemma viewer_wait_open [simp]:
  "Suc (world s) < d \<Longrightarrow> c_wait_open session_viewer d (sample_chan host_tape None [], s) =
     (Ok Ready, sample_chan [] (Some 7) host_words,
      s\<lparr>world := world s + 2, history := history s @ [EvOpened Ready]\<rparr>)"
  by (simp add: c_wait_open_def loop9 noting_c_def on_chan_def run_simps on_snd_def
      sample_chan_def on_peer_def viewer_poll [simplified] ch_absorb_def absorb_def record_event_def)

lemma viewer_next_control:
  assumes "control_decode sample_wire d = Inr m"
  shows "next_control (sample_viewer sc tape) dl st (sample_chan r c (d # ds), s) =
     (Ok m, sample_chan r c ds, s\<lparr>history := history s @ [EvHeard (NMsg m)]\<rparr>)"
  using assms
  by (simp add: next_control_def c_next_def loop9 noting_c_def on_chan_def run_simps on_snd_def sample_chan_def
      ch_pop_def pop_pending_def record_event_def)

lemmas viewer_hears = viewer_next_control [OF host_hello_decodes] viewer_next_control [OF accepted_decodes]

section \<open>The run\<close>

definition viewer_history :: "vevent list" where
  "viewer_history =
     [EvGot (Some SVJoined), EvSent (VSRelay (sample_relay (PStart [9]))),
      EvGot (Some (SVRelay (sample_relay (PReply [2] sample_mac_b)))),
      EvSent (VSRelay (sample_relay (PConfirm sample_mac_b
        (sample_sealed (viewer_to_host sample_keys) (as_bytes (lit ''offer'')))))),
      EvGot (Some (SVRelay (sample_relay session_answer))), EvOpened Ready, EvTold (CHello sample_hello),
      EvHeard (NMsg (CHello session_hello)), EvHeard (NMsg (CDecision Accepted)), EvLinkDropped]"

lemma viewer_greet_run:
  "viewer_greet session_viewer sample_keys sample_viewer_keys ts [2] [1]
     (sample_chan [] (Some 7) host_words, s) =
   (Ok sample_host_id, sample_chan [] (Some 7) [],
      s\<lparr>world := world s + 2, history := history s @ [EvTold (CHello sample_hello),
          EvHeard (NMsg (CHello session_hello)), EvHeard (NMsg (CDecision Accepted))]\<rparr>)"
  by (simp add: viewer_greet_def run_simps viewer_hears viewer_host_identity_def host_verifies
      sample_hello_def)

lemma answer_text [simp]: "from_utf8 (as_bytes (lit ''answer'')) = Some (lit ''answer'')"
  by code_simp

lemma viewer_answered_run:
  "viewer_answered session_viewer sample_keys sample_viewer_keys default_timeouts () (lit ''answer'')
     (sample_chan host_tape None [], s) =
   (Ok sample_host_id, sample_chan [] (Some 7) [],
      s\<lparr>world := world s + 5, history := history s @ [EvOpened Ready, EvTold (CHello sample_hello),
          EvHeard (NMsg (CHello session_hello)), EvHeard (NMsg (CDecision Accepted))]\<rparr>)"
  by (simp add: viewer_answered_def run_simps viewer_greet_run default_timeouts_def secs_def)

lemma viewer_handshake_run:
  "viewer_handshake session_viewer sample_keys sample_mac_b sample_viewer_keys default_timeouts
     (sample_chan [] None [], \<lparr>world = Suc (Suc (Suc 0)), history = take 3 viewer_history\<rparr>) =
   (Ok sample_host_id, sample_chan [] (Some 7) [], \<lparr>world = 9, history = take 9 viewer_history\<rparr>)"
  by (simp add: viewer_handshake_def run_simps run_local_def viewer_side_def infallible_def on_snd_def
      viewer_sealed_answer_def session_answer_def attempt_ok_def viewer_answered_run viewer_history_def
      numeral_eq_Suc)

lemma viewer_session_run:
  "sample_connect session_viewer viewer_start_run =
     (Ok \<lparr>vs_host = sample_host_id, vs_ch = sample_chan [] (Some 7) [], vs_next_seq = 0\<rparr>,
      \<lparr>world = 9, history = viewer_history\<rparr>)"
  by (simp add: connect_def owning_link_def viewer_connect_body_def viewer_joined_def in_world_def ext_total_def
      viewer_start_run_def viewer_got_reply_def viewer_with_keys_def sample_channel_new scoped_def
      viewer_handshake_run [unfolded viewer_history_def, simplified] viewer_history_def run_simps)

end
