(* ===== verification/ViewerTheorems.thy ===== *)
theory ViewerTheorems
  imports ViewerSample
begin

text \<open>
  The properties of the viewer: what every run of \<open>connect\<close> has done when it returns, whatever the
  host, the server and the network did.  Each is read off the path of the run (\<open>ViewerProtocol\<close>) and
  its invariants (\<open>ViewerSafety\<close>).
\<close>

text \<open>The result of a run and the last phase of its path.\<close>

lemma connect_run:
  fixes L :: "('w, 'rtc, 'p, 'k, 'st, 'out, 'sk, 'xk, 'rnd) viewer_libs"
  assumes "wire_ok (l_wire L)" "connect L hid code keys ips ts s = (r, s')"
  obtains tr and q :: "'st vphase" where "history s' = history s @ tr"
    "path (vstep L keys code hid) Connecting tr q"
    "\<And>v. r = Ok v \<Longrightarrow> q = Over (Inr (vs_host v))" "\<And>e. r = Err e \<Longrightarrow> q = Over (Inl e)"
proof -
  from wpD [OF connect_over [OF assms(1)] assms(2)]
  have "\<exists>q :: 'st vphase. went (vstep L keys code hid) Connecting (history s) q s' \<and>
      (\<forall>v. r = Ok v \<longrightarrow> q = Over (Inr (vs_host v))) \<and> (\<forall>e. r = Err e \<longrightarrow> q = Over (Inl e))"
    by (cases r) (auto simp: v_over_def)
  with that show thesis unfolding went_def by blast
qed

section \<open>Properties\<close>

text \<open>C3: A session of the viewer is authentic: the viewer opened the exchange with its code for the
  host it wanted, a Reply of the host was confirmed under it, its offer went out sealed under the
  derived keys, a sealed answer was opened under them, the channel opened, and the identity returned
  was verified from a Hello on that channel over the same keys' binding, before the host accepted.\<close>

theorem viewer_session_authentic:
  assumes "wire_ok (l_wire L)" and "connect L hid code keys ips ts s = (Ok v, s')"
  shows "\<exists>tr st rnd pa e1 d1 pb mac_b sk mac_a offer so e2 d2 sa answer lf rf hh.
    history s' = history s @ tr \<and>
    viewer_start (l_spake L) code hid rnd () = (Ok (st, pa), ()) \<and>
    e1 \<in> set tr \<and> viewer_said (l_wire L) (PStart pa) e1 \<and>
    EvGot d1 \<in> set tr \<and> viewer_relay_of (l_wire L) StPake d1 = Inr (PReply pb mac_b) \<and>
    viewer_finish (l_spake L) st pb mac_b () = (Ok (sk, mac_a), ()) \<and>
    fst (seal (l_aead L) (as_bytes offer) (fst (viewer_side sk))) = Ok so \<and>
    e2 \<in> set tr \<and> viewer_said (l_wire L) (PConfirm mac_a so) e2 \<and>
    EvGot d2 \<in> set tr \<and> viewer_relay_of (l_wire L) StAnswer d2 = Inr (PAnswer sa) \<and>
    answer_in (l_aead L) sk sa = Some answer \<and> EvOpened Ready \<in> set tr \<and>
    EvTold (CHello (make_hello (l_id L) keys RViewer (hello_binding sk) lf rf)) \<in> set tr \<and>
    EvHeard (NMsg (CHello hh)) \<in> set tr \<and>
    verify_hello (l_id L) hh RHost (hello_binding sk) rf lf = Inr (vs_host v) \<and>
    EvHeard (NMsg (CDecision Accepted)) \<in> set tr"
proof -
  obtain tr q where run: "history s' = history s @ tr" "path (vstep L keys code hid) Connecting tr q"
    "q = Over (Inr (vs_host v))"
    using connect_run [OF assms] by metis
  from v_path_evidence [OF run(2)] run(3) obtain sk lf rf hh where
    h: "greeted L keys code hid tr sk lf rf" "EvHeard (NMsg (CHello hh)) \<in> set tr"
      "verify_hello (l_id L) hh RHost (hello_binding sk) rf lf = Inr (vs_host v)"
      "EvHeard (NMsg (CDecision Accepted)) \<in> set tr"
    by (auto simp: host_known_def)
  from h(1) obtain mac_a offer so where o: "host_confirmed L code hid tr sk mac_a"
      "fst (seal (l_aead L) (as_bytes offer) (fst (viewer_side sk))) = Ok so"
      "\<exists>e\<in>set tr. viewer_said (l_wire L) (PConfirm mac_a so) e"
      "\<exists>v sa answer. EvGot v \<in> set tr \<and> viewer_relay_of (l_wire L) StAnswer v = Inr (PAnswer sa) \<and>
        answer_in (l_aead L) sk sa = Some answer"
      "EvOpened Ready \<in> set tr"
      "EvTold (CHello (make_hello (l_id L) keys RViewer (hello_binding sk) lf rf)) \<in> set tr"
    unfolding greeted_def answered_def offered_def by blast
  from o(1) obtain st d1 pb mac_b rnd pa where c: "viewer_start (l_spake L) code hid rnd () = (Ok (st, pa), ())"
      "\<exists>e\<in>set tr. viewer_said (l_wire L) (PStart pa) e" "EvGot d1 \<in> set tr"
      "viewer_relay_of (l_wire L) StPake d1 = Inr (PReply pb mac_b)"
      "viewer_finish (l_spake L) st pb mac_b () = (Ok (sk, mac_a), ())"
    unfolding host_confirmed_def started_with_def by blast
  from run(1) c o(2-6) h(2-4) show ?thesis by blast
qed

theorem viewer_session_authentic_witness:
  "\<exists>st rnd pa d1 pb mac_b sk mac_a lf rf hh.
    viewer_start sample_spake (lit ''123456'') (lit ''123456789'') rnd () = (Ok (st, pa), ()) \<and>
    EvGot d1 \<in> set viewer_history \<and> viewer_relay_of sample_wire StPake d1 = Inr (PReply pb mac_b) \<and>
    viewer_finish sample_spake st pb mac_b () = (Ok (sk, mac_a), ()) \<and>
    EvHeard (NMsg (CHello hh)) \<in> set viewer_history \<and>
    verify_hello sample_id_lib hh RHost (hello_binding sk) rf lf = Inr sample_host_id"
proof -
  have "wire_ok (l_wire session_viewer)" by (simp add: sample_wire_ok)
  from viewer_session_authentic [OF this viewer_session_run] show ?thesis
    by (simp add: viewer_start_run_def) blast
qed

text \<open>C8: The viewer gives nothing away before the host has proved that it knows the code: each
  relay other than the opening message, each use of the data channel and the end of a peer comes
  after a Reply that the PAKE confirmed; so the offer with the addresses never goes to a stranger.\<close>

theorem viewer_reveals_after_confirmation:
  assumes "wire_ok (l_wire L)" and "connect L hid code keys ips ts s = (r, s')"
  shows "\<exists>tr. history s' = history s @ tr \<and>
    (\<forall>pre e post. tr = pre @ e # post \<longrightarrow> reveals (l_wire L) e \<longrightarrow>
       (\<exists>rnd pa st d pb mac_b keys.
          viewer_start (l_spake L) code hid rnd () = (Ok (st, pa), ()) \<and> EvGot d \<in> set pre \<and>
          viewer_relay_of (l_wire L) StPake d = Inr (PReply pb mac_b) \<and>
          viewer_finish (l_spake L) st pb mac_b () = (Ok keys, ())))"
proof -
  obtain tr q where run: "history s' = history s @ tr" "path (vstep L keys code hid) Connecting tr q"
    using connect_run [OF assms] by metis
  from v_path_guarded [OF run(2)] run(1) show ?thesis
    unfolding guarded_def host_confirmed_def started_with_def by (intro exI [of _ tr]) blast
qed

theorem viewer_reveals_after_confirmation_witness:
  "\<exists>rnd pa st d pb mac_b keys.
     viewer_start sample_spake (lit ''123456'') (lit ''123456789'') rnd () = (Ok (st, pa), ()) \<and>
     EvGot d \<in> set (take 5 viewer_history) \<and>
     viewer_relay_of sample_wire StPake d = Inr (PReply pb mac_b) \<and>
     viewer_finish sample_spake st pb mac_b () = (Ok keys, ())"
proof -
  have "wire_ok (l_wire session_viewer)" by (simp add: sample_wire_ok)
  from viewer_reveals_after_confirmation [OF this viewer_session_run]
  have "\<forall>pre e post. viewer_history = pre @ e # post \<longrightarrow> reveals sample_wire e \<longrightarrow>
       (\<exists>rnd pa st d pb mac_b keys.
          viewer_start sample_spake (lit ''123456'') (lit ''123456789'') rnd () = (Ok (st, pa), ()) \<and> EvGot d \<in> set pre \<and>
          viewer_relay_of sample_wire StPake d = Inr (PReply pb mac_b) \<and>
          viewer_finish sample_spake st pb mac_b () = (Ok keys, ()))"
    by (simp add: viewer_start_run_def)
  from this [rule_format, of "take 5 viewer_history" "EvOpened Ready" "drop 6 viewer_history"] show ?thesis
    by (simp add: viewer_history_def)
qed





end
