(* ===== verification/Agreement.thy ===== *)
theory Agreement
  imports HostTheorems ViewerTheorems
begin

text \<open>
  The two ends together: a session of the host and a session of the viewer that talked to each
  other.  What one end heard the other has said, and the network may lose, delay, repeat and reorder,
  but not alter, the messages.
\<close>

section \<open>What the viewer has said\<close>

text \<open>The opening messages an event sends, and the greetings it tells.\<close>

definition start_of :: "wire \<Rightarrow> vevent \<Rightarrow> bytes set" where
  "start_of w e = {pa. \<exists>d. e = EvSent (VSRelay d) \<and> relay_parse w d = Some (PStart pa)}"

definition hello_of :: "('i, 'o) event \<Rightarrow> hello set" where
  "hello_of e = {h. e = EvTold (CHello h)}"

definition starts :: "wire \<Rightarrow> vevent list \<Rightarrow> bytes set" where
  "starts w tr = (\<Union>e\<in>set tr. start_of w e)"

definition hellos :: "('i, 'o) event list \<Rightarrow> hello set" where
  "hellos tr = (\<Union>e\<in>set tr. hello_of e)"

lemma said_sets [simp]:
  "starts w [] = {}" "starts w (tr @ [e]) = starts w tr \<union> start_of w e"
  "hellos [] = {}" "hellos (tr @ [e]) = hellos tr \<union> hello_of e"
  by (auto simp: starts_def hellos_def)

lemma start_of_simps [simp]:
  "start_of w (EvGot v) = {}" "start_of w (EvLinkError x) = {}" "start_of w (EvOpened q) = {}"
  "start_of w (EvTold m) = {}" "start_of w (EvHeard n) = {}" "start_of w (EvTransportError t) = {}"
  "start_of w EvDropped = {}" "start_of w EvLinkDropped = {}"
  by (simp_all add: start_of_def)

lemma hello_of_simps [simp]:
  "hello_of (EvGot v) = {}" "hello_of (EvLinkError x) = {}" "hello_of (EvOpened q) = {}"
  "hello_of (EvSent m) = {}" "hello_of (EvHeard n) = {}" "hello_of (EvTransportError t) = {}"
  "hello_of EvDropped = {}" "hello_of EvLinkDropped = {}" "hello_of (EvTold (CHello h)) = {h}"
  by (auto simp: hello_of_def)

lemma said_start: "viewer_said w (PStart pa) e \<Longrightarrow> start_of w e \<subseteq> {pa} \<and> hello_of e = {}"
  by (auto simp: viewer_said_def start_of_def)

lemma said_confirm: "viewer_said w (PConfirm m so) e \<Longrightarrow> start_of w e = {} \<and> hello_of e = {}"
  by (auto simp: viewer_said_def start_of_def)

text \<open>The PAKE state goes with every opening message that was sent, and the keys with the state.\<close>

definition opened_by ::
  "('w, 'rtc, 'p, 'k, 'st, 'out, 'sk, 'xk, 'rnd) viewer_libs \<Rightarrow> ustr \<Rightarrow> ustr \<Rightarrow> vevent list \<Rightarrow> 'st \<Rightarrow> bool"
where
  "opened_by L code hid tr st \<longleftrightarrow>
     (\<forall>pa\<in>starts (l_wire L) tr. \<exists>rnd. viewer_start (l_spake L) code hid rnd () = (Ok (st, pa), ()))"

definition keyed ::
  "('w, 'rtc, 'p, 'k, 'st, 'out, 'sk, 'xk, 'rnd) viewer_libs \<Rightarrow> ustr \<Rightarrow> ustr \<Rightarrow> vevent list \<Rightarrow>
   session_keys \<Rightarrow> bool"
where
  "keyed L code hid tr sk \<longleftrightarrow>
     (\<exists>st v pb mac_b mac_a. opened_by L code hid tr st \<and> EvGot v \<in> set tr \<and>
        viewer_relay_of (l_wire L) StPake v = Inr (PReply pb mac_b) \<and>
        viewer_finish (l_spake L) st pb mac_b () = (Ok (sk, mac_a), ()))"

lemma keyed_snoc: "keyed L code hid tr sk \<Longrightarrow> start_of (l_wire L) e = {} \<Longrightarrow> keyed L code hid (tr @ [e]) sk"
  unfolding keyed_def opened_by_def by fastforce

definition met ::
  "('w, 'rtc, 'p, 'k, 'st, 'out, 'sk, 'xk, 'rnd) viewer_libs \<Rightarrow> ('sk, 'xk) device_keys \<Rightarrow> ustr \<Rightarrow> ustr \<Rightarrow>
   vevent list \<Rightarrow> peer_identity \<Rightarrow> bool"
where
  "met L keys code hid tr host \<longleftrightarrow>
     (\<exists>sk lf rf hh. keyed L code hid tr sk \<and>
        hellos tr = {make_hello (l_id L) keys RViewer (hello_binding sk) lf rf} \<and>
        EvHeard (NMsg (CHello hh)) \<in> set tr \<and>
        verify_hello (l_id L) hh RHost (hello_binding sk) rf lf = Inr host)"

lemma met_snoc:
  "met L keys code hid tr host \<Longrightarrow> start_of (l_wire L) e = {} \<Longrightarrow> hello_of e = {} \<Longrightarrow>
     met L keys code hid (tr @ [e]) host"
  unfolding met_def using keyed_snoc [of L code hid tr _ e] by fastforce

fun v_account ::
  "('w, 'rtc, 'p, 'k, 'st, 'out, 'sk, 'xk, 'rnd) viewer_libs \<Rightarrow> ('sk, 'xk) device_keys \<Rightarrow> ustr \<Rightarrow> ustr \<Rightarrow>
   vevent list \<Rightarrow> 'st vphase \<Rightarrow> bool"
where
  "v_account L keys code hid tr Connecting = (starts (l_wire L) tr = {} \<and> hellos tr = {})"
| "v_account L keys code hid tr SeatTaken = (starts (l_wire L) tr = {} \<and> hellos tr = {})"
| "v_account L keys code hid tr (StartSent st) = (opened_by L code hid tr st \<and> hellos tr = {})"
| "v_account L keys code hid tr (KeysAgreed sk mac_a) = (keyed L code hid tr sk \<and> hellos tr = {})"
| "v_account L keys code hid tr (OfferSent sk) = (keyed L code hid tr sk \<and> hellos tr = {})"
| "v_account L keys code hid tr (AnswerGot sk) = (keyed L code hid tr sk \<and> hellos tr = {})"
| "v_account L keys code hid tr (ChannelUp sk) = (keyed L code hid tr sk \<and> hellos tr = {})"
| "v_account L keys code hid tr (HelloSent sk lf rf) =
     (keyed L code hid tr sk \<and> hellos tr = {make_hello (l_id L) keys RViewer (hello_binding sk) lf rf})"
| "v_account L keys code hid tr (HostKnown host) = met L keys code hid tr host"
| "v_account L keys code hid tr (HostAccepted host) = met L keys code hid tr host"
| "v_account L keys code hid tr (Over (Inr host)) = met L keys code hid tr host"
| "v_account L keys code hid tr _ = True"

lemma v_account_step:
  assumes "vstep L keys code hid p e q" "v_account L keys code hid tr p"
  shows "v_account L keys code hid (tr @ [e]) q"
  using assms
proof (cases rule: vstep.cases)
  case (v_start rnd st pa)
  with assms(2) said_start [of "l_wire L" pa e] show ?thesis
    by (auto simp: opened_by_def)
next
  case (v_reply v pb mac_b st sk mac_a)
  with assms(2) show ?thesis by (fastforce simp: keyed_def opened_by_def)
next
  case (v_confirm offer sk so mac_a)
  with assms(2) said_confirm [of "l_wire L" mac_a so e] show ?thesis
    by (simp add: keyed_snoc)
next
  case (v_host_hello sk lf rf msg host)
  with assms(2) obtain hh where "msg = CHello hh"
    "verify_hello (l_id L) hh RHost (hello_binding sk) rf lf = Inr host"
    using host_identity_verified [of L sk lf rf msg host] by blast
  with v_host_hello assms(2) keyed_snoc [of L code hid tr sk e] show ?thesis
    unfolding v_host_hello v_account.simps met_def
    by (intro exI [of _ sk] exI [of _ lf] exI [of _ rf] exI [of _ hh]) simp
qed (use assms(2) in \<open>auto simp: keyed_snoc met_snoc dest: decision_accepted\<close>)

lemma v_path_account:
  "path (vstep L keys code hid) Connecting tr q \<Longrightarrow> v_account L keys code hid tr q"
  by (induction rule: path.induct) (auto intro: v_account_step)

section \<open>What the host has said\<close>

lemma once_in_filter:
  "distinct (List.map_filter f xs) \<Longrightarrow> x \<in> set xs \<Longrightarrow> y \<in> set xs \<Longrightarrow> f x = Some m \<Longrightarrow> f y = Some m \<Longrightarrow> x = y"
proof (induction xs)
  case (Cons a xs)
  have "m \<in> set (List.map_filter f xs)" if "z \<in> set xs" "f z = Some m" for z
    using that by (force simp: List.map_filter_def)
  with Cons show ?case by (auto simp: List.map_filter_simps split: option.splits)
qed simp

lemma milestone_once:
  assumes "milestones w tr = take k all_milestones" "e \<in> set tr" "e' \<in> set tr"
    and "milestone_of w e = Some m" "milestone_of w e' = Some m"
  shows "e = e'"
proof (rule once_in_filter)
  show "distinct (List.map_filter (milestone_of w) tr)"
    using assms(1) by (simp add: milestones_def all_milestones_def distinct_take)
qed (use assms(2-5) in auto)

text \<open>What a session of the host rests on, with its Reply and its greeting the only ones.\<close>

lemma host_session_says:
  assumes "wire_ok (l_wire L)" and "serve_next L cfg approve n s = (Ok (Session v c), s')"
    and "history s' = history s @ tr"
  obtains d1 pa rnd out pb mac_b mac_a sk vh lf rf where
    "relay_of (l_wire L) d1 = RelMsg (PStart pa)" "EvGot d1 \<in> set tr"
    "host_respond (l_spake L) (h_code s) (hc_host_id cfg) pa rnd () = (Ok (out, pb, mac_b), ())"
    "\<And>d pb' mac'. EvSent (HSRelay d) \<in> set tr \<Longrightarrow> relay_parse (l_wire L) d = Some (PReply pb' mac') \<Longrightarrow>
       pb' = pb \<and> mac' = mac_b"
    "host_confirm (l_spake L) out mac_a () = (Ok sk, ())"
    "\<And>h. EvTold (CHello h) \<in> set tr \<longleftrightarrow> h = host_greeting L cfg sk lf rf"
    "EvHeard (NMsg (CHello vh)) \<in> set tr" "hello_accepted L cfg sk lf rf vh v"
proof -
  from serve_next_run [OF assms(1,2)] assms(3) obtain k q where "passed (l_wire L) tr q k"
    by (metis same_append_eq)
  then have k: "milestones (l_wire L) tr = take k all_milestones" by (simp add: passed_def)
  have "since (history s) s" by (simp add: since_def)
  from serve_next_evidence [OF assms(1) this, of cfg approve n] assms(2)
  have "session_rests_on L cfg (h_code s) (history s) v s'" by (simp add: wp_def)
  then obtain d1 pa rnd out pb mac_b e mac_a sk vh lf rf where ev:
    "relay_of (l_wire L) d1 = RelMsg (PStart pa)" "EvGot d1 \<in> set tr"
    "host_respond (l_spake L) (h_code s) (hc_host_id cfg) pa rnd () = (Ok (out, pb, mac_b), ())"
    "told (l_wire L) e = Some (PReply pb mac_b)" "e \<in> set tr"
    "host_confirm (l_spake L) out mac_a () = (Ok sk, ())"
    "EvTold (CHello (host_greeting L cfg sk lf rf)) \<in> set tr"
    "EvHeard (NMsg (CHello vh)) \<in> set tr" "hello_accepted L cfg sk lf rf vh v"
    unfolding session_rests_on_def reply_evidence_def confirm_evidence_def session_evidence_def seen_def
    using assms(3) by auto
  have reply: "pb' = pb \<and> mac' = mac_b" if "EvSent (HSRelay d) \<in> set tr"
    "relay_parse (l_wire L) d = Some (PReply pb' mac')" for d pb' mac'
  proof -
    have "e = EvSent (HSRelay d)"
      by (rule milestone_once [OF k ev(5) that(1)]) (use ev(4) that(2) in \<open>simp_all add: milestone_of_def told_def\<close>)
    with ev(4) that(2) show ?thesis by (simp add: told_def)
  qed
  have hello: "EvTold (CHello h) \<in> set tr \<longleftrightarrow> h = host_greeting L cfg sk lf rf" for h
    using milestone_once [OF k ev(7), of "EvTold (CHello h)" MGreeted] ev(7)
    by (auto simp: milestone_of_def)
  from ev(1-3) reply ev(6) hello ev(8,9) show thesis by (rule that)
qed

section \<open>Agreement\<close>

text \<open>Every message that one end got from the other was sent by the other: relays through the
  signaling server, control messages on the data channel.\<close>

definition faithful_network :: "hevent list \<Rightarrow> vevent list \<Rightarrow> bool" where
  "faithful_network trh trv \<longleftrightarrow>
     (\<forall>d. EvGot (Some (SHRelay d)) \<in> set trh \<longrightarrow> EvSent (VSRelay d) \<in> set trv) \<and>
     (\<forall>d. EvGot (Some (SVRelay d)) \<in> set trv \<longrightarrow> EvSent (HSRelay d) \<in> set trh) \<and>
     (\<forall>m. EvHeard (NMsg m) \<in> set trh \<longrightarrow> EvTold m \<in> set trv) \<and>
     (\<forall>m. EvHeard (NMsg m) \<in> set trv \<longrightarrow> EvTold m \<in> set trh)"

definition known_as :: "('sk, 'xk, 'rnd) id_lib \<Rightarrow> ('sk, 'xk) device_keys \<Rightarrow> peer_identity" where
  "known_as lib k =
     \<lparr>pi_device_key = device_public lib k, pi_name = dk_name k, pi_reconnect_key = reconnect_public lib k\<rparr>"

lemma verified_as:
  "verify_hello lib (make_hello lib' k r b l f) r' b' l' f' = Inr v \<Longrightarrow> v = known_as lib' k"
  "verify_hello lib ((make_hello lib' k r b l f)\<lparr>protocol_version := p\<rparr>) r' b' l' f' = Inr v \<Longrightarrow> v = known_as lib' k"
  by (simp_all add: verify_hello_Inr make_hello_def Let_def known_as_def)

text \<open>The keys of a confirmation on either side are those of the exchange.\<close>

lemma confirmed_keys:
  assumes "hkdf_ok sp" "host_confirm sp out mac () = (Ok sk, ())"
  shows "sk = derived_keys sp (sp_key sp out)"
  using assms(2) by (auto simp: host_confirm_cases derive_run [OF assms(1)] split: if_splits sum.splits)

lemma finished_keys:
  assumes "hkdf_ok sp" "viewer_finish sp st pb mac_b () = (Ok (sk, mac_a), ())"
  obtains oa where "a_finish sp st pb = Inr oa" "sp_verify sp oa mac_b = Inr ()"
    "sk = derived_keys sp (sp_key sp oa)"
  using assms(2) by (auto simp: viewer_finish_cases derive_run [OF assms(1)] run_simps split: if_splits sum.splits)

text \<open>Both ends of one exchange: same code and host id, same keys.\<close>

lemma exchange_agrees:
  assumes "spake_ok sp" "spake_binds sp"
    and "viewer_start sp code hid ra () = (Ok (st, pa), ())"
    and "host_respond sp code' hid' pa rb () = (Ok (out, pb, mac_b), ())"
    and "viewer_finish sp st pb mac_b () = (Ok (skv, mac_a), ())"
    and "host_confirm sp out mac () = (Ok skh, ())"
    and "valid_str hid" "valid_str hid'" "code_scalar sp code = code_scalar sp code' \<longrightarrow> code = code'"
  shows "code = code' \<and> hid = hid' \<and> skv = skh"
proof -
  have hk: "hkdf_ok sp" using assms(1) by (simp add: spake_ok_def)
  obtain oa where o: "a_finish sp st pb = Inr oa" "sp_verify sp oa mac_b = Inr ()"
    "skv = derived_keys sp (sp_key sp oa)"
    by (rule finished_keys [OF hk assms(5)])
  from viewer_finish_binds [OF assms(2-4,7-9) o(1,2)] have same: "code = code'" "hid = hid'" by simp_all
  obtain w where w: "code_scalar sp code = Inr w"
      "a_start sp w VIEWER_ID (host_id_bytes hid) AAD ra = Some (pa, st)"
    using assms(3) by (auto simp: viewer_start_Ok)
  obtain stb where b: "b_start sp w VIEWER_ID (host_id_bytes hid) AAD rb = Some (pb, stb)"
      "b_finish sp stb pa = Inr out"
    using assms(4) w(1) same by (auto simp: host_respond_Ok)
  from spake_okD [OF assms(1) w(2) b(1)] o(1) b(2) have "sp_key sp oa = sp_key sp out" by simp
  with o(3) confirmed_keys [OF hk assms(6)] same show ?thesis by simp
qed

lemma relay_of_start: "relay_of w d = RelMsg m \<Longrightarrow> \<exists>x. d = Some (SHRelay x) \<and> relay_parse w x = Some m"
  by (auto simp: relay_of_def split: option.splits server_to_host.splits)

lemma viewer_relay_of_reply:
  "viewer_relay_of w st d = Inr m \<Longrightarrow> \<exists>x. d = Some (SVRelay x) \<and> relay_parse w x = Some m"
  by (auto simp: viewer_relay_of_def split: option.splits server_to_viewer.splits)

section \<open>Properties\<close>

text \<open>C5: Both ends agree: when a host and a viewer that talked to each other over a network that does
  not alter messages both end with a session, then the viewer used the current code and the id of this
  host, both greeted with the binding of the same keys, which each of them derived from the exchange,
  and each holds the identity of the other's device.\<close>

theorem sessions_agree:
  fixes LH :: "('w, 'rtc, 'p, 'k, 'st, 'out, 'sk, 'xk, 'rnd) host_libs"
    and LV :: "('v, 'rtcv, 'pv, 'k, 'st, 'out, 'sk, 'xk, 'rnd) viewer_libs"
  assumes "wire_ok (l_wire LH)" "l_wire LV = l_wire LH" "l_id LV = l_id LH"
    and "l_spake LV = l_spake LH" "spake_ok (l_spake LH)" "spake_binds (l_spake LH)"
    and "serve_next LH cfg approve n s = (Ok (Session v c), s')" "history s' = history s @ trh"
    and "connect LV hid code keys ips ts u = (Ok vs, u')" "history u' = history u @ trv"
    and "faithful_network trh trv"
    and "valid_str hid" "valid_str (hc_host_id cfg)"
    and "code_scalar (l_spake LH) code = code_scalar (l_spake LH) (h_code s) \<longrightarrow> code = h_code s"
  shows "code = h_code s \<and> hid = hc_host_id cfg \<and>
    v = known_as (l_id LH) keys \<and> vs_host vs = known_as (l_id LH) (hc_keys cfg) \<and>
    (\<exists>sk out mac st pb mac_b mac_a lf rf lf' rf'.
       host_confirm (l_spake LH) out mac () = (Ok sk, ()) \<and>
       viewer_finish (l_spake LH) st pb mac_b () = (Ok (sk, mac_a), ()) \<and>
       EvTold (CHello (host_greeting LH cfg sk lf rf)) \<in> set trh \<and>
       EvTold (CHello (make_hello (l_id LH) keys RViewer (hello_binding sk) lf' rf')) \<in> set trv)"
proof -
  obtain d1 pa rnd out pb mac_b mac sk vh lf rf where h:
    "relay_of (l_wire LH) d1 = RelMsg (PStart pa)" "EvGot d1 \<in> set trh"
    "host_respond (l_spake LH) (h_code s) (hc_host_id cfg) pa rnd () = (Ok (out, pb, mac_b), ())"
    "\<And>d pb' mac'. EvSent (HSRelay d) \<in> set trh \<Longrightarrow> relay_parse (l_wire LH) d = Some (PReply pb' mac') \<Longrightarrow>
       pb' = pb \<and> mac' = mac_b"
    "host_confirm (l_spake LH) out mac () = (Ok sk, ())"
    "\<And>h. EvTold (CHello h) \<in> set trh \<longleftrightarrow> h = host_greeting LH cfg sk lf rf"
    "EvHeard (NMsg (CHello vh)) \<in> set trh" "hello_accepted LH cfg sk lf rf vh v"
    by (rule host_session_says [OF assms(1,7,8)]) (rule that; assumption)
  obtain q where q: "path (vstep LV keys code hid) Connecting trv q" "q = Over (Inr (vs_host vs))"
    using connect_run [OF _ assms(9)] assms(1,2,10) by (metis same_append_eq)
  from v_path_account [OF q(1)] q(2) assms(2-4) obtain st skv d2 pb' mac' mac_a lf' rf' hh where w:
    "opened_by LV code hid trv st" "EvGot d2 \<in> set trv"
    "viewer_relay_of (l_wire LH) StPake d2 = Inr (PReply pb' mac')"
    "viewer_finish (l_spake LH) st pb' mac' () = (Ok (skv, mac_a), ())"
    "hellos trv = {make_hello (l_id LH) keys RViewer (hello_binding skv) lf' rf'}"
    "EvHeard (NMsg (CHello hh)) \<in> set trv" "verify_hello (l_id LH) hh RHost (hello_binding skv) rf' lf' = Inr (vs_host vs)"
    by (auto simp: met_def keyed_def)
  from relay_of_start [OF h(1)] h(2) assms(11) obtain x where
    "EvSent (VSRelay x) \<in> set trv" "relay_parse (l_wire LH) x = Some (PStart pa)"
    by (auto simp: faithful_network_def)
  then have "pa \<in> starts (l_wire LV) trv" using assms(2) by (auto simp: starts_def start_of_def)
  with w(1) assms(4) obtain ra where start: "viewer_start (l_spake LH) code hid ra () = (Ok (st, pa), ())"
    by (auto simp: opened_by_def)
  from viewer_relay_of_reply [OF w(3)] w(2) assms(11) h(4) have reply: "pb' = pb" "mac' = mac_b"
    by (auto simp: faithful_network_def)
  from exchange_agrees [OF assms(5,6) start h(3) w(4) [unfolded reply] h(5) assms(12-14)]
  have agree: "code = h_code s" "hid = hc_host_id cfg" "skv = sk" by simp_all
  have told: "EvTold (CHello h) \<in> set trv \<longleftrightarrow> h = make_hello (l_id LH) keys RViewer (hello_binding sk) lf' rf'" for h
    using w(5) agree(3) by (fastforce simp: hellos_def hello_of_def)
  have "vh = make_hello (l_id LH) keys RViewer (hello_binding sk) lf' rf'"
    using h(7) assms(11) by (auto simp: faithful_network_def told [symmetric])
  with h(8) have "v = known_as (l_id LH) keys" by (auto simp: hello_accepted_def dest: verified_as)
  moreover have "hh = host_greeting LH cfg sk lf rf"
    using w(6) assms(11) by (auto simp: faithful_network_def h(6) [symmetric])
  with w(7) have "vs_host vs = known_as (l_id LH) (hc_keys cfg)" by (auto simp: host_greeting_def dest: verified_as)
  ultimately show ?thesis using agree h(5,6) w(4) told by blast
qed

lemma sample_faithful: "faithful_network session_history viewer_history"
  by (auto simp: faithful_network_def session_history_defs viewer_history_def)

theorem sessions_agree_witness:
  "sample_viewer_id = known_as sample_id_lib sample_viewer_keys \<and>
   sample_host_id = known_as sample_id_lib (hc_keys sample_host_config) \<and>
   (\<exists>sk. (\<exists>lf rf. EvTold (CHello (host_greeting (session_host :: unit sample_libs) sample_host_config sk lf rf)) \<in> set session_history) \<and>
      (\<exists>lf rf. EvTold (CHello (make_hello sample_id_lib sample_viewer_keys RViewer (hello_binding sk) lf rf)) \<in>
         set viewer_history))"
proof -
  have v: "valid_str (lit ''123456789'')" by (simp add: lit_def valid_str_def is_scalar_def)
  have id: "hc_host_id sample_host_config = lit ''123456789''" by (simp add: sample_host_config_def)
  show ?thesis
    using sessions_agree [OF _ _ _ _ _ _ session_run _ viewer_session_run, of session_history viewer_history]
    by (simp add: sample_wire_ok sample_spake_ok sample_spake_binds sample_faithful v id sample_run_def
        viewer_start_run_def) blast
qed

end
