(* ===== verification/Punctual.thy ===== *)
theory Punctual
  imports Flow
begin

text \<open>
  Time and effort: with a clock that advances, an engine that ends its outputs and a link that
  returns, the steps of the connection flows return, and the messages that can wait on a channel are
  bounded by the time that passes.  \<open>punctual\<close> collects what is asked of the surroundings; each bound is
  the number of messages a poll can bring times the ticks up to a deadline.
\<close>

section \<open>How many events a poll brings\<close>

definition few :: "nat \<Rightarrow> ('x, 'e list) res \<Rightarrow> 's \<Rightarrow> bool" where
  "few k r s \<longleftrightarrow> (\<forall>es. r = Ok es \<longrightarrow> length es \<le> k)"

lemma few_simps [simp]:
  "few k (Ok es) s = (length es \<le> k)" "few k (Err x) s" "few k Panic s" "few k Hang s"
  by (simp_all add: few_def)

lemma drain_output_few:
  assumes "drains lib work k"
  shows "wp (drain_output sys lib n events) (few (length events + work (rtc (fst s)))) s"
proof (induction n arbitrary: s events)
  case (Suc n)
  show ?case
  proof (cases "rtc_poll_output lib (rtc (fst s))")
    case (Pair v r)
    have IH: "wp (drain_output sys lib n evs) (few (length events + work (rtc (fst s)))) (p, w)"
      if "rtc p = r" "v = Inr out" "\<nexists>t. out = OTimeout t" "length evs \<le> Suc (length events)" for evs p w out
    proof -
      have "work r < work (rtc (fst s))"
        using drainsD [OF assms Pair [unfolded that(2)]] that(3) by blast
      with that(1,4) have "length evs + work (rtc (fst (p, w))) \<le> length events + work (rtc (fst s))" by simp
      then show ?thesis
        by (intro wp_mono [OF Suc.IH [of evs "(p, w)"]]) (auto simp: few_def)
    qed
    have ev: "rtc p = r" if "Peer.map_event e (fst s\<lparr>rtc := r\<rparr>) = (x, p)" for e x p
      using rtc_map_event [of e "fst s\<lparr>rtc := r\<rparr>"] that by simp
    show ?thesis
      using Pair
      by (auto simp: wp_rules split: sum.splits rtc_output.splits option.splits prod.splits intro!: IH dest: ev)
  qed
qed (simp add: wp_hang)

lemma poll_loop_few:
  assumes "drains lib work k"
  shows "wp (poll_loop sys lib fl n end_at) (few k) s"
proof (induction n arbitrary: s)
  case (Suc n)
  have rest: "wp (bnd (on_snd (now sys)) (\<lambda>t.
       if end_at \<le> t then ret []
       else
         bnd (pump_sockets sys lib) (\<lambda>got_input.
         bnd (on_snd (now sys)) (\<lambda>t2.
         bnd (rtc_call (rtc_timeout lib t2)) (\<lambda>_.
         if got_input then poll_loop sys lib fl n end_at
         else
           bnd (on_snd (ext_total (os_sleep sys (millis 1)))) (\<lambda>_.
           poll_loop sys lib fl n end_at)))))) (few k) u" for u
    by (intro wp_bnd_any) (auto simp: wp_if wp_ret intro!: wp_bnd_any Suc.IH)
  have "work (rtc (fst s)) \<le> k" using assms by (simp add: drains_def less_imp_le)
  then have "wp (drain_output sys lib fl []) (few k) s"
    by (intro wp_mono [OF drain_output_few [OF assms]]) (auto simp: few_def)
  then show ?case
    unfolding poll_loop.simps wp_bnd [of "drain_output sys lib fl []"]
    by (rule wp_mono) (auto simp: after_def wp_ret rest split: res.splits)
qed (simp add: wp_hang)

lemma peer_poll_few:
  assumes "drains lib work k"
  shows "wp (peer_poll sys lib fl d) (few k) s"
  unfolding peer_poll_def by (intro wp_bnd_any poll_loop_few [OF assms]) simp_all

lemma event_data_length: "length (event_data es) \<le> length es"
  by (induction es rule: event_data.induct) auto

section \<open>The backlog of a channel\<close>

text \<open>The messages that wait and those that can still arrive before the deadline.\<close>

definition backlog :: "('w \<Rightarrow> nat) \<Rightarrow> nat \<Rightarrow> instant \<Rightarrow> 'rtc channel \<times> 'w \<Rightarrow> nat" where
  "backlog clk k deadline s = length (pending (fst s)) + k * (deadline - clk (snd s))"

fun brings :: "('x, next_msg) res \<Rightarrow> nat" where
  "brings (Ok (NMsg m)) = 1"
| "brings (Ok NMalformed) = 1"
| "brings _ = 0"

text \<open>A poll after a reading of the clock: what it brings is paid for by the time.\<close>

lemma backlog_poll:
  assumes "clk (snd s) < clk (snd s')" "clk (snd s) < deadline" "clk (snd s') \<le> clk (snd u)"
    and "length (pending (fst u)) \<le> length (pending (fst s)) + k"
  shows "backlog clk k deadline u \<le> backlog clk k deadline s"
proof -
  have "deadline - clk (snd u) + 1 \<le> deadline - clk (snd s)" using assms(1-3) by linarith
  from mult_le_mono2 [OF this, of k] assms(4) show ?thesis by (simp add: backlog_def)
qed

lemma backlog_later:
  "clk (snd s) \<le> clk (snd u) \<Longrightarrow> pending (fst u) = pending (fst s) \<Longrightarrow>
     backlog clk k deadline u \<le> backlog clk k deadline s"
  by (simp add: backlog_def diff_le_mono2)

lemma backlog_pop:
  "pending (fst s) = d # ds \<Longrightarrow> Suc (backlog clk k deadline ((fst s)\<lparr>pending := ds\<rparr>, snd s)) = backlog clk k deadline s"
  by (simp add: backlog_def)

text \<open>One round of the two waits.\<close>

lemma poll_round:
  fixes s s' :: "'rtc channel \<times> 'w" and lib :: "('rtc, 'p) rtc_lib"
    and Q :: "(transport_error, 'a) res \<Rightarrow> 'rtc channel \<times> 'w \<Rightarrow> bool"
  assumes "os_ok clk sys" "drains lib work k" "k \<le> fl" "d < fl"
    and "clk (snd s) < clk (snd s')" "clk (snd s) < deadline" "fst s' = fst s"
    and again: "\<And>es u. clk (snd s) < clk (snd u) \<Longrightarrow> backlog clk k deadline u \<le> backlog clk k deadline s \<Longrightarrow>
        wp (f (PChannelOpen \<in> set es)) Q u"
    and fails: "\<And>r u. r \<noteq> Hang \<Longrightarrow> clk (snd s) < clk (snd u) \<Longrightarrow> backlog clk k deadline u \<le> backlog clk k deadline s \<Longrightarrow>
        \<forall>a. r \<noteq> Ok a \<Longrightarrow> Q r u"
  shows "wp (bnd (on_peer (peer_poll sys lib fl d)) (\<lambda>events. bnd (ch_absorb events) f)) Q s'"
  unfolding wp_bnd [of "on_peer _"] wp_on_peer
proof (rule wp_mono [OF wp_conj [OF peer_poll_few [OF assms(2)]
      tame_poll [OF assms(1-4), unfolded tame_def, rule_format]]])
  fix r :: "(transport_error, peer_event list) res" and u :: "'rtc peer \<times> 'w"
  assume r: "few k r u \<and> r \<noteq> Hang \<and> clk (snd (ch_peer (fst s'), snd s')) \<le> clk (snd u)"
  have quiet: "backlog clk k deadline ((fst s')\<lparr>ch_peer := fst u\<rparr>, snd u) \<le> backlog clk k deadline s"
    by (rule backlog_later) (use r assms(5,7) in auto)
  show "after (\<lambda>a. wp (bnd (ch_absorb a) f) Q) (\<lambda>x. Q (Err x)) Q r
      ((fst s')\<lparr>ch_peer := fst u\<rparr>, snd u)"
  proof (cases r)
    case (Ok es)
    have "backlog clk k deadline ((fst s')\<lparr>ch_peer := fst u, pending := pending (fst s') @ event_data es,
        remote_closed := remote_closed (fst s') \<or> PClosed \<in> set es\<rparr>, snd u) \<le> backlog clk k deadline s"
      by (rule backlog_poll [OF assms(5,6)]) (use r Ok assms(7) event_data_length [of es] in auto)
    then show ?thesis
      using Ok r assms(5) by (auto simp: wp_bnd wp_ch_absorb intro!: again)
  qed (use r assms(5) quiet in \<open>auto intro!: fails\<close>)
qed

lemma channel_next_backlog:
  fixes s :: "'rtc channel \<times> 'w"
  assumes "os_ok clk sys" "drains lib work k" "k \<le> fl" "0 < n" "n \<le> fl" "deadline < clk (snd s) + n"
    and "deadline \<le> D"
  shows "wp (channel_next sys lib wr fl n deadline)
    (\<lambda>r s'. r \<noteq> Hang \<and> clk (snd s) \<le> clk (snd s') \<and>
       backlog clk k D s' + brings r \<le> backlog clk k D s) s"
  using assms(4-6)
proof (induction n arbitrary: s)
  case (Suc n)
  note os = os_okD(1) [OF assms(1)]
  let ?Q = "\<lambda>r s'. r \<noteq> Hang \<and> clk (snd s) \<le> clk (snd s') \<and>
       backlog clk k D s' + brings r \<le> backlog clk k D s"
  have t: "t = clk (snd s)" "clk (snd s) < clk w" if "os_now sys (snd s) = (t, w)" for t w
    using tickingD [OF os that] by auto
  have poll: "wp (bnd (on_peer (peer_poll sys lib fl (deadline - t)))
      (\<lambda>events. bnd (ch_absorb events) (\<lambda>_. channel_next sys lib wr fl n deadline))) ?Q (fst s, w)"
    if w: "os_now sys (snd s) = (t, w)" "\<not> deadline \<le> t" for t w
    using t [OF w(1)] w(2)
  proof (intro poll_round [where s = s, OF assms(1-3)])
    fix u :: "'rtc channel \<times> 'w" assume u: "clk (snd s) < clk (snd u)"
      "backlog clk k D u \<le> backlog clk k D s"
    from Suc.prems t [OF w(1)] w(2) u(1) have "0 < n" "n \<le> fl" "deadline < clk (snd u) + n" by linarith+
    from Suc.IH [OF this] show "wp (channel_next sys lib wr fl n deadline) ?Q u"
      by (rule wp_mono) (use u in auto)
  next
    fix r :: "(transport_error, next_msg) res" and u :: "'rtc channel \<times> 'w"
    assume "r \<noteq> Hang" "clk (snd s) < clk (snd u)" "backlog clk k D u \<le> backlog clk k D s"
      "\<forall>a. r \<noteq> Ok a"
    then show "?Q r u" by (cases r) auto
  qed (use Suc.prems assms(7) in auto)
  have front: "brings (Ok (case v of Inl _ \<Rightarrow> NMalformed | Inr msg \<Rightarrow> NMsg msg)) = 1" for v :: "decode_error + control"
    by (cases v) auto
  show ?case
    unfolding channel_next.simps wp_bnd [of ch_pop] wp_ch_pop
    by (auto simp: wp_ret wp_gets wp_bnd [of "gets _"] wp_bnd [of "on_snd (now sys)"] wp_on_snd wp_now front
        backlog_pop backlog_later less_imp_le split: list.splits prod.splits dest: t intro!: poll)
qed simp
lemma channel_wait_open_backlog:
  fixes s :: "'rtc channel \<times> 'w"
  assumes "os_ok clk sys" "drains lib work k" "k \<le> fl" "0 < n" "n \<le> fl" "deadline < clk (snd s) + n"
    and "deadline \<le> D"
  shows "wp (channel_wait_open sys lib fl n deadline)
    (\<lambda>r s'. r \<noteq> Hang \<and> clk (snd s) \<le> clk (snd s') \<and> backlog clk k D s' \<le> backlog clk k D s) s"
  using assms(4-6)
proof (induction n arbitrary: s)
  case (Suc n)
  note os = os_okD(1) [OF assms(1)]
  let ?Q = "\<lambda>r s'. r \<noteq> Hang \<and> clk (snd s) \<le> clk (snd s') \<and> backlog clk k D s' \<le> backlog clk k D s"
  have t: "t = clk (snd s)" "clk (snd s) < clk w" if "os_now sys (snd s) = (t, w)" for t w
    using tickingD [OF os that] by auto
  have poll: "wp (bnd (on_peer (peer_poll sys lib fl (deadline - t))) (\<lambda>events. bnd (ch_absorb events)
      (\<lambda>opened. if opened then ret Ready else channel_wait_open sys lib fl n deadline))) ?Q (fst s, w)"
    if w: "os_now sys (snd s) = (t, w)" "\<not> deadline \<le> t" for t w
    using t [OF w(1)] w(2)
  proof (intro poll_round [where s = s, OF assms(1-3)])
    fix es :: "peer_event list" and u :: "'rtc channel \<times> 'w" assume u: "clk (snd s) < clk (snd u)"
      "backlog clk k D u \<le> backlog clk k D s"
    from Suc.prems t [OF w(1)] w(2) u(1) have "0 < n" "n \<le> fl" "deadline < clk (snd u) + n" by linarith+
    from wp_mono [OF Suc.IH [OF this], of ?Q] u
    show "wp (if PChannelOpen \<in> set es then ret Ready else channel_wait_open sys lib fl n deadline) ?Q u"
      by (auto simp: wp_ret)
  qed (use Suc.prems assms(7) in auto)
  show ?case
    unfolding channel_wait_open.simps
    by (auto simp: wp_ret wp_gets wp_bnd [of "gets _"] wp_bnd [of "on_snd (now sys)"] wp_on_snd wp_now
        backlog_later less_imp_le split: prod.splits dest: t intro!: poll)
qed simp

section \<open>Surroundings that keep time\<close>

text \<open>\<open>T\<close> is the longest time the flow waits for a message of the link; whatever link is used has to
  return from \<open>recv\<close> for it.\<close>

definition punctual ::
  "('w \<Rightarrow> nat) \<Rightarrow> ('rtc \<Rightarrow> nat) \<Rightarrow> nat \<Rightarrow> duration \<Rightarrow>
   ('i, 'o, 'w, 'rtc, 'p, 'k, 'st, 'out, 'sk, 'xk, 'rnd) libs \<Rightarrow> bool"
where
  "punctual clk work k T L \<longleftrightarrow>
     os_ok clk (l_os L) \<and> drains (l_rtc L) work k \<and> k \<le> l_fuel L \<and> 0 < l_fuel L \<and>
     (\<forall>a. keeps clk (udp_bind (l_os L) a)) \<and> (\<forall>h. keeps clk (udp_nonblocking (l_os L) h)) \<and>
     (\<forall>h. keeps clk (udp_local_addr (l_os L) h)) \<and> keeps clk (l_rng L) \<and> keeps clk (l_drop L) \<and>
     (\<forall>m. tame clk (l_send L m)) \<and> (\<forall>d\<le>T. tame clk (l_recv L d))"

lemma punctualD:
  assumes "punctual clk work k T L"
  shows "os_ok clk (l_os L)" "drains (l_rtc L) work k" "k \<le> l_fuel L" "0 < l_fuel L"
    "keeps clk (udp_bind (l_os L) a)" "keeps clk (udp_nonblocking (l_os L) h)"
    "keeps clk (udp_local_addr (l_os L) h)" "keeps clk (l_rng L)" "keeps clk (l_drop L)"
    "tame clk (l_send L m)" "d \<le> T \<Longrightarrow> tame clk (l_recv L d)" "ticking clk (l_os L)"
  using assms os_okD(1) by (auto simp: punctual_def)

abbreviation run_clock :: "('w \<Rightarrow> nat) \<Rightarrow> ('i, 'o, 'w, 'm) run_scheme \<Rightarrow> nat" where
  "run_clock clk \<equiv> \<lambda>s. clk (world s)"

abbreviation crun_clock :: "('w \<Rightarrow> nat) \<Rightarrow> 'rtc channel \<times> ('i, 'o, 'w, 'm) run_scheme \<Rightarrow> nat" where
  "crun_clock clk \<equiv> \<lambda>s. clk (world (snd s))"

lemma tame_in_world [tame_intros]: "tame clk m \<Longrightarrow> tame (run_clock clk) (in_world m)"
  by (auto simp: tame_def wp_in_world)

lemma tame_record [tame_intros]: "tame (run_clock clk) (record_event e)"
  by (simp add: tame_def wp_record_event)

lemma tame_noting [tame_intros]: "tame (run_clock clk) m \<Longrightarrow> tame (run_clock clk) (noting f g m)"
  unfolding noting_def by (intro tame_intros)

lemma tame_on_chan [tame_intros]: "tame (chan_clock clk) m \<Longrightarrow> tame (crun_clock clk) (on_chan m)"
  by (auto simp: tame_def wp_on_chan elim!: wp_mono dest!: spec)

lemma tame_run_local [tame_intros]: "fst (m t) \<noteq> Hang \<Longrightarrow> tame clk (run_local t m)"
  by (simp add: tame_def wp_run_local)

lemma tame_run_on_snd [tame_intros]: "tame (run_clock clk) m \<Longrightarrow> tame (crun_clock clk) (on_snd m)"
  by (simp add: tame_def wp_on_snd)

lemma tame_peer_new:
  assumes "punctual clk work k T L"
  shows "tame clk (peer_new (l_os L) (l_rtc L) ips)"
proof -
  note p = punctualD [OF assms]
  have "tame clk (add_ips (l_os L) (l_rtc L) l q)" for l q
    by (induction l arbitrary: q) (auto intro!: tame_intros p)
  then show ?thesis by (auto simp: peer_new_def intro!: tame_intros p)
qed

lemma tame_create_offer [tame_intros]: "tame (peer_clock clk) (peer_create_offer lib)"
  by (auto simp: tame_def wp_def peer_create_offer_def split: option.splits prod.splits)

lemma tame_peer_steps [tame_intros]:
  "tame (peer_clock clk) (peer_accept_offer lib sdp)" "tame (peer_clock clk) (peer_accept_answer lib pend sdp)"
  "tame (peer_clock clk) (peer_send lib bs)" "tame (peer_clock clk) (peer_close lib)"
  "tame (peer_clock clk) (peer_local_fp lib)" "tame (peer_clock clk) (peer_remote_fp lib)"
  unfolding peer_accept_offer_def peer_accept_answer_def peer_send_def peer_local_fp_def peer_remote_fp_def
    peer_close_def
  by (auto intro!: tame_intros split: option.splits)

lemma tame_encoders [tame_intros]: "tame clk (pake_encode w m)" "tame clk (control_encode w c)"
  by (auto simp: pake_encode_def control_encode_def intro!: tame_intros)

lemma tame_pake [tame_intros]:
  "tame clk (viewer_start sp code hid rnd)" "tame clk (viewer_finish sp st pb mac)"
  "tame clk (host_respond sp code hid pa rnd)" "tame clk (host_confirm sp out mac)"
  unfolding viewer_start_def viewer_finish_def host_respond_def host_confirm_def derive_session_keys_def
  by (auto intro!: tame_intros split: option.splits)

lemma sealing_returns [simp]:
  "fst (infallible (seal a m) t) \<noteq> Hang" "fst (attempt_ok (open_sealed a m) u) \<noteq> Hang"
  by (auto simp: infallible_def attempt_ok_def run_simps seal_def open_sealed_def Let_def panic_def
      split: option.splits prod.splits res.splits)

section \<open>The steps of a flow\<close>

lemma tame_flow_steps:
  fixes clk :: "'w \<Rightarrow> nat" and L :: "('i, 'o, 'w, 'rtc, 'p, 'k, 'st, 'out, 'sk, 'xk, 'rnd) libs"
  assumes "punctual clk work k T L"
  shows "tame (run_clock clk) (get_now L)" "tame (run_clock clk) (link_send L m)"
    "d \<le> T \<Longrightarrow> tame (run_clock clk) (link_recv L d)" "tame (run_clock clk) (drop_link L)"
    "tame (crun_clock clk) (c_send L msg)" "tame (run_clock clk) (in_world (ext_total (l_rng L)))"
    "tame (run_clock clk) (in_world (peer_new (l_os L) (l_rtc L) ips))"
  unfolding get_now_def link_send_def link_recv_def drop_link_def c_send_def noting_c_def channel_send_def
  by (intro tame_intros punctualD [OF assms] tame_peer_new [OF assms]; assumption)+

lemma tame_channel_close:
  assumes "punctual clk work k T L"
  shows "tame (chan_clock clk) (channel_close (l_os L) (l_rtc L) (l_fuel L))"
proof -
  note p = punctualD [OF assms]
  show ?thesis
    unfolding channel_close_def
    by (auto intro!: tame_intros tame_modify tame_poll [OF p(1-4)])
qed

lemma tame_drop_channel:
  assumes "punctual clk work k T L"
  shows "tame (run_clock clk) (drop_channel L c)"
proof -
  from tame_channel_close [OF assms]
  have "tame clk (\<lambda>w. case channel_close (l_os L) (l_rtc L) (l_fuel L) (c, w) of (r, c', w') \<Rightarrow> (r, w'))"
    unfolding tame_def wp_def by (fastforce split: prod.splits)
  then show ?thesis
    unfolding drop_channel_def channel_drop_def by (intro tame_intros)
qed

lemma tame_at_scoped_keeping:
  fixes s :: "('i, 'o, 'w, 'm) run_scheme" and f :: "'b \<Rightarrow> 'rtc channel \<Rightarrow> (('i, 'o, 'w, 'm) run_scheme, 'x, 'a) prog"
  assumes "punctual clk work k T L"
    and "tame_at (crun_clock clk) body (ch, s)" "wp body (\<lambda>_ t. K (fst t)) (ch, s)"
    and "\<And>b c s'. clk (world s) \<le> clk (world s') \<Longrightarrow> K c \<Longrightarrow> tame_at (run_clock clk) (f b c) s'"
  shows "tame_at (run_clock clk) (scoped L ch body f) s"
proof -
  have drop: "wp (bnd (drop_channel L c) (\<lambda>_. m)) (\<lambda>r u. r \<noteq> Hang \<and> clk (world s) \<le> clk (world u)) s'"
    if "clk (world s) \<le> clk (world s')" "tame (run_clock clk) m"
    for c and m :: "(('i, 'o, 'w, 'm) run_scheme, 'x, 'a) prog" and s' :: "('i, 'o, 'w, 'm) run_scheme"
    by (rule tame_at_weaken [where s = s and clk = "run_clock clk"])
      (intro tame_at tame_bnd tame_drop_channel [OF assms(1)] that)+
  show ?thesis
    unfolding tame_at_def wp_scoped
    by (rule wp_mono [OF wp_conj [OF assms(2) [unfolded tame_at_def] assms(3)]])
      (auto intro!: drop tame_intros tame_at_weaken [OF assms(4)] split: res.splits sum.splits)
qed

lemmas tame_at_scoped = tame_at_scoped_keeping [where K = "\<lambda>_. True", OF _ _ wp_any [OF TrueI]]

lemma tame_at_owning:
  assumes "punctual clk work k T L" "tame_at (run_clock clk) m s"
  shows "tame_at (run_clock clk) (owning_link L m) s"
  unfolding owning_link_def
  by (intro tame_at_handle assms(2) tame_at [OF tame_bnd] tame_flow_steps [OF assms(1)] tame_intros)

text \<open>A deadline that is read off the clock.\<close>

lemma tame_at_get_now:
  assumes "punctual clk work k T L"
    and "\<And>s'. clk (world (snd s)) < clk (world (snd s')) \<Longrightarrow> fst s' = fst s \<Longrightarrow>
       tame_at (crun_clock clk) (f (clk (world (snd s)))) s'"
  shows "tame_at (crun_clock clk) (bnd (on_snd (get_now L)) f) s"
proof (cases "os_now (l_os L) (world (snd s))")
  case (Pair t w)
  from tickingD [OF punctualD(12) [OF assms(1)] Pair] have t: "t = clk (world (snd s))" "clk (world (snd s)) < clk w"
    by auto
  then show ?thesis
    using assms(2) [of "(fst s, (snd s)\<lparr>world := w\<rparr>)"] Pair
    by (auto simp: tame_at_def wp_bnd wp_on_snd get_now_def wp_in_world wp_now elim!: wp_mono)
qed

section \<open>Waiting on the channel of a flow\<close>

definition waiting :: "'rtc channel \<times> 'u \<Rightarrow> nat" where
  "waiting t = length (pending (fst t))"

definition run_backlog ::
  "('w \<Rightarrow> nat) \<Rightarrow> nat \<Rightarrow> instant \<Rightarrow> 'rtc channel \<times> ('i, 'o, 'w, 'm) run_scheme \<Rightarrow> nat"
where
  "run_backlog clk k D t = backlog clk k D (fst t, world (snd t))"

lemma c_next_backlog:
  assumes "punctual clk work k T L" "deadline < clk (world (snd s)) + l_fuel L" "deadline \<le> D"
  shows "wp (c_next L deadline) (\<lambda>r s'. r \<noteq> Hang \<and> clk (world (snd s)) \<le> clk (world (snd s')) \<and>
     run_backlog clk k D s' + brings r \<le> run_backlog clk k D s) s"
proof -
  note p = punctualD [OF assms(1)]
  show ?thesis
    unfolding c_next_def noting_c_def wp_handle wp_on_chan
    by (rule wp_mono [OF channel_next_backlog [OF p(1-4) order_refl _ assms(3)]])
      (use assms(2) in \<open>auto simp: run_backlog_def wp_rules after_def split: res.splits\<close>)
qed

lemma c_wait_open_backlog:
  assumes "punctual clk work k T L" "deadline < clk (world (snd s)) + l_fuel L" "deadline \<le> D"
  shows "wp (c_wait_open L deadline) (\<lambda>r s'. r \<noteq> Hang \<and> clk (world (snd s)) \<le> clk (world (snd s')) \<and>
     run_backlog clk k D s' \<le> run_backlog clk k D s) s"
proof -
  note p = punctualD [OF assms(1)]
  show ?thesis
    unfolding c_wait_open_def noting_c_def wp_handle wp_on_chan
    by (rule wp_mono [OF channel_wait_open_backlog [OF p(1-4) order_refl _ assms(3)]])
      (use assms(2) in \<open>auto simp: run_backlog_def wp_rules after_def split: res.splits\<close>)
qed

text \<open>The effort of a step: it returns, and leaves at most \<open>B\<close> more messages waiting.\<close>

definition effort ::
  "('w \<Rightarrow> nat) \<Rightarrow> nat \<Rightarrow> ('rtc channel \<times> ('i, 'o, 'w, 'm) run_scheme, 'x, 'a) prog \<Rightarrow>
   'rtc channel \<times> ('i, 'o, 'w, 'm) run_scheme \<Rightarrow> bool"
where
  "effort clk B m s \<longleftrightarrow>
     wp m (\<lambda>r s'. r \<noteq> Hang \<and> clk (world (snd s)) \<le> clk (world (snd s')) \<and> waiting s' \<le> waiting s + B) s"

lemma effort_tame: "effort clk B m s \<Longrightarrow> tame_at (crun_clock clk) m s"
  unfolding effort_def tame_at_def by (erule wp_mono) simp

lemma tame_at_after_effort:
  fixes m :: "('rtc channel \<times> ('i, 'o, 'w, 'm) run_scheme, 'x, 'a) prog"
  assumes "effort clk B m s"
    "\<And>a s'. clk (world (snd s)) \<le> clk (world (snd s')) \<Longrightarrow> waiting s' \<le> waiting s + B \<Longrightarrow> tame_at (crun_clock clk) (f a) s'"
    "\<And>x s'. clk (world (snd s)) \<le> clk (world (snd s')) \<Longrightarrow> tame_at (crun_clock clk) (g x) s'"
  shows "tame_at (crun_clock clk) (handle m f g) s"
proof -
  have "after (\<lambda>a. wp (f a) (\<lambda>r u. r \<noteq> Hang \<and> clk (world (snd s)) \<le> clk (world (snd u))))
      (\<lambda>x. wp (g x) (\<lambda>r u. r \<noteq> Hang \<and> clk (world (snd s)) \<le> clk (world (snd u))))
      (\<lambda>r u. r \<noteq> Hang \<and> clk (world (snd s)) \<le> clk (world (snd u))) r s'"
    if "r \<noteq> Hang \<and> clk (world (snd s)) \<le> clk (world (snd s')) \<and> waiting s' \<le> waiting s + B"
    for r :: "('x, 'a) res" and s'
    using that by (cases r) (auto intro: tame_at_weaken assms(2,3))
  with assms(1) show ?thesis
    unfolding tame_at_def effort_def wp_handle by (rule wp_mono)
qed

lemma tame_at_after_effort_bnd:
  "effort clk B m s \<Longrightarrow>
   (\<And>a s'. clk (world (snd s)) \<le> clk (world (snd s')) \<Longrightarrow> waiting s' \<le> waiting s + B \<Longrightarrow>
      tame_at (crun_clock clk) (f a) s') \<Longrightarrow> tame_at (crun_clock clk) (bnd m f) s"
  unfolding bnd_def by (erule tame_at_after_effort) (auto intro: tame_at [OF tame_fail])

text \<open>The waits with a deadline \<open>d\<close> ahead.\<close>

lemma backlog_waiting:
  "waiting s \<le> run_backlog clk k D s"
  "D \<le> clk (world (snd s)) + d \<Longrightarrow> run_backlog clk k D s \<le> waiting s + k * d"
  by (auto simp: waiting_def run_backlog_def backlog_def)

lemma c_waits_effort:
  assumes "punctual clk work k T L" "deadline \<le> clk (world (snd s)) + d" "d < l_fuel L"
  shows "effort clk (k * d) (c_next L deadline) s" "effort clk (k * d) (c_wait_open L deadline) s"
proof -
  have dl: "deadline < clk (world (snd s)) + l_fuel L" using assms(2,3) by linarith
  have b: "run_backlog clk k deadline s' + n \<le> run_backlog clk k deadline s \<Longrightarrow> waiting s' \<le> waiting s + k * d" for s' n
    using backlog_waiting(1) [of s' clk k deadline] backlog_waiting(2) [where s = s and D = deadline and d = d and k = k and clk = clk, OF assms(2)]
    by linarith
  show "effort clk (k * d) (c_next L deadline) s" "effort clk (k * d) (c_wait_open L deadline) s"
    unfolding effort_def
    by (rule wp_mono [OF c_next_backlog [OF assms(1) dl order_refl]], use b in auto)
      (rule wp_mono [OF c_wait_open_backlog [OF assms(1) dl order_refl]], use b [of _ 0] in auto)
qed

lemma c_waits_tame:
  assumes "punctual clk work k T L" "deadline < clk (world (snd s)) + l_fuel L"
  shows "tame_at (crun_clock clk) (c_next L deadline) s" "tame_at (crun_clock clk) (c_wait_open L deadline) s"
  unfolding tame_at_def
  by (rule wp_mono [OF c_next_backlog [OF assms order_refl]], simp)
    (rule wp_mono [OF c_wait_open_backlog [OF assms order_refl]], simp)

text \<open>A loop over \<open>c_next\<close> with one deadline: a message is paid for by the backlog.\<close>

lemma tame_at_c_next:
  fixes s :: "'rtc channel \<times> ('i, 'o, 'w, 'm) run_scheme"
  assumes "punctual clk work k T L" "deadline < clk (world (snd s)) + l_fuel L"
    and "\<And>v s'. clk (world (snd s)) \<le> clk (world (snd s')) \<Longrightarrow>
       run_backlog clk k deadline s' + brings (Ok v :: (transport_error, next_msg) res) \<le> run_backlog clk k deadline s \<Longrightarrow>
       tame_at (crun_clock clk) (f v) s'"
    and "\<And>x s'. clk (world (snd s)) \<le> clk (world (snd s')) \<Longrightarrow> tame_at (crun_clock clk) (g x) s'"
  shows "tame_at (crun_clock clk) (handle (c_next L deadline) f g) s"
proof -
  have "after (\<lambda>a. wp (f a) (\<lambda>r u. r \<noteq> Hang \<and> clk (world (snd s)) \<le> clk (world (snd u))))
      (\<lambda>x. wp (g x) (\<lambda>r u. r \<noteq> Hang \<and> clk (world (snd s)) \<le> clk (world (snd u))))
      (\<lambda>r u. r \<noteq> Hang \<and> clk (world (snd s)) \<le> clk (world (snd u))) r s'"
    if "r \<noteq> Hang \<and> clk (world (snd s)) \<le> clk (world (snd s')) \<and>
      run_backlog clk k deadline s' + brings r \<le> run_backlog clk k deadline s"
    for r :: "(transport_error, next_msg) res" and s' :: "'rtc channel \<times> ('i, 'o, 'w, 'm) run_scheme"
    using that by (cases r) (auto intro: tame_at_weaken assms(3,4))
  with c_next_backlog [OF assms(1,2) order_refl] show ?thesis
    unfolding tame_at_def wp_handle by (rule wp_mono)
qed

text \<open>Steps that leave the channel as it is, and steps that are paid for by the backlog.\<close>

definition pays ::
  "('w \<Rightarrow> nat) \<Rightarrow> nat \<Rightarrow> instant \<Rightarrow> ('rtc channel \<times> ('i, 'o, 'w, 'm) run_scheme, 'x, 'a) prog \<Rightarrow>
   'rtc channel \<times> ('i, 'o, 'w, 'm) run_scheme \<Rightarrow> bool"
where
  "pays clk k D m s \<longleftrightarrow>
     wp m (\<lambda>r s'. r \<noteq> Hang \<and> clk (world (snd s)) \<le> clk (world (snd s')) \<and>
       run_backlog clk k D s' \<le> run_backlog clk k D s) s"

lemma pays_ret: "pays clk k D (ret a) s"
  by (simp add: pays_def wp_ret)

lemma pays_later:
  assumes "pays clk k D m s'" "clk (world (snd s)) \<le> clk (world (snd s'))"
    "run_backlog clk k D s' \<le> run_backlog clk k D s"
  shows "wp m (\<lambda>r u. r \<noteq> Hang \<and> clk (world (snd s)) \<le> clk (world (snd u)) \<and>
     run_backlog clk k D u \<le> run_backlog clk k D s) s'"
  using assms(1) unfolding pays_def by (rule wp_mono) (use assms(2,3) in auto)

lemma pays_handle:
  fixes m :: "('rtc channel \<times> ('i, 'o, 'w, 'm) run_scheme, 'x, 'a) prog"
  assumes "pays clk k D m s"
    and "\<And>a s'. clk (world (snd s)) \<le> clk (world (snd s')) \<Longrightarrow> run_backlog clk k D s' \<le> run_backlog clk k D s \<Longrightarrow>
       pays clk k D (f a) s'"
    and "\<And>x s'. clk (world (snd s)) \<le> clk (world (snd s')) \<Longrightarrow> run_backlog clk k D s' \<le> run_backlog clk k D s \<Longrightarrow>
       pays clk k D (g x) s'"
  shows "pays clk k D (handle m f g) s"
proof -
  let ?Q = "\<lambda>s r u. r \<noteq> Hang \<and> clk (world (snd s)) \<le> clk (world (snd u)) \<and> run_backlog clk k D u \<le> run_backlog clk k D s"
  have "after (\<lambda>a. wp (f a) (?Q s)) (\<lambda>x. wp (g x) (?Q s)) (?Q s) r s'" if "?Q s r s'" for r :: "('x, 'a) res" and s'
    using that by (cases r) (auto intro: pays_later assms(2,3))
  with assms(1) show ?thesis
    unfolding pays_def wp_handle by (rule wp_mono)
qed

lemma pays_bnd:
  "pays clk k D m s \<Longrightarrow>
   (\<And>a s'. clk (world (snd s)) \<le> clk (world (snd s')) \<Longrightarrow> run_backlog clk k D s' \<le> run_backlog clk k D s \<Longrightarrow>
      pays clk k D (f a) s') \<Longrightarrow> pays clk k D (bnd m f) s"
  unfolding bnd_def by (erule pays_handle) (auto simp: pays_def wp_fail)

lemma pays_on_snd:
  assumes "tame (run_clock clk) m"
  shows "pays clk k D (on_snd m) s"
  unfolding pays_def wp_on_snd
  by (rule wp_tame [OF assms]) (auto simp: run_backlog_def intro!: backlog_later)

lemma pays_get_now:
  assumes "punctual clk work k T L"
    and "\<And>s'. clk (world (snd s)) < clk (world (snd s')) \<Longrightarrow> run_backlog clk k D s' \<le> run_backlog clk k D s \<Longrightarrow>
       pays clk k D (f (clk (world (snd s)))) s'"
  shows "pays clk k D (bnd (on_snd (get_now L)) f) s"
proof (cases "os_now (l_os L) (world (snd s))")
  case (Pair t w)
  from tickingD [OF punctualD(12) [OF assms(1)] Pair] have t: "t = clk (world (snd s))" "clk (world (snd s)) < clk w"
    by auto
  let ?s' = "(fst s, (snd s)\<lparr>world := w\<rparr>)"
  have b: "run_backlog clk k D ?s' \<le> run_backlog clk k D s"
    using t by (auto simp: run_backlog_def intro!: backlog_later)
  show ?thesis
    using assms(2) [of ?s'] b t Pair
    by (auto simp: pays_def wp_bnd wp_on_snd get_now_def wp_in_world wp_now elim!: wp_mono)
qed

lemma pays_c_next:
  assumes "punctual clk work k T L" "deadline < clk (world (snd s)) + l_fuel L" "deadline \<le> D"
  shows "pays clk k D (c_next L deadline) s"
  unfolding pays_def by (rule wp_mono [OF c_next_backlog [OF assms]]) simp

lemma pays_effort:
  assumes "pays clk k D m s" "D \<le> clk (world (snd s)) + d"
  shows "effort clk (k * d) m s"
  using assms(1) unfolding pays_def effort_def
proof (rule wp_mono)
  fix r s'
  assume "r \<noteq> Hang \<and> clk (world (snd s)) \<le> clk (world (snd s')) \<and> run_backlog clk k D s' \<le> run_backlog clk k D s"
  then show "r \<noteq> Hang \<and> clk (world (snd s)) \<le> clk (world (snd s')) \<and> waiting s' \<le> waiting s + k * d"
    using backlog_waiting(1) [of s' clk k D] backlog_waiting(2) [where s = s and D = D and d = d and k = k and clk = clk, OF assms(2)]
    by linarith
qed

lemma preserves_pending:
  "preserves (\<lambda>t. pending (fst t) = p) (on_peer m)" "preserves I (expect v)"
  "preserves (\<lambda>t. pending (fst t) = p) (on_snd n)" "preserves I (run_local u l)"
  by (rule preservesI, auto simp: wp_on_peer intro: wp_any)
    (cases v, auto intro!: preservesI simp: wp_rules intro: wp_any)

lemma preserves_pending_on_chan:
  assumes "preserves (\<lambda>t. pending (fst t) = p) m"
  shows "preserves (\<lambda>t. pending (fst t) = p) (on_chan m)"
  by (rule preservesI) (auto simp: wp_on_chan intro: wp_mono [OF preserves_wp [OF assms]])

lemma c_send_effort:
  fixes L :: "('i, 'o, 'w, 'rtc, 'p, 'k, 'st, 'out, 'sk, 'xk, 'rnd) libs"
  assumes "punctual clk work k T L"
  shows "effort clk 0 (c_send L msg) s"
proof -
  have "preserves (\<lambda>t. pending (fst t) = p) (channel_send (l_rtc L) (l_wire L) msg :: ('rtc channel \<times> 'w, _, _) prog)" for p
    unfolding channel_send_def control_encode_def by (intro preserves_intros preserves_pending)
  then have "wp (c_send L msg) (\<lambda>_ s'. waiting s' = waiting s) s"
    unfolding c_send_def noting_c_def wp_handle wp_on_chan
    by (intro wp_mono [OF preserves_wp [of "\<lambda>t. pending (fst t) = pending (fst s)"]])
      (auto simp: waiting_def wp_rules after_def split: res.splits)
  from wp_conj [OF this tame_flow_steps(5) [OF assms, unfolded tame_def, rule_format]] show ?thesis
    unfolding effort_def by (rule wp_mono) simp
qed

section \<open>Sums of efforts\<close>

lemma effort_later:
  assumes "effort clk B' m s'" "clk (world (snd s)) \<le> clk (world (snd s'))" "waiting s' + B' \<le> waiting s + B"
  shows "wp m (\<lambda>r u. r \<noteq> Hang \<and> clk (world (snd s)) \<le> clk (world (snd u)) \<and> waiting u \<le> waiting s + B) s'"
  using assms(1) unfolding effort_def by (rule wp_mono) (use assms(2,3) in auto)

lemma effort_mono: "effort clk B m s \<Longrightarrow> B \<le> C \<Longrightarrow> effort clk C m s"
  unfolding effort_def by (erule wp_mono) auto

lemma effort_quiet:
  assumes "tame (crun_clock clk) m" "\<And>p. preserves (\<lambda>t. pending (fst t) = p) m"
  shows "effort clk B m s"
  using wp_conj [OF preserves_wp [OF assms(2) refl] assms(1) [unfolded tame_def, rule_format]]
  unfolding effort_def by (rule wp_mono) (simp add: waiting_def)

lemma effort_ret: "effort clk B (ret a) s" "effort clk B (fail x) s" "effort clk B (lift_sum v) s"
  by (auto simp: effort_def wp_rules split: sum.splits)

lemma effort_on_snd: "tame (run_clock clk) m \<Longrightarrow> effort clk B (on_snd m) s"
  by (auto simp: effort_def tame_def wp_on_snd waiting_def elim!: wp_mono dest!: spec)

lemma effort_handle:
  fixes m :: "('rtc channel \<times> ('i, 'o, 'w, 'm) run_scheme, 'x, 'a) prog"
  assumes "effort clk B m s" "B + C \<le> D"
    "\<And>a s'. clk (world (snd s)) \<le> clk (world (snd s')) \<Longrightarrow> waiting s' \<le> waiting s + B \<Longrightarrow> effort clk C (f a) s'"
    "\<And>x s'. clk (world (snd s)) \<le> clk (world (snd s')) \<Longrightarrow> waiting s' \<le> waiting s + B \<Longrightarrow> effort clk C (g x) s'"
  shows "effort clk D (handle m f g) s"
proof -
  let ?Q = "\<lambda>D r u. r \<noteq> Hang \<and> clk (world (snd s)) \<le> clk (world (snd u)) \<and> waiting u \<le> waiting s + D"
  have "after (\<lambda>a. wp (f a) (?Q D)) (\<lambda>x. wp (g x) (?Q D)) (?Q D) r s'" if "?Q B r s'" for r :: "('x, 'a) res" and s'
  proof -
    have "waiting s' + C \<le> waiting s + D" using that assms(2) by linarith
    then show ?thesis
      using that assms(2) by (cases r) (auto intro!: effort_later [where B' = C] assms(3,4))
  qed
  with assms(1) show ?thesis
    unfolding effort_def [of _ B] effort_def [of _ D] wp_handle by (rule wp_mono)
qed

lemma effort_bnd:
  assumes "effort clk B m s" "B + C \<le> D"
    "\<And>a s'. clk (world (snd s)) \<le> clk (world (snd s')) \<Longrightarrow> waiting s' \<le> waiting s + B \<Longrightarrow> effort clk C (f a) s'"
  shows "effort clk D (bnd m f) s"
  unfolding bnd_def by (rule effort_handle [OF assms]) (auto intro: effort_ret)

lemma effort_map_err: "effort clk B m s \<Longrightarrow> effort clk B (map_err h m) s"
  unfolding map_err_def by (erule effort_handle [where C = 0]) (auto intro: effort_ret)

lemma effort_get_now:
  assumes "punctual clk work k T L"
    and "\<And>s'. clk (world (snd s)) < clk (world (snd s')) \<Longrightarrow> fst s' = fst s \<Longrightarrow> effort clk B (f (clk (world (snd s)))) s'"
  shows "effort clk B (bnd (on_snd (get_now L)) f) s"
proof (cases "os_now (l_os L) (world (snd s))")
  case (Pair t w)
  from tickingD [OF punctualD(12) [OF assms(1)] Pair] have t: "t = clk (world (snd s))" "clk (world (snd s)) < clk w"
    by auto
  then show ?thesis
    using assms(2) [of "(fst s, (snd s)\<lparr>world := w\<rparr>)"] Pair
    by (auto simp: effort_def wp_bnd wp_on_snd get_now_def wp_in_world wp_now waiting_def elim!: wp_mono)
qed

text \<open>A loop over \<open>c_next\<close>, as \<open>tame_at_c_next\<close>.\<close>

lemma bnd_map_err: "bnd (map_err h m) f = handle m f (\<lambda>x. fail (h x))"
  by (rule ext) (simp add: map_err_def bnd_def handle_def fail_def ret_def split: prod.splits res.splits)

lemma pays_c_next_loop:
  fixes s :: "'rtc channel \<times> ('i, 'o, 'w, 'm) run_scheme"
  assumes "punctual clk work k T L" "deadline < clk (world (snd s)) + l_fuel L"
    and "\<And>v s'. clk (world (snd s)) \<le> clk (world (snd s')) \<Longrightarrow>
       run_backlog clk k deadline s' + brings (Ok v :: (transport_error, next_msg) res) \<le> run_backlog clk k deadline s \<Longrightarrow>
       pays clk k deadline (f v) s'"
  shows "pays clk k deadline (bnd (map_err h (c_next L deadline)) f) s"
proof -
  let ?Q = "\<lambda>r u. r \<noteq> Hang \<and> clk (world (snd s)) \<le> clk (world (snd u)) \<and>
      run_backlog clk k deadline u \<le> run_backlog clk k deadline s"
  have "after (\<lambda>a. wp (f a) ?Q) (\<lambda>x. wp (fail (h x)) ?Q) ?Q r s'"
    if "r \<noteq> Hang \<and> clk (world (snd s)) \<le> clk (world (snd s')) \<and>
      run_backlog clk k deadline s' + brings r \<le> run_backlog clk k deadline s"
    for r :: "(transport_error, next_msg) res" and s' :: "'rtc channel \<times> ('i, 'o, 'w, 'm) run_scheme"
    using that by (cases r) (auto intro!: pays_later assms(3) simp: wp_fail)
  with c_next_backlog [OF assms(1,2) order_refl] show ?thesis
    unfolding pays_def bnd_map_err wp_handle by (rule wp_mono)
qed

text \<open>What a scope hands on has no more messages waiting than its effort allows.\<close>

lemma wp_scoped_effort:
  fixes m :: "('rtc channel \<times> ('i, 'o, 'w, 'm) run_scheme, 'x, 'b) prog"
    and g :: "'b \<Rightarrow> 'rtc channel \<Rightarrow> (('i, 'o, 'w, 'm) run_scheme, 'x, 'a) prog"
  assumes "effort clk B m (ch, s)"
    and "\<And>b c s'. length (pending c) \<le> length (pending ch) + B \<Longrightarrow> wp (g b c) Q s'"
    and "\<And>r s'. \<forall>a. r \<noteq> Ok a \<Longrightarrow> Q r s'"
  shows "wp (scoped L ch (bnd m (\<lambda>b. ret (Inr b))) g) Q s"
proof -
  have drop: "wp (bnd (drop_channel L c) (\<lambda>_. fail x)) Q u" for c x u
    by (rule wp_bnd_any) (auto simp: wp_fail intro: assms(3))
  show ?thesis
    unfolding wp_scoped wp_bnd [of m]
    by (rule wp_mono [OF assms(1) [unfolded effort_def]])
      (auto simp: after_def wp_ret waiting_def intro!: drop assms(2,3) split: res.splits)
qed

end
