(* ===== verification/ViewerReturns.thy ===== *)
theory ViewerReturns
  imports Punctual ViewerSample
begin

text \<open>
  \<open>connect\<close> returns: whatever the host, the server and the network do, a viewer is not held up, as
  long as its clock advances and the link returns from \<open>recv\<close> and \<open>send\<close>.
\<close>

definition viewer_fuel :: "timeouts \<Rightarrow> nat \<Rightarrow> bool" where
  "viewer_fuel t n \<longleftrightarrow> connect_limit t < n \<and> approval_limit t + signaling_step t < n"

lemma tame_viewer_relays [tame_intros]:
  fixes L :: "('w, 'rtc, 'p, 'k, 'st, 'out, 'sk, 'xk, 'rnd) viewer_libs"
  assumes "punctual clk work k T L"
  shows "tame (run_clock clk) (viewer_send_relay L m)" "d \<le> T \<Longrightarrow> tame (run_clock clk) (viewer_recv_relay L d st)"
  unfolding viewer_send_relay_def viewer_recv_relay_def
  by (auto intro!: tame_intros tame_flow_steps [OF assms] split: link_error.splits)

text \<open>The messages that can wait on the channel of a new session.\<close>

definition viewer_backlog :: "nat \<Rightarrow> timeouts \<Rightarrow> nat" where
  "viewer_backlog k t = k * connect_limit t + (k * signaling_step t + k * (approval_limit t + signaling_step t))"

lemma next_control_effort:
  assumes "punctual clk work k T L" "deadline \<le> clk (world (snd s)) + d" "d < l_fuel L"
  shows "effort clk (k * d) (next_control L deadline st) s"
  unfolding next_control_def
  by (rule effort_bnd [OF effort_map_err [OF c_waits_effort(1) [OF assms]], where C = 0])
    (simp_all add: effort_ret)

lemma viewer_greet_effort:
  assumes "punctual clk work k T L" "viewer_fuel ts (l_fuel L)"
  shows "effort clk (k * signaling_step ts + k * (approval_limit ts + signaling_step ts)) (viewer_greet L sk keys ts lf rf) s"
    (is "effort clk (?A + ?B) _ s")
proof -
  have fuel: "signaling_step ts < l_fuel L" "approval_limit ts + signaling_step ts < l_fuel L"
    using assms(2) by (auto simp: viewer_fuel_def)
  have decide: "effort clk ?B (bnd (lift_sum v) (\<lambda>host. bnd (on_snd (get_now L)) (\<lambda>now2.
      bnd (next_control L (now2 + approval_limit ts + signaling_step ts) StDecision) (\<lambda>msg.
      lift_sum (viewer_decision host msg))))) u" for v u
    by (rule effort_bnd [OF effort_ret(3) [where B = 0], where C = ?B], simp,
        rule effort_get_now [OF assms(1)],
        rule effort_bnd [OF next_control_effort [OF assms(1) _ fuel(2)], where C = 0])
      (simp_all add: effort_ret)
  show ?thesis
    unfolding viewer_greet_def
    by (rule effort_bnd [OF effort_map_err [OF c_send_effort [OF assms(1)]], where C = "?A + ?B"], simp,
        rule effort_get_now [OF assms(1)],
        rule effort_bnd [OF next_control_effort [OF assms(1) _ fuel(1)], where C = ?B])
      (simp_all add: decide)
qed

lemma peer_quiet:
  assumes "tame (peer_clock clk) m"
  shows "effort clk B (on_chan (on_peer m)) s"
  by (intro effort_quiet tame_intros preserves_pending_on_chan preserves_pending assms)

lemma viewer_opened_effort:
  assumes "punctual clk work k T L" "viewer_fuel ts (l_fuel L)"
  shows "effort clk (k * signaling_step ts + k * (approval_limit ts + signaling_step ts)) (viewer_opened L sk keys ts v) s"
    (is "effort clk ?B _ s")
proof (cases v)
  case Ready
  have "effort clk ?B (case remote of None \<Rightarrow> fail (CSecurity ''no remote fingerprint'')
      | Some remote_fp \<Rightarrow> viewer_greet L sk keys ts lf remote_fp) u" for remote lf u
    by (cases remote) (simp_all add: effort_ret viewer_greet_effort [OF assms])
  then show ?thesis
    unfolding Ready viewer_opened.simps
    by (intro effort_bnd [OF peer_quiet [where B = 0], where C = ?B] tame_peer_steps) simp_all
qed (simp_all add: effort_ret)

lemma viewer_answered_effort:
  assumes "punctual clk work k T L" "viewer_fuel ts (l_fuel L)"
  shows "effort clk (viewer_backlog k ts) (viewer_answered L sk keys ts pend answer) s"
proof -
  have fuel: "connect_limit ts < l_fuel L" using assms(2) by (simp add: viewer_fuel_def)
  show ?thesis
    unfolding viewer_answered_def
    by (rule effort_bnd [OF effort_map_err [OF peer_quiet [where B = 0]], where C = "viewer_backlog k ts"],
        rule tame_peer_steps, simp, rule effort_get_now [OF assms(1)],
        rule effort_bnd [OF effort_map_err [OF c_waits_effort(2) [OF assms(1) _ fuel]] _ viewer_opened_effort [OF assms]])
      (simp_all add: viewer_backlog_def)
qed

lemma viewer_handshake_effort:
  assumes "punctual clk work k T L" "viewer_fuel ts (l_fuel L)" "signaling_step ts \<le> T"
  shows "effort clk (viewer_backlog k ts) (viewer_handshake L sk mac_a keys ts) s"
proof -
  have answer: "effort clk 0 (viewer_sealed_answer L sk msg) u" for msg u
    unfolding viewer_sealed_answer_def
    by (intro effort_quiet)
      (auto intro!: tame_intros preserves_intros preserves_pending split: pake_msg.splits option.splits)
  have offered: "effort clk (viewer_backlog k ts)
      (bnd (run_local (fst (viewer_side sk)) (infallible (seal (l_aead L) (as_bytes offer)))) (\<lambda>sealed_offer.
       bnd (on_snd (viewer_send_relay L (PConfirm mac_a sealed_offer))) (\<lambda>_.
       bnd (on_snd (viewer_recv_relay L (signaling_step ts) StAnswer)) (\<lambda>msg.
       bnd (viewer_sealed_answer L sk msg) (viewer_answered L sk keys ts pend))))) u" for offer pend u
    by (rule effort_bnd [OF effort_quiet [where B = 0], where C = "viewer_backlog k ts"],
        (auto intro!: tame_intros preserves_pending)[3],
        rule effort_bnd [OF effort_on_snd [where B = 0], where C = "viewer_backlog k ts"],
        rule tame_viewer_relays [OF assms(1)], simp,
        rule effort_bnd [OF effort_on_snd [where B = 0], where C = "viewer_backlog k ts"],
        rule tame_viewer_relays(2) [OF assms(1,3)], simp,
        rule effort_bnd [OF answer _ viewer_answered_effort [OF assms(1,2)]], simp)
  show ?thesis
    unfolding viewer_handshake_def
    by (rule effort_bnd [OF effort_map_err [OF peer_quiet [where B = 0]], where C = "viewer_backlog k ts"],
        rule tame_create_offer) (auto simp: offered)
qed

lemma viewer_joined_tame:
  assumes "punctual clk work k T L" "viewer_fuel ts (l_fuel L)" "signaling_step ts \<le> T"
  shows "tame_at (run_clock clk) (viewer_joined L hid code keys ips ts) s"
proof -
  have reply: "tame (run_clock clk) (viewer_got_reply L st msg)" for st msg
    unfolding viewer_got_reply_def by (auto intro!: tame_intros split: pake_msg.splits)
  have keyed: "tame_at (run_clock clk) (viewer_with_keys L keys ips ts sk mac) u" for sk mac u
    unfolding viewer_with_keys_def
    by (auto intro!: tame_at_bnd tame_at_scoped [OF assms(1)] effort_tame [OF viewer_handshake_effort [OF assms]]
        tame_at [OF tame_map_err [OF tame_flow_steps(7) [OF assms(1)]]] tame_at [OF tame_ret])
  show ?thesis
    unfolding viewer_joined_def
    by (auto intro!: tame_at_bnd tame_at [OF tame_flow_steps(6) [OF assms(1)]] tame_at [OF tame_map_err] tame_intros
        tame_at [OF tame_viewer_relays(1) [OF assms(1)]] tame_at [OF tame_viewer_relays(2) [OF assms(1,3)]]
        tame_at [OF reply] keyed split: prod.splits)
qed

lemma connect_tame:
  assumes "punctual clk work k (signaling_step ts) L" "viewer_fuel ts (l_fuel L)"
  shows "tame_at (run_clock clk) (connect L hid code keys ips ts) s"
  unfolding connect_def viewer_connect_body_def
  by (auto intro!: tame_at_owning [OF assms(1)] tame_at_bnd tame_at [OF tame_map_err [OF tame_flow_steps(3) [OF assms(1)]]]
      viewer_joined_tame [OF assms(1,2)] tame_at [OF tame_fail] split: option.splits server_to_viewer.splits)

section \<open>The session\<close>

text \<open>The backlog of the channel a session starts with.\<close>

lemma connect_backlog:
  assumes "punctual clk work k (signaling_step ts) L" "viewer_fuel ts (l_fuel L)"
  shows "wp (connect L hid code keys ips ts)
     (\<lambda>r s'. \<forall>v. r = Ok v \<longrightarrow> length (pending (vs_ch v)) \<le> viewer_backlog k ts) s" (is "wp _ ?Q s")
proof -
  have keyed: "wp (viewer_with_keys L keys ips ts sk mac) ?Q u" for sk mac u
    unfolding viewer_with_keys_def
    by (intro wp_bnd_any wp_scoped_effort [OF viewer_handshake_effort [OF assms order_refl]])
      (auto simp: wp_ret channel_new_def)
  then have joined: "wp (viewer_joined L hid code keys ips ts) ?Q u" for u
    unfolding viewer_joined_def by (intro wp_bnd_any) (auto split: prod.splits intro!: wp_bnd_any)
  have "wp (viewer_connect_body L hid code keys ips ts) ?Q s"
    unfolding viewer_connect_body_def
    by (rule wp_bnd_any) (auto simp: wp_fail joined split: option.splits server_to_viewer.splits)
  then show ?thesis
    unfolding connect_def owning_link_def wp_handle
    by (rule wp_mono) (auto simp: after_def wp_ret wp_fail split: res.splits intro!: wp_bnd_any)
qed

section \<open>Pings\<close>

lemma wp_in_session [wp_rules]:
  "wp (in_session m) Q s =
     wp m (\<lambda>r t. Q r ((fst s)\<lparr>vs_ch := fst t\<rparr>, snd t)) (vs_ch (fst s), snd s)"
  by (auto simp: wp_def in_session_def split: prod.splits)

lemma bnd_assoc: "bnd (bnd m f) g = bnd m (\<lambda>a. bnd (f a) g)"
  by (rule ext) (simp add: bnd_def handle_def fail_def split: prod.splits res.splits)

lemma ping_loop_pays:
  fixes s :: "'rtc channel \<times> 'w viewer_run"
  assumes "punctual clk work k T L" "deadline < clk (world (snd s)) + l_fuel L" "run_backlog clk k deadline s < n"
  shows "pays clk k deadline (ping_loop L n start deadline sq) s"
  using assms(2,3)
proof (induction n arbitrary: s)
  case (Suc n)
  show ?case
    unfolding ping_loop.simps next_control_def bnd_assoc
  proof (rule pays_c_next_loop [OF assms(1) Suc.prems(1)])
    fix v and u :: "'rtc channel \<times> 'w viewer_run"
    assume u: "clk (world (snd s)) \<le> clk (world (snd u))"
      "run_backlog clk k deadline u + brings (Ok v :: (transport_error, next_msg) res) \<le> run_backlog clk k deadline s"
    have again: "pays clk k deadline (ping_loop L n start deadline sq) u" if "v = NMsg m" for m
      by (rule Suc.IH) (use that u Suc.prems in auto)
    have pong: "pays clk k deadline (bnd (on_snd (get_now L)) (\<lambda>t. ret (t - start)) :: (_, connect_error, _) prog) u"
      by (intro pays_get_now [OF assms(1)] pays_ret)
    show "pays clk k deadline (bnd (lift_sum (control_of StPing v))
        (\<lambda>msg. if msg = CPong sq then bnd (on_snd (get_now L)) (\<lambda>t. ret (t - start))
               else ping_loop L n start deadline sq)) u"
      using pong again
      by (cases v) (auto simp: pays_def wp_bnd [of "ret _"] wp_bnd [of "fail _"] wp_ret wp_fail)
  qed
qed simp

lemma in_session_bnd: "bnd (in_session m) (\<lambda>a. in_session (f a)) = in_session (bnd m f)"
  by (rule ext) (simp add: in_session_def bnd_def handle_def fail_def split: prod.splits res.splits)

text \<open>A ping returns, and leaves at most \<open>k * d\<close> more messages waiting.\<close>

lemma ping_returns:
  fixes s :: "'rtc viewer_session \<times> 'w viewer_run"
  assumes "punctual clk work k T L" "d < l_fuel L" "length (pending (vs_ch (fst s))) + k * d < l_fuel L"
  shows "wp (ping L d) (\<lambda>r s'. r \<noteq> Hang \<and> clk (world (snd s)) \<le> clk (world (snd s')) \<and>
     length (pending (vs_ch (fst s'))) \<le> length (pending (vs_ch (fst s))) + k * d) s"
    (is "wp _ ?Q s")
proof (cases "os_now (l_os L) (world (snd s))")
  case (Pair start w)
  from tickingD [OF punctualD(12) [OF assms(1)] Pair] have now: "start = clk (world (snd s))" "clk (world (snd s)) < clk w"
    by auto
  let ?p = "length (pending (vs_ch (fst s)))" and ?u = "(vs_ch (fst s), (snd s)\<lparr>world := w\<rparr>)"
  have loop: "effort clk (k * d) (ping_loop L (l_fuel L) start (start + d) sq) t"
    if "start \<le> clk (world (snd t))" "waiting t \<le> ?p" for sq and t :: "'rtc channel \<times> 'w viewer_run"
  proof -
    have dl: "start + d \<le> clk (world (snd t)) + d" using that(1) by simp
    have "run_backlog clk k (start + d) t < l_fuel L"
      using backlog_waiting(2) [where s = t and D = "start + d" and d = d and k = k and clk = clk, OF dl] that(2) assms(3)
      by linarith
    then show ?thesis
      by (intro pays_effort [OF ping_loop_pays [OF assms(1)] dl]) (use dl assms(2) in linarith)+
  qed
  have "effort clk (k * d) (bnd (map_err CTransport (c_send L (CPing sq)))
      (\<lambda>_. ping_loop L (l_fuel L) start (start + d) sq)) ?u" for sq
  proof (rule effort_bnd [OF effort_map_err [OF c_send_effort [OF assms(1)]], where C = "k * d"])
    fix s' :: "'rtc channel \<times> 'w viewer_run"
    assume "clk (world (snd ?u)) \<le> clk (world (snd s'))" "waiting s' \<le> waiting ?u + 0"
    then have "start \<le> clk (world (snd s'))" "waiting s' \<le> ?p" using now by (auto simp: waiting_def)
    then show "effort clk (k * d) (ping_loop L (l_fuel L) start (start + d) sq) s'" by (rule loop)
  qed simp
  then have "wp (bnd (map_err CTransport (c_send L (CPing (vs_next_seq (fst s)))))
      (\<lambda>_. ping_loop L (l_fuel L) start (start + d) (vs_next_seq (fst s))))
      (\<lambda>r t. r \<noteq> Hang \<and> clk (world (snd s)) \<le> clk (world (snd t)) \<and> length (pending (fst t)) \<le> ?p + k * d) ?u"
    unfolding effort_def by (rule wp_mono) (use now in \<open>auto simp: waiting_def\<close>)
  with Pair show ?thesis
    unfolding ping_def in_session_bnd
    by (cases s) (simp add: wp_bnd [of "gets _"] wp_bnd [of "modify _"] wp_bnd [of "on_snd (in_world _)"] wp_gets
        wp_modify wp_on_snd get_now_def wp_in_world wp_now wp_in_session)
qed

section \<open>Properties\<close>

text \<open>The viewer is never stuck: with a clock that advances, an engine that ends its outputs and a link
  whose calls return, every run of \<open>connect\<close> returns, with a session or an error, once the fuel exceeds
  the waiting times of the protocol.\<close>

theorem connect_returns:
  assumes "punctual clk work k (signaling_step ts) L" and "viewer_fuel ts (l_fuel L)"
    and "connect L hid code keys ips ts s = (r, s')"
  shows "r \<noteq> Hang \<and> clk (world s) \<le> clk (world s')"
  using wpD [OF connect_tame [OF assms(1,2), unfolded tame_at_def] assms(3)] .

text \<open>A host that leaves before the viewer has opened the exchange.\<close>

definition left_viewer ::
  "(nat, rtc_output option, unit, bytes, bytes \<times> bytes, bytes \<times> bytes, byte, byte, byte) viewer_libs"
where
  "left_viewer =
     \<lparr>l_os = sample_os, l_rtc = sample_rtc, l_wire = sample_wire, l_aead = sample_aead,
      l_spake = sample_spake, l_id = sample_id_lib, l_rng = (\<lambda>w. ([9], w)),
      l_send = (\<lambda>m w. (Ok (), w)), l_recv = (\<lambda>t w. (Ok (Some SVHostLeft), Suc w)), l_drop = Pair (), l_fuel = 9\<rparr>"

definition short_timeouts :: timeouts where
  "short_timeouts = \<lparr>signaling_step = 1, connect_limit = 2, approval_limit = 3\<rparr>"

lemma left_viewer_punctual:
  "punctual (\<lambda>w. w) (\<lambda>r. case r of None \<Rightarrow> 0 | Some _ \<Rightarrow> 1) 2 T left_viewer"
proof -
  have "keeps (\<lambda>w. w) (udp_bind sample_os a)" "keeps (\<lambda>w. w) (udp_nonblocking sample_os h)"
    "keeps (\<lambda>w. w) (udp_local_addr sample_os h)" for a h
    by (simp_all add: keeps_def sample_os_def)
  then show ?thesis
    by (simp add: punctual_def left_viewer_def sample_os_ok sample_rtc_drains tame_def wp_def keeps_def [of _ "\<lambda>w. ([9], w)"]
        keeps_def [of _ "Pair ()"])
qed

lemma left_run:
  "connect left_viewer (lit ''123456789'') (lit ''123456'') sample_viewer_keys [] short_timeouts viewer_start_run =
     (Err CHostLeft, \<lparr>world = 1, history = [EvGot (Some SVHostLeft), EvLinkDropped]\<rparr>)"
  by (simp add: connect_def owning_link_def viewer_connect_body_def viewer_start_run_def left_viewer_def
      link_recv_def noting_def in_world_def record_event_def drop_link_def ext_total_def run_simps)

theorem connect_returns_witness:
  "(Err CHostLeft :: (connect_error, rtc_output option viewer_session) res) \<noteq> Hang \<and> (0 :: nat) \<le> 1"
proof -
  have "viewer_fuel short_timeouts (l_fuel left_viewer)"
    by (simp add: viewer_fuel_def short_timeouts_def left_viewer_def)
  from connect_returns [OF left_viewer_punctual this left_run] show ?thesis by simp
qed

end
