(* ===== verification/HostReturns.thy ===== *)
theory HostReturns
  imports Punctual HostSample
begin

text \<open>
  An attempt returns: whatever a viewer does, it cannot keep the host busy for ever.  The loops of
  the host that go round for each message (\<open>linger_loop\<close>) or for each look at the answer of the user
  (\<open>wait_approval_loop\<close>) are paid for by the backlog of the channel and by the clock.
\<close>

section \<open>The code\<close>

definition accepted_draw :: "bytes option \<Rightarrow> bool" where
  "accepted_draw d = (case d of None \<Rightarrow> True | Some b \<Rightarrow> u32_from_be b < code_limit)"

text \<open>Among any \<open>n\<close> draws one is not rejected.\<close>

definition draws_settle :: "('s \<Rightarrow> bytes option \<times> 's) \<Rightarrow> nat \<Rightarrow> bool" where
  "draws_settle fill n \<longleftrightarrow> (\<forall>s. \<exists>i<n. accepted_draw (fst (nth_draw fill i s)))"

lemma code_generate_returns:
  assumes "keeps clk fill" "\<exists>i<n. accepted_draw (fst (nth_draw fill i s))"
  shows "wp (code_generate fill n) (\<lambda>r s'. r \<noteq> Hang \<and> clk s \<le> clk s') s"
  using assms(2)
proof (induction n arbitrary: s)
  case (Suc n)
  obtain d s' where d: "fill s = (d, s')" by (cases "fill s")
  have clk: "clk s \<le> clk s'" using keepsD [OF assms(1) d] .
  show ?case
  proof (cases "accepted_draw d")
    case True
    with d clk show ?thesis by (auto simp: wp_def accepted_draw_def Let_def split: option.splits)
  next
    case False
    from Suc.prems obtain i where i: "i < Suc n" "accepted_draw (fst (nth_draw fill i s))" by blast
    with d False obtain j where "i = Suc j" by (cases i) auto
    with i d have "\<exists>i<n. accepted_draw (fst (nth_draw fill i s'))" by auto
    from Suc.IH [OF this] d False clk show ?thesis
      by (auto simp: wp_def accepted_draw_def Let_def split: option.splits)
  qed
qed simp

lemma tame_code_generate: "keeps clk fill \<Longrightarrow> draws_settle fill n \<Longrightarrow> tame clk (code_generate fill n)"
  by (rule tameI, rule code_generate_returns) (simp_all add: draws_settle_def)

section \<open>What the host needs\<close>

definition host_fuel :: "nat \<Rightarrow> timeouts \<Rightarrow> nat \<Rightarrow> bool" where
  "host_fuel k t n \<longleftrightarrow>
     k * connect_limit t + k * signaling_step t + k * approval_limit t + k * signaling_step t < n \<and>
     connect_limit t < n \<and> signaling_step t < n \<and> approval_limit t < n"

definition host_ready ::
  "('w \<Rightarrow> nat) \<Rightarrow> ('rtc \<Rightarrow> nat) \<Rightarrow> nat \<Rightarrow> timeouts \<Rightarrow> 'w ask \<Rightarrow>
   ('w, 'rtc, 'p, 'k, 'st, 'out, 'sk, 'xk, 'rnd) host_libs \<Rightarrow> bool"
where
  "host_ready clk work k t approve L \<longleftrightarrow>
     punctual clk work k (signaling_step t) L \<and> (\<forall>req. keeps clk (approve req)) \<and>
     keeps clk (os_random (l_os L) 4) \<and> draws_settle (os_random (l_os L) 4) (l_fuel L) \<and>
     host_fuel k t (l_fuel L)"

lemma host_readyD:
  assumes "host_ready clk work k t approve L"
  shows "punctual clk work k (signaling_step t) L" "keeps clk (approve req)"
    "keeps clk (os_random (l_os L) 4)" "draws_settle (os_random (l_os L) 4) (l_fuel L)" "host_fuel k t (l_fuel L)"
  using assms by (auto simp: host_ready_def)

lemma tame_host_steps:
  assumes "host_ready clk work k t approve L"
  shows "tame (run_clock clk) (renew_code L)" "tame (run_clock clk) (count_failure L)"
    "tame (run_clock clk) (send_relay L m)" "tame (run_clock clk) (recv_relay L (signaling_step t))"
    "tame (run_clock clk) (kicked L f)" "tame (run_clock clk) (reject_relay L f)"
    "tame (crun_clock clk) (on_snd (ask_user approve req))"
proof -
  note r = host_readyD [OF assms] note s = tame_flow_steps [OF r(1)]
  show renew: "tame (run_clock clk) (renew_code L)"
    unfolding renew_code_def generate_code_def
    by (intro tame_intros tame_code_generate r tame_modify) simp
  show "tame (run_clock clk) (count_failure L)"
    unfolding count_failure_def by (auto intro!: tame_intros s renew tame_modify)
  show send: "tame (run_clock clk) (send_relay L m)" for m
    unfolding send_relay_def by (intro tame_intros s)
  show "tame (run_clock clk) (recv_relay L (signaling_step t))"
    unfolding recv_relay_def by (intro tame_intros s order_refl)
  show kick: "tame (run_clock clk) (kicked L f)" for f
    unfolding kicked_def by (intro tame_intros s)
  show "tame (run_clock clk) (reject_relay L f)"
    unfolding reject_relay_def by (intro tame_intros send kick)
  show "tame (crun_clock clk) (on_snd (ask_user approve req))"
    unfolding ask_user_def by (intro tame_intros r)
qed

section \<open>The loops\<close>

lemma linger_loop_tame:
  fixes s :: "'rtc channel \<times> 'w host_run"
  assumes "punctual clk work k T L" "deadline < clk (world (snd s)) + l_fuel L" "run_backlog clk k deadline s < n"
  shows "tame_at (crun_clock clk) (linger_loop L n deadline :: (_, 'x, _) prog) s"
  using assms(2,3)
proof (induction n arbitrary: s)
  case (Suc n)
  show ?case
    unfolding linger_loop.simps
  proof (rule tame_at_c_next [OF assms(1) Suc.prems(1)])
    fix v and s' :: "'rtc channel \<times> 'w host_run"
    assume u: "clk (world (snd s)) \<le> clk (world (snd s'))"
      "run_backlog clk k deadline s' + brings (Ok v :: (transport_error, next_msg) res) \<le> run_backlog clk k deadline s"
    have "tame_at (crun_clock clk) (linger_loop L n deadline :: (_, 'x, _) prog) s'"
      if "brings (Ok v :: (transport_error, next_msg) res) = 1"
      by (rule Suc.IH) (use that u Suc.prems in linarith)+
    then show "tame_at (crun_clock clk) ((case v of NMsg _ \<Rightarrow> linger_loop L n deadline
        | NMalformed \<Rightarrow> linger_loop L n deadline | _ \<Rightarrow> ret ()) :: (_, 'x, _) prog) s'"
      by (cases v) (auto intro!: tame_at [OF tame_ret])
  qed (rule tame_at [OF tame_ret])
qed simp

lemma reject_decision_tame:
  fixes s :: "'rtc channel \<times> 'w host_run"
  assumes "punctual clk work k T L" "d < l_fuel L" "waiting s + k * d < l_fuel L"
  shows "tame_at (crun_clock clk) (reject_decision L reason f d) s"
proof -
  have linger: "tame_at (crun_clock clk) (linger_loop L (l_fuel L) (t + d)) u"
    if "t \<le> clk (world (snd u))" "waiting u \<le> waiting s" for t and u :: "'rtc channel \<times> 'w host_run"
  proof (rule linger_loop_tame [OF assms(1)])
    have "t + d \<le> clk (world (snd u)) + d" using that(1) by simp
    from backlog_waiting(2) [where s = u and D = "t + d" and d = d and k = k and clk = clk, OF this]
    show "run_backlog clk k (t + d) u < l_fuel L" using that(2) assms(3) by linarith
  qed (use that(1) assms(2) in linarith)
  show ?thesis
    unfolding reject_decision_def
    by (rule tame_at_after_effort [OF c_send_effort [OF assms(1)]])
      (auto intro!: tame_at_get_now [OF assms(1)] tame_at_bnd linger tame_at [OF tame_ret] simp: waiting_def)
qed

lemma wait_approval_loop_pays:
  fixes s :: "'rtc channel \<times> 'w host_run"
  assumes "host_ready clk work k t approve L" "deadline < clk (world (snd s)) + l_fuel L" "deadline < clk (world (snd s)) + n"
    and "0 < n"
  shows "pays clk k deadline (wait_approval_loop L approve req n deadline :: (_, 'x, _) prog) s"
  using assms(2-4)
proof (induction n arbitrary: s)
  case (Suc n)
  note r = host_readyD [OF assms(1)]
  have ask: "tame (run_clock clk) (ask_user approve req)"
    unfolding ask_user_def by (intro tame_intros r)
  have again: "pays clk k deadline (wait_approval_loop L approve req n deadline :: (_, 'x, _) prog) u"
    if "clk (world (snd s)) < clk (world (snd u))" "clk (world (snd s)) < deadline" for u :: "'rtc channel \<times> 'w host_run"
    by (rule Suc.IH) (use Suc.prems that in linarith)+
  have heard: "pays clk k deadline (heard_while_asking (wait_approval_loop L approve req n deadline) v :: (_, 'x, _) prog) u"
    if "clk (world (snd s)) < clk (world (snd u))" "clk (world (snd s)) < deadline" for v and u :: "'rtc channel \<times> 'w host_run"
    using again [OF that] by (cases v) (auto intro: pays_ret)
  have wait: "pays clk k deadline (handle (c_next L (min d deadline)) 
       (heard_while_asking (wait_approval_loop L approve req n deadline)) (\<lambda>_. ret (ApprovalFailed FTransport)) :: (_, 'x, _) prog) u"
    if "clk (world (snd s)) < clk (world (snd u))" "clk (world (snd s)) < deadline" for d and u :: "'rtc channel \<times> 'w host_run"
    by (intro pays_handle pays_c_next [OF r(1)] heard pays_ret) (use Suc.prems that in auto)
  show ?case
    unfolding wait_approval_loop.simps
    by (intro pays_bnd [OF pays_on_snd [OF ask]])
      (auto intro!: pays_ret pays_get_now [OF r(1)] wait split: option.splits bool.splits)
qed simp

section \<open>The handshake\<close>

lemma host_decide_tame:
  fixes s :: "'rtc channel \<times> 'w host_run"
  assumes "host_ready clk work k t approve L" "waiting s + k * signaling_step t < l_fuel L"
  shows "tame_at (crun_clock clk) (host_decide L t viewer a) s"
proof -
  note r = host_readyD [OF assms(1)]
  have fuel: "signaling_step t < l_fuel L" using r(5) by (simp add: host_fuel_def)
  show ?thesis
  proof (cases a)
    case Granted
    then show ?thesis
      by (auto intro!: tame_at tame_intros tame_flow_steps(5) [OF r(1)] tame_host_steps(1) [OF assms(1)])
  qed (simp_all add: reject_decision_tame [OF r(1) fuel assms(2)] tame_at [OF tame_ret])
qed

lemma host_verified_tame:
  fixes s :: "'rtc channel \<times> 'w host_run"
  assumes "host_ready clk work k t approve L"
    "waiting s + k * approval_limit t + k * signaling_step t < l_fuel L"
  shows "tame_at (crun_clock clk) (host_verified L t approve viewer :: (_, 'x, _) prog) s"
proof -
  note r = host_readyD [OF assms(1)]
  have fuel: "approval_limit t < l_fuel L" using r(5) by (simp add: host_fuel_def)
  have wait: "tame_at (crun_clock clk) (bnd (wait_approval_loop L approve req (l_fuel L) (d + approval_limit t))
      (host_decide L t viewer) :: (_, 'x, _) prog) u"
    if "d \<le> clk (world (snd u))" "waiting u \<le> waiting s" for d req and u :: "'rtc channel \<times> 'w host_run"
  proof (rule tame_at_after_effort_bnd [where B = "k * approval_limit t"])
    have d: "d + approval_limit t \<le> clk (world (snd u)) + approval_limit t" using that(1) by simp
    show "effort clk (k * approval_limit t) (wait_approval_loop L approve req (l_fuel L) (d + approval_limit t)) u"
      by (rule pays_effort [OF wait_approval_loop_pays [OF assms(1)] d]) (use d fuel in linarith)+
  qed (use that(2) assms(2) in \<open>auto intro!: host_decide_tame [OF assms(1)]\<close>)
  have "tame_at (crun_clock clk) (bnd (wait_approval L approve req (approval_limit t)) (host_decide L t viewer) :: (_, 'x, _) prog) s" for req
  proof -
    have "(bnd (wait_approval L approve req (approval_limit t)) (host_decide L t viewer) :: (_, 'x, _) prog) =
        bnd (on_snd (get_now L)) (\<lambda>d. bnd (wait_approval_loop L approve req (l_fuel L) (d + approval_limit t)) (host_decide L t viewer))"
      by (rule ext) (simp add: wait_approval_def bnd_def handle_def fail_def split: prod.splits res.splits)
    then show ?thesis
      by (auto intro!: tame_at_get_now [OF r(1)] wait simp: waiting_def)
  qed
  then show ?thesis
    unfolding host_verified_def
    by (cases "key_fingerprint (l_id L) (l_wire L) (pi_device_key viewer)")
      (auto simp: tame_at_def wp_bnd [of panic] wp_bnd [of "ret _"] wp_panic wp_ret)
qed

lemma host_heard_hello_tame:
  fixes s :: "'rtc channel \<times> 'w host_run"
  assumes "host_ready clk work k (hc_timeouts cfg) approve L"
    "waiting s + k * approval_limit (hc_timeouts cfg) + k * signaling_step (hc_timeouts cfg) < l_fuel L"
  shows "tame_at (crun_clock clk) (host_heard_hello L cfg sk approve lf rf v) s"
proof -
  note r = host_readyD [OF assms(1)]
  have fuel: "signaling_step (hc_timeouts cfg) < l_fuel L"
    "waiting s + k * signaling_step (hc_timeouts cfg) < l_fuel L"
    using r(5) assms(2) by (simp_all add: host_fuel_def)
  show ?thesis
    unfolding host_heard_hello_def Let_def
    by (auto intro!: tame_at [OF tame_ret] reject_decision_tame [OF r(1)] fuel host_verified_tame [OF assms]
        split: next_msg.splits control.splits sum.splits)
qed

lemma host_greet_tame:
  fixes s :: "'rtc channel \<times> 'w host_run"
  assumes "host_ready clk work k (hc_timeouts cfg) approve L"
    "waiting s + k * signaling_step (hc_timeouts cfg) + k * approval_limit (hc_timeouts cfg) +
       k * signaling_step (hc_timeouts cfg) < l_fuel L"
  shows "tame_at (crun_clock clk) (host_greet L cfg sk approve lf rf :: (_, 'x, _) prog) s"
proof -
  let ?t = "hc_timeouts cfg"
  note r = host_readyD [OF assms(1)]
  have fuel: "signaling_step ?t < l_fuel L" using r(5) by (simp add: host_fuel_def)
  have hear: "tame_at (crun_clock clk) (handle (c_next L (d + signaling_step ?t))
      (host_heard_hello L cfg sk approve lf rf) (\<lambda>_. ret (Inl (Failed FTransport))) :: (_, 'x, _) prog) u"
    if "d \<le> clk (world (snd u))" "waiting u \<le> waiting s" for d and u :: "'rtc channel \<times> 'w host_run"
    by (rule tame_at_after_effort [OF c_waits_effort(1) [OF r(1) _ fuel]])
      (use that assms(2) in \<open>auto intro!: host_heard_hello_tame [OF assms(1)] tame_at [OF tame_ret]\<close>)
  show ?thesis
    unfolding host_greet_def Let_def
    by (rule tame_at_after_effort [OF c_send_effort [OF r(1)]])
      (auto intro!: tame_at_get_now [OF r(1)] hear tame_at [OF tame_ret] simp: waiting_def)
qed

lemma host_opened_tame:
  fixes s :: "'rtc channel \<times> 'w host_run"
  assumes "host_ready clk work k (hc_timeouts cfg) approve L"
    "waiting s + k * signaling_step (hc_timeouts cfg) + k * approval_limit (hc_timeouts cfg) +
       k * signaling_step (hc_timeouts cfg) < l_fuel L"
  shows "tame_at (crun_clock clk) (host_opened L cfg sk approve v) s"
proof (cases v)
  case Ready
  with host_greet_tame [OF assms, unfolded tame_at_def] show ?thesis
    by (auto simp: tame_at_def wp_bnd wp_on_chan wp_on_peer peer_local_fp_def peer_remote_fp_def wp_gets wp_ret
        split: option.splits)
qed (auto intro!: tame_at [OF tame_ret])

lemma host_handshake_tame:
  fixes s :: "'w host_run" and ch :: "'rtc channel"
  assumes "host_ready clk work k (hc_timeouts cfg) approve L" "pending ch = []"
  shows "tame_at (run_clock clk) (host_handshake L cfg sk approve ch :: (_, 'x, _) prog) s"
proof -
  let ?t = "hc_timeouts cfg"
  note r = host_readyD [OF assms(1)]
  have fuel: "connect_limit ?t < l_fuel L" "k * connect_limit ?t + k * signaling_step ?t + k * approval_limit ?t +
      k * signaling_step ?t < l_fuel L" using r(5) by (simp_all add: host_fuel_def)
  have wait: "tame_at (crun_clock clk) (handle (c_wait_open L (d + connect_limit ?t)) (host_opened L cfg sk approve)
      (\<lambda>_. ret (Inl (Failed FTransport))) :: (_, 'x, _) prog) u"
    if "d \<le> clk (world (snd u))" "waiting u = 0" for d and u :: "'rtc channel \<times> 'w host_run"
    by (rule tame_at_after_effort [OF c_waits_effort(2) [OF r(1) _ fuel(1)]])
      (use that fuel(2) in \<open>auto intro!: host_opened_tame [OF assms(1)] tame_at [OF tame_ret]\<close>)
  have "tame_at (crun_clock clk) (host_handshake_body L cfg sk approve :: (_, 'x, _) prog) (ch, s)"
    unfolding host_handshake_body_def
    by (auto intro!: tame_at_get_now [OF r(1)] wait simp: waiting_def assms(2))
  then show ?thesis
    unfolding host_handshake_def by (intro tame_at_scoped [OF r(1)] tame_at [OF tame_ret])
qed

section \<open>The attempt\<close>

lemma answer_offer_tame:
  assumes "host_ready clk work k t approve L"
  shows "tame (crun_clock clk) (answer_offer L sk offer)"
proof -
  note r = host_readyD [OF assms]
  have "tame (crun_clock clk) (send_answer L sk a)" for a
    by (cases a) (auto intro!: tame_intros tame_host_steps [OF assms])
  then show ?thesis
    unfolding answer_offer_def by (auto intro!: tame_intros)
qed

lemma answer_offer_pending: "preserves (\<lambda>t. pending (fst t) = p) (answer_offer L sk offer)"
proof -
  have "preserves (\<lambda>t. pending (fst t) = p) (send_answer L sk a)" for a
    by (cases a) (auto intro!: preserves_intros preserves_pending)
  then show ?thesis
    unfolding answer_offer_def attempt_ok_def
    by (auto intro!: preserves_intros preserves_pending preserves_pending_on_chan)
qed

lemma attempt_answer_tame:
  assumes "host_ready clk work k (hc_timeouts cfg) approve L"
  shows "tame (run_clock clk) (attempt_answer L cfg approve sk so)"
proof -
  note r = host_readyD [OF assms] note steps = tame_host_steps [OF assms]
  have ended: "tame (run_clock clk) (attempt_ended L out)" for out
    by (cases out) (auto intro!: tame_intros steps)
  have served: "tame_at (run_clock clk) (scoped L (channel_new peer) (answer_offer L sk offer)
      (\<lambda>_ ch. bnd (host_handshake L cfg sk approve ch) (attempt_ended L))) s" for peer offer s
    by (rule tame_at_scoped_keeping [where K = "\<lambda>c. pending c = []", OF r(1) tame_at [OF answer_offer_tame [OF assms]]])
      (auto intro!: preserves_wp [OF answer_offer_pending] tame_at_bnd host_handshake_tame [OF assms] tame_at [OF ended]
        simp: channel_new_def)
  show ?thesis
    unfolding attempt_answer_def
    by (auto intro!: tame_intros steps tame_flow_steps [OF r(1)] tame_at_all [OF served] split: option.splits)
qed

lemma attempt_tame:
  assumes "host_ready clk work k (hc_timeouts cfg) approve L"
  shows "tame (run_clock clk) (attempt L cfg approve)"
proof -
  note r = host_readyD [OF assms] note steps = tame_host_steps [OF assms] tame_flow_steps [OF r(1)]
  have "tame (run_clock clk) (attempt_got_confirm L cfg approve pake v)" for pake v
    unfolding attempt_got_confirm_def
    by (auto intro!: tame_intros steps tame_modify attempt_answer_tame [OF assms] split: relay.splits pake_msg.splits)
  then have "tame (run_clock clk) (attempt_reply L cfg approve pa)" for pa
    unfolding attempt_reply_def by (auto intro!: tame_intros steps split: prod.splits)
  then have "tame (run_clock clk) (attempt_got_start L cfg approve v)" for v
    unfolding attempt_got_start_def by (auto intro!: tame_intros steps split: relay.splits pake_msg.splits)
  then show ?thesis
    unfolding attempt_def by (auto intro!: tame_intros steps split: sum.splits)
qed

section \<open>The session\<close>

lemma effort_backlog:
  assumes "clk (world (snd s)) \<le> clk (world (snd u))" "waiting u \<le> waiting s"
  shows "run_backlog clk k D u \<le> run_backlog clk k D s"
  using assms unfolding run_backlog_def backlog_def waiting_def by (auto intro!: add_mono diff_le_mono2)

lemma serve_pings_loop_tame:
  fixes s :: "'rtc channel \<times> 'w host_run"
  assumes "punctual clk work k T L" "deadline < clk (world (snd s)) + l_fuel L" "run_backlog clk k deadline s < n"
  shows "tame_at (crun_clock clk) (serve_pings_loop L n deadline) s"
  using assms(2,3)
proof (induction n arbitrary: s)
  case (Suc n)
  have close: "tame (crun_clock clk) (bnd (on_chan (channel_close (l_os L) (l_rtc L) (l_fuel L))) ret)"
    by (intro tame_intros tame_channel_close [OF assms(1)])
  show ?case
    unfolding serve_pings_loop.simps bnd_map_err
  proof (rule tame_at_c_next [OF assms(1) Suc.prems(1)])
    fix v and u :: "'rtc channel \<times> 'w host_run"
    assume u: "clk (world (snd s)) \<le> clk (world (snd u))"
      "run_backlog clk k deadline u + brings (Ok v :: (transport_error, next_msg) res) \<le> run_backlog clk k deadline s"
    have again: "tame_at (crun_clock clk) (serve_pings_loop L n deadline) w"
      if "v = NMsg m" "clk (world (snd u)) \<le> clk (world (snd w))" "waiting w \<le> waiting u"
      for m and w :: "'rtc channel \<times> 'w host_run"
      by (rule Suc.IH) (use that u effort_backlog [OF that(2,3), of k deadline] Suc.prems in auto)
    have pong: "tame_at (crun_clock clk) (handle (c_send L (CPong sq)) (\<lambda>_. serve_pings_loop L n deadline)
        (\<lambda>x. fail (HETransport x))) u" if "v = NMsg m" for m sq
      by (rule tame_at_after_effort [OF c_send_effort [OF assms(1)]])
        (use that in \<open>auto intro!: again tame_at [OF tame_fail]\<close>)
    show "tame_at (crun_clock clk) (case v of NMsg (CPing sq) \<Rightarrow>
          handle (c_send L (CPong sq)) (\<lambda>_. serve_pings_loop L n deadline) (\<lambda>x. fail (HETransport x))
        | NMsg _ \<Rightarrow> serve_pings_loop L n deadline
        | NMalformed \<Rightarrow> bnd (on_chan (channel_close (l_os L) (l_rtc L) (l_fuel L))) (\<lambda>_. ret ())
        | NClosed \<Rightarrow> ret () | NTimedOut \<Rightarrow> ret ()) u"
      by (auto intro!: again pong tame_at [OF tame_ret] tame_at [OF close] split: next_msg.splits control.splits)
  qed (rule tame_at [OF tame_fail])
qed simp

section \<open>Properties\<close>

text \<open>C12: The host is never stuck in an attempt: whatever the viewer, the server and the network do,
  and for a user who answers late or never, every run of \<open>attempt\<close> returns, with a session or a
  failure, once the fuel exceeds what the waiting times let the viewer send.\<close>

theorem attempt_returns:
  assumes "host_ready clk work k (hc_timeouts cfg) approve L" and "attempt L cfg approve s = (r, s')"
  shows "r \<noteq> Hang \<and> clk (world s) \<le> clk (world s')"
  using wpD [OF attempt_tame [OF assms(1), unfolded tame_def, rule_format] assms(2)] .

text \<open>C14: Serving a session ends: \<open>serve_pings\<close> returns at its limit, however many messages the viewer
  keeps sending, because each message it can send before the limit is one the fuel pays for.\<close>

theorem serve_pings_returns:
  assumes "punctual clk work k T L" and "d < l_fuel L" and "length (pending c) + k * d < l_fuel L"
    and "serve_pings L d (c, s) = (r, c', s')"
  shows "r \<noteq> Hang \<and> clk (world s) \<le> clk (world s')"
proof -
  have loop: "tame_at (crun_clock clk) (serve_pings_loop L (l_fuel L) (clk (world s) + d)) u"
    if "clk (world s) < clk (world (snd u))" "fst u = c" for u
  proof (rule serve_pings_loop_tame [OF assms(1)])
    have "clk (world s) + d \<le> clk (world (snd u)) + d" using that(1) by simp
    from backlog_waiting(2) [where s = u and D = "clk (world s) + d" and d = d and k = k and clk = clk, OF this] assms(3) that(2)
    show "run_backlog clk k (clk (world s) + d) u < l_fuel L" by (simp add: waiting_def)
  qed (use that(1) assms(2) in linarith)
  have "tame_at (crun_clock clk) (serve_pings L d) (c, s)"
    unfolding serve_pings_def by (rule tame_at_get_now [OF assms(1)]) (auto intro!: loop)
  from wpD [OF this [unfolded tame_at_def] assms(4)] show ?thesis by simp
qed

text \<open>A viewer that leaves as soon as it has joined.\<close>

definition left_host ::
  "(nat, rtc_output option, unit, bytes, bytes \<times> bytes, bytes \<times> bytes, byte, byte, byte) host_libs"
where
  "left_host =
     \<lparr>l_os = sample_os, l_rtc = sample_rtc, l_wire = sample_wire, l_aead = sample_aead,
      l_spake = sample_spake, l_id = sample_id_lib, l_rng = (\<lambda>w. ([9], w)),
      l_send = (\<lambda>m w. (Ok (), w)), l_recv = (\<lambda>t w. (Ok (Some SHViewerLeft), Suc w)), l_drop = Pair (), l_fuel = 20\<rparr>"

definition hasty_config :: "(byte, byte) host_config" where
  "hasty_config = sample_host_config
     \<lparr>hc_timeouts := \<lparr>signaling_step = 1, connect_limit = 2, approval_limit = 3\<rparr>\<rparr>"

lemma left_host_punctual: "punctual (\<lambda>w. w) (\<lambda>r. case r of None \<Rightarrow> 0 | Some _ \<Rightarrow> 1) 2 T left_host"
proof -
  have "keeps (\<lambda>w. w) (udp_bind sample_os a)" "keeps (\<lambda>w. w) (udp_nonblocking sample_os h)"
    "keeps (\<lambda>w. w) (udp_local_addr sample_os h)" for a h
    by (simp_all add: keeps_def sample_os_def)
  then show ?thesis
    by (simp add: punctual_def left_host_def sample_os_ok sample_rtc_drains tame_def wp_def keeps_def [of _ "\<lambda>w. ([9], w)"]
        keeps_def [of _ "Pair ()"])
qed

lemma left_host_ready:
  "host_ready (\<lambda>w. w) (\<lambda>r. case r of None \<Rightarrow> 0 | Some _ \<Rightarrow> 1) 2 (hc_timeouts hasty_config) (\<lambda>_. Pair None) left_host"
proof -
  have settled: "u32_from_be (replicate 4 0) < code_limit" by code_simp
  have "draws_settle (os_random sample_os 4) 20"
    using settled by (auto simp: draws_settle_def accepted_draw_def sample_os_def intro!: exI [of _ 0])
  then show ?thesis
    unfolding host_ready_def
    by (intro conjI left_host_punctual)
      (simp_all add: host_fuel_def hasty_config_def left_host_def keeps_def sample_os_def)
qed

definition left_run :: "nat host_run" where
  "left_run = \<lparr>world = 0, history = [], h_code = lit ''123456'', h_limiter = limiter_new\<rparr>"

lemma left_attempt:
  "attempt left_host hasty_config approve left_run =
     (Ok ViewerLeft, left_run\<lparr>world := 2, history := [EvChecked 0 (Inr ()), EvGot (Some SHViewerLeft)]\<rparr>)"
  by (simp add: attempt_def attempt_got_start_def recv_relay_def get_now_def now_def left_run_def left_host_def sample_os_def
      link_recv_def noting_def in_world_def record_event_def ext_total_def run_simps numeral_2_eq_2)

theorem attempt_returns_witness:
  "(Ok ViewerLeft :: (host_error, rtc_output option serve_outcome) res) \<noteq> Hang \<and> (0 :: nat) \<le> 2"
  using attempt_returns [OF left_host_ready left_attempt] by simp

text \<open>One ping of the viewer is waiting; it is answered, and then the time is over.\<close>

definition pinged_channel :: "rtc_output option channel" where
  "pinged_channel =
     \<lparr>ch_peer = \<lparr>rtc = None, sockets = [], control_id = Some 7\<rparr>, pending = [sample_control_to (CPing 5)],
      remote_closed = False, local_closed = False\<rparr>"

lemma left_host_simps [simp]:
  "l_os left_host = sample_os" "l_rtc left_host = sample_rtc" "l_wire left_host = sample_wire" "l_fuel left_host = 20"
  by (simp_all add: left_host_def)

lemma left_now [simp]: "get_now left_host s = (Ok (world s), s\<lparr>world := Suc (world s)\<rparr>)"
  by (simp add: get_now_def in_world_def now_def ext_total_def sample_os_def)

lemma Suc_nineteen: "Suc 19 = 20"
  by simp

lemmas loop20 =
  serve_pings_loop.simps(2) [where n = 19, unfolded Suc_nineteen]
  serve_pings_loop.simps(2) [where n = 18, simplified]
  channel_next.simps(2) [where n = 19, unfolded Suc_nineteen]

lemma pinged_next:
  "c_next left_host d (pinged_channel, s) =
     (Ok (NMsg (CPing 5)), pinged_channel\<lparr>pending := []\<rparr>, s\<lparr>history := history s @ [EvHeard (NMsg (CPing 5))]\<rparr>)"
proof -
  have "length (sample_control_to (CPing 5)) \<le> MAX_CONTROL_BYTES" by code_simp
  then have "control_decode sample_wire (sample_control_to (CPing 5)) = Inr (CPing 5)"
    by (intro control_roundtrip [OF sample_wire_ok]) (simp_all add: sample_wire_def)
  then show ?thesis
    by (simp add: c_next_def loop20 noting_c_def on_chan_def run_simps on_snd_def pinged_channel_def
        ch_pop_def pop_pending_def record_event_def del: sample_control_to.simps)
qed

lemma pinged_over:
  "c_next left_host 0 (pinged_channel\<lparr>pending := []\<rparr>, s) =
     (Ok NTimedOut, pinged_channel\<lparr>pending := []\<rparr>,
      s\<lparr>world := Suc (world s), history := history s @ [EvHeard NTimedOut]\<rparr>)"
  by (simp add: c_next_def loop20 noting_c_def on_chan_def run_simps on_snd_def pinged_channel_def now_def
      ext_total_def ch_pop_def pop_pending_def record_event_def sample_os_def del: sample_control_to.simps)

lemma ponged:
  "c_send left_host m (pinged_channel\<lparr>pending := []\<rparr>, s) =
     (Ok (), pinged_channel\<lparr>pending := []\<rparr>, s\<lparr>history := history s @ [EvTold m]\<rparr>)"
  by (simp add: c_send_def noting_c_def on_chan_def channel_send_def control_encode_def sample_wire_def
      on_peer_def peer_send_def run_simps pinged_channel_def rtc_call_def sample_rtc_def
      on_snd_def record_event_def del: sample_control_to.simps)

lemma pinged_run:
  "serve_pings left_host 0 (pinged_channel, left_run) =
     (Ok (), pinged_channel\<lparr>pending := []\<rparr>,
      left_run\<lparr>world := 2, history := [EvHeard (NMsg (CPing 5)), EvTold (CPong 5), EvHeard NTimedOut]\<rparr>)"
  by (simp add: serve_pings_def loop20 run_simps on_snd_def left_run_def pinged_next pinged_over ponged
      numeral_2_eq_2)

theorem serve_pings_returns_witness:
  "(Ok () :: (host_error, unit) res) \<noteq> Hang \<and> (0 :: nat) \<le> 2"
proof -
  have "length (pending pinged_channel) + 2 * 0 < l_fuel left_host" "(0 :: nat) < l_fuel left_host"
    by (simp_all add: pinged_channel_def left_host_def)
  from serve_pings_returns [OF left_host_punctual this(2,1) pinged_run] show ?thesis by simp
qed

end
