(* ===== verification/Register.thy ===== *)
theory Register
  imports Link Identity
begin

text \<open>
  \<open>apps/host-agent/src/register.rs\<close>: the host proves its device key to the signaling server and is
  given an id.  The exchange is parametric in how a message is sent, so that a property can speak of
  every message it sends; \<open>register_host\<close> runs it on a new WebSocket link.
\<close>

section \<open>The registration\<close>

definition AUTH_PREFIX :: bytes where
  "AUTH_PREFIX = blit ''simple-remote signaling auth v1''"

definition REGISTER_STEP :: duration where
  "REGISTER_STEP = secs 15"

datatype register_error = RLink link_error | RProtocol string

definition is_host_id :: "ustr \<Rightarrow> bool" where
  "is_host_id i \<longleftrightarrow> length (as_bytes i) = 9 \<and> list_all (\<lambda>b. 48 \<le> b \<and> b \<le> 57) (as_bytes i)"

text \<open>The URL of the request: a new id, or the old one again.\<close>

definition register_url :: "ustr \<Rightarrow> ustr \<Rightarrow> ustr option \<Rightarrow> register_error + ustr" where
  "register_url server key i =
     (case i of
        None \<Rightarrow> Inr (server @ lit ''/v1/host?key='' @ key)
      | Some i \<Rightarrow>
          if \<not> is_host_id i then Inl (RProtocol ''bad host id'')
          else Inr (server @ lit ''/v1/host/'' @ i @ lit ''?key='' @ key))"

fun expect_challenge :: "server_to_host option \<Rightarrow> register_error + ustr \<times> ustr" where
  "expect_challenge (Some (SHChallenge nonce i)) = Inr (nonce, i)"
| "expect_challenge (Some _) = Inl (RProtocol ''expected challenge'')"
| "expect_challenge None = Inl (RProtocol ''no challenge'')"

text \<open>The checks on the challenge, which give the bytes of the nonce.\<close>

definition check_challenge ::
  "wire \<Rightarrow> ustr option \<Rightarrow> ustr \<times> ustr \<Rightarrow> register_error + bytes \<times> ustr"
where
  "check_challenge w i c =
     (case c of (nonce, challenge_id) \<Rightarrow>
       (case hex_dec w nonce of
          None \<Rightarrow> Inl (RProtocol ''bad challenge nonce'')
        | Some n \<Rightarrow>
            if length n \<noteq> 32 then Inl (RProtocol ''bad challenge nonce'')
            else if \<not> is_host_id challenge_id then Inl (RProtocol ''bad challenge id'')
            else if (case i of None \<Rightarrow> False | Some j \<Rightarrow> j \<noteq> challenge_id) then Inl (RProtocol ''challenge for another id'')
            else Inr (n, challenge_id)))"

definition auth_message :: "bytes \<Rightarrow> ustr \<Rightarrow> bytes" where
  "auth_message nonce challenge_id = AUTH_PREFIX @ nonce @ as_bytes challenge_id"

fun registered_as :: "ustr \<Rightarrow> server_to_host option \<Rightarrow> register_error + ustr" where
  "registered_as challenge_id (Some (SHRegistered i)) =
     (if i = challenge_id then Inr i else Inl (RProtocol ''registered another id''))"
| "registered_as challenge_id (Some _) = Inl (RProtocol ''expected registered'')"
| "registered_as challenge_id None = Inl (RProtocol ''no registered'')"

definition register_exchange ::
  "(host_to_server \<Rightarrow> ('s, link_error, unit) prog) \<Rightarrow>
   (duration \<Rightarrow> ('s, link_error, server_to_host option) prog) \<Rightarrow>
   wire \<Rightarrow> ('sk, 'xk, 'rnd) id_lib \<Rightarrow> ('sk, 'xk) device_keys \<Rightarrow> ustr option \<Rightarrow>
   ('s, register_error, ustr) prog"
where
  "register_exchange send recv w idl keys i =
     bnd (map_err RLink (recv REGISTER_STEP)) (\<lambda>m.
     bnd (lift_sum (expect_challenge m)) (\<lambda>c.
     bnd (lift_sum (check_challenge w i c)) (\<lambda>(nonce, challenge_id).
     bnd (map_err RLink (send (HSAuth (hex_enc w (sign_raw idl keys (auth_message nonce challenge_id)))))) (\<lambda>_.
     bnd (map_err RLink (recv REGISTER_STEP)) (\<lambda>m.
     lift_sum (registered_as challenge_id m))))))"

text \<open>A program of the new link, which is returned with its result or dropped.\<close>

definition with_link ::
  "'ws ws_link \<Rightarrow> ('ws ws_link \<times> 'w, 'x, 'a) prog \<Rightarrow> ('w, 'x, 'a \<times> 'ws ws_link) prog"
where
  "with_link l m w =
     (case bnd m (\<lambda>a. bnd (gets fst) (\<lambda>l'. ret (a, l'))) (l, w) of (r, s) \<Rightarrow> (r, snd s))"

definition register_via ::
  "'w os \<Rightarrow> ('ws, 'w) ws_lib \<Rightarrow> (server_to_host, host_to_server) json \<Rightarrow> nat \<Rightarrow>
   (host_to_server \<Rightarrow> ('ws ws_link \<times> 'w, link_error, unit) prog) \<Rightarrow> wire \<Rightarrow> ('sk, 'xk, 'rnd) id_lib \<Rightarrow>
   ustr \<Rightarrow> ('sk, 'xk) device_keys \<Rightarrow> ustr option \<Rightarrow> ('w, register_error, ustr \<times> 'ws ws_link) prog"
where
  "register_via sys lib js n send w idl server keys i =
     bnd (lift_sum (register_url server (hex_enc w (device_public idl keys)) i)) (\<lambda>url.
     bnd (map_err RLink (ws_connect sys lib url)) (\<lambda>link.
     with_link link (register_exchange send (ws_recv sys lib js n) w idl keys i)))"

definition register_host ::
  "'w os \<Rightarrow> ('ws, 'w) ws_lib \<Rightarrow> (server_to_host, host_to_server) json \<Rightarrow> nat \<Rightarrow> wire \<Rightarrow>
   ('sk, 'xk, 'rnd) id_lib \<Rightarrow> ustr \<Rightarrow> ('sk, 'xk) device_keys \<Rightarrow> ustr option \<Rightarrow>
   ('w, register_error, ustr \<times> 'ws ws_link) prog"
where
  "register_host sys lib js n = register_via sys lib js n (ws_send lib js)"

section \<open>Lemmas\<close>

text \<open>A send that stops the program on a message outside \<open>P\<close>.\<close>

definition only :: "('o \<Rightarrow> bool) \<Rightarrow> ('o \<Rightarrow> ('s, 'x, unit) prog) \<Rightarrow> 'o \<Rightarrow> ('s, 'x, unit) prog" where
  "only P send m = (if P m then send m else panic)"

text \<open>The one message the host may send: its signature over a challenge for a proper id.\<close>

definition proof_of_key ::
  "wire \<Rightarrow> ('sk, 'xk, 'rnd) id_lib \<Rightarrow> ('sk, 'xk) device_keys \<Rightarrow> ustr option \<Rightarrow> host_to_server \<Rightarrow> bool"
where
  "proof_of_key w idl keys i m \<longleftrightarrow>
     (\<exists>nonce cid. length nonce = 32 \<and> is_host_id cid \<and> (i = None \<or> i = Some cid) \<and>
        m = HSAuth (hex_enc w (sign_raw idl keys (auth_message nonce cid))))"

lemma check_challenge_Inr:
  "check_challenge w i c = Inr (nonce, cid) \<longleftrightarrow>
     (\<exists>h. c = (h, cid) \<and> hex_dec w h = Some nonce) \<and> length nonce = 32 \<and> is_host_id cid \<and>
     (i = None \<or> i = Some cid)"
  by (cases c) (auto simp: check_challenge_def split: option.splits if_splits)

lemma registered_as_Inr: "registered_as cid m = Inr j \<longleftrightarrow> j = cid \<and> m = Some (SHRegistered cid)"
  by (cases "(cid, m)" rule: registered_as.cases) auto

lemma bnd_cong_sum: "(\<And>a. v = Inr a \<Longrightarrow> f a = g a) \<Longrightarrow> bnd (lift_sum v) f = bnd (lift_sum v) g"
  by (cases v) (simp_all add: bnd_def handle_def fun_eq_iff ret_def fail_def)

lemma exchange_only:
  "register_exchange send recv w idl keys i =
   register_exchange (only (proof_of_key w idl keys i) send) recv w idl keys i"
proof -
  have "only (proof_of_key w idl keys i) send (HSAuth (hex_enc w (sign_raw idl keys (auth_message nonce cid)))) =
      send (HSAuth (hex_enc w (sign_raw idl keys (auth_message nonce cid))))"
    if "check_challenge w i c = Inr (nonce, cid)" for c nonce cid
    using that by (auto simp: only_def proof_of_key_def check_challenge_Inr fun_eq_iff)
  then show ?thesis
    unfolding register_exchange_def
    by (rule_tac arg_cong [of _ _ "bnd _"], rule_tac ext, rule_tac arg_cong [of _ _ "bnd _"], rule_tac ext,
        rule_tac bnd_cong_sum, auto)
qed

section \<open>What each outcome means\<close>

lemma exchange_ok:
  "wp (register_exchange send recv w idl keys i)
     (\<lambda>r s. \<forall>cid. r = Ok cid \<longrightarrow> is_host_id cid \<and> (i = None \<or> i = Some cid)) s" (is "wp _ ?Q s")
proof -
  have told: "wp (bnd (map_err RLink (send m)) (\<lambda>_. bnd (map_err RLink (recv d))
      (\<lambda>m. lift_sum (registered_as cid m)))) ?Q u" if "is_host_id cid" "i = None \<or> i = Some cid" for m d cid u
    using that by (intro wp_bnd_any) (auto simp: wp_lift_sum registered_as_Inr split: sum.splits)
  have checked: "wp (bnd (lift_sum (check_challenge w i c)) (\<lambda>(nonce, cid).
      bnd (map_err RLink (send (HSAuth (hex_enc w (sign_raw idl keys (auth_message nonce cid))))))
        (\<lambda>_. bnd (map_err RLink (recv d)) (\<lambda>m. lift_sum (registered_as cid m))))) ?Q u" for c d u
    unfolding wp_bnd [of "lift_sum _"] wp_lift_sum
    by (auto simp: check_challenge_Inr intro!: told split: sum.splits)
  show ?thesis
    unfolding register_exchange_def by (intro wp_bnd_any checked) simp_all
qed

lemma wp_with_link:
  "wp (with_link l m) Q w =
     wp m (after (\<lambda>a s. Q (Ok (a, fst s)) (snd s)) (\<lambda>x s. Q (Err x) (snd s)) (\<lambda>r s. Q r (snd s))) (l, w)"
  by (auto simp: wp_def with_link_def bnd_def handle_def gets_def ret_def fail_def after_def
      split: prod.splits res.splits)

lemma ws_connect_no_hang: "wp (ws_connect sys lib url) (\<lambda>r w. r \<noteq> Hang) w"
proof -
  have addrs: "wp (connect_addrs sys as e) (\<lambda>r w. r \<noteq> Hang) u" for as e u
    by (induction as arbitrary: e u) (auto simp: wp_rules split: prod.splits sum.splits)
  have tcp: "wp (connect_tcp sys h p) (\<lambda>r w. r \<noteq> Hang) u" for h p u
    unfolding connect_tcp_def Let_def
    by (auto simp: wp_rules intro!: addrs split: prod.splits sum.splits)
  show ?thesis
    unfolding ws_connect_def Let_def
    by (auto simp: wp_bnd [of "lift_sum _"] wp_lift_sum wp_bnd [of "ext_total _"] wp_ext_total wp_fail
        wp_bnd [of "connect_tcp _ _ _"] wp_bnd [of "map_err _ _"] wp_map_err wp_ext wp_handle wp_ret after_def
        intro!: wp_mono [OF tcp]
        split: sum.splits option.splits prod.splits handshake_error.splits res.splits)
qed

text \<open>No part of the exchange hangs.\<close>

definition comes_back :: "('s, 'x, 'a) prog \<Rightarrow> bool" where
  "comes_back m \<longleftrightarrow> (\<forall>s. wp m (\<lambda>r s'. r \<noteq> Hang) s)"

lemma comes_backI: "(\<And>s. wp m (\<lambda>r s'. r \<noteq> Hang) s) \<Longrightarrow> comes_back m"
  by (simp add: comes_back_def)

lemma comes_backD: "comes_back m \<Longrightarrow> wp m (\<lambda>r s'. r \<noteq> Hang) s"
  by (simp add: comes_back_def)

lemma comes_back_bnd: "comes_back m \<Longrightarrow> (\<And>a. comes_back (f a)) \<Longrightarrow> comes_back (bnd m f)"
  by (rule comes_backI, unfold wp_bnd, rule wp_mono [OF comes_backD])
    (auto simp: after_def comes_backD split: res.splits)

lemma comes_back_map_err: "comes_back m \<Longrightarrow> comes_back (map_err h m)"
  by (rule comes_backI, unfold wp_map_err, rule wp_mono [OF comes_backD])
    (auto simp: after_def split: res.splits)

lemma comes_back_lift: "comes_back (lift_sum v)"
  by (cases v) (auto simp: comes_back_def wp_rules)

lemma comes_back_tame:
  assumes "\<And>s. tame_at clk m s"
  shows "comes_back m"
proof (rule comes_backI)
  fix s
  from assms [unfolded tame_at_def] show "wp m (\<lambda>r s'. r \<noteq> Hang) s" by (rule wp_mono) simp
qed

lemma ws_send_comes_back: "comes_back (ws_send lib js m)"
proof -
  have "wp (map_after_error lib e) (\<lambda>r s'. r \<noteq> Hang) s" for e s
    by (cases e) (auto simp: map_after_error_def wp_rules)
  then show ?thesis
    unfolding comes_back_def ws_send_def by (auto simp: wp_rules split: option.splits sum.splits prod.splits)
qed

lemma exchange_comes_back:
  "(\<And>m. comes_back (send m)) \<Longrightarrow> comes_back (recv REGISTER_STEP) \<Longrightarrow>
   comes_back (register_exchange send recv w idl keys i)"
  unfolding register_exchange_def
  by (auto intro!: comes_back_bnd comes_back_map_err comes_back_lift split: prod.splits)

section \<open>A registration that succeeds\<close>

definition register_ws :: "(ws_msg list, nat) ws_lib" where
  "register_ws = sample_ws
     \<lparr>uri_parse := (\<lambda>u. Some \<lparr>u_scheme = Some (lit ''wss''), u_authority = Some (lit ''h''), u_port = None\<rparr>),
      tls_connect := (\<lambda>u s a b w. (Inr [WText [5], WText [6]], w))\<rparr>"

definition register_json :: "(server_to_host, host_to_server) json" where
  "register_json =
     \<lparr>json_to = (\<lambda>m. Inr []),
      json_from = (\<lambda>t. Inr (if t = [5] then SHChallenge [] (lit ''123456789'') else SHRegistered (lit ''123456789'')))\<rparr>"

definition register_os :: "nat os" where
  "register_os = sample_os\<lparr>tcp_resolve := (\<lambda>h p w. (Inr [(V4 0x0A000001, 443)], w))\<rparr>"

definition register_wire :: wire where
  "register_wire =
     \<lparr>control_to = (\<lambda>m. None), control_from = (\<lambda>b. None), pake_to = (\<lambda>m. None), pake_from = (\<lambda>b. None),
      hex_enc = (\<lambda>b. []), hex_dec = (\<lambda>s. Some (replicate 32 7))\<rparr>"

definition register_keys :: "(byte, byte) device_keys" where
  "register_keys = \<lparr>signing_key = 1, reconnect_secret = 2, dk_name = []\<rparr>"

lemma register_os_ticking: "ticking (\<lambda>w. w) register_os"
  by (simp add: ticking_def register_os_def sample_os_def)

lemma register_ws_keeps:
  "keeps (link_clock (\<lambda>w. w)) (ws_read register_ws)"
  "keeps (link_clock (\<lambda>w. w)) (ws_read_timeout register_ws d)"
  using sample_ws_keeps by (simp_all add: register_ws_def)

lemma sample_id_digits: "is_host_id (lit ''123456789'')"
  by code_simp

lemma register_run:
  "register_host register_os register_ws register_json (Suc REGISTER_STEP) register_wire sample_id_lib
     (lit ''wss://h'') register_keys None 0 =
   (Ok (lit ''123456789'', \<lparr>ws_sock = [], ws_closed = None\<rparr>), 4)"
proof -
  have "ensure_secure_url register_ws u = Inr \<lparr>u_scheme = Some (lit ''wss''), u_authority = Some (lit ''h''), u_port = None\<rparr>"
    for u
    by (simp add: ensure_secure_url_def register_ws_def eq_ignore_ascii_case_def)
  moreover have "REGISTER_STEP = Suc (Suc (REGISTER_STEP - 2))" by (simp add: REGISTER_STEP_def secs_def)
  then obtain m where "REGISTER_STEP = Suc (Suc m)" ..
  ultimately show ?thesis
    by (simp add: register_host_def register_via_def register_url_def run_simps ws_connect_def Let_def
        ext_total_def ext_def connect_tcp_def with_link_def register_exchange_def ws_recv_def ws_send_def
        on_snd_def now_def on_ws_def set_read_timeout_def check_challenge_def sample_id_digits
        register_os_def sample_os_def register_ws_def sample_ws_def register_json_def register_wire_def
        sample_id_lib_def)
qed

lemma register_ips: "local_ips register_os w = (Ok [V4 0x0A000001, V4 0x0A000001], w)"
  by (simp add: local_ips_def local_ip_for_def Let_def run_simps attempt_ok_def ext_def register_os_def sample_os_def
      is_loopback_def is_unspecified_def)

section \<open>Properties\<close>

text \<open>C27: The host's key signs nothing else at registration: with a guard that would stop the program on
  any other message, \<open>register_host\<close> is the same program; so it sends at most one kind of message, its
  signature over prefix, a nonce of 32 bytes and a nine-digit id, which is the requested one if any.\<close>

theorem register_signs_only_challenges:
  "register_host sys lib js n w idl server keys i =
   register_via sys lib js n (only (proof_of_key w idl keys i) (ws_send lib js)) w idl server keys i"
  unfolding register_host_def register_via_def by (subst exchange_only) (rule refl)

text \<open>C26: Signatures do not cross protocols: what the host signs for the signaling server is never the
  text of a Hello, nor of a reconnect key, and those two never coincide, whatever nonce, id, keys,
  fingerprints and name an attacker chooses.\<close>

theorem signed_messages_disjoint:
  "auth_message nonce cid \<noteq> session_message r binding own peer name \<and>
   auth_message nonce cid \<noteq> reconnect_message key \<and>
   session_message r binding own peer name \<noteq> reconnect_message key"
proof -
  have nth: "auth_message nonce cid ! 14 = 115" "session_message r binding own peer name ! 14 = 104"
    "reconnect_message key ! 14 = 114"
    by (simp_all add: auth_message_def session_message_def reconnect_message_def AUTH_PREFIX_def
        HELLO_CONTEXT_def RECONNECT_KEY_CONTEXT_def blit_def nth_append)
  moreover have "(115 :: byte) \<noteq> 104" "(115 :: byte) \<noteq> 114" "(104 :: byte) \<noteq> 114" by simp_all
  ultimately show ?thesis by metis
qed

text \<open>C28: Registration returns, with a proper id or an error: with a clock that advances and fuel for one
  step's timeout it never hangs, and an id it returns has nine digits and is the one asked for.\<close>

theorem register_host_returns:
  assumes "ticking clk sys" "keeps (link_clock clk) (ws_read lib)"
    "\<forall>d. keeps (link_clock clk) (ws_read_timeout lib d)" and "REGISTER_STEP < n"
    and "register_host sys lib js n w idl server keys i s = (r, s')"
  shows "r \<noteq> Hang \<and> (\<forall>cid l. r = Ok (cid, l) \<longrightarrow> is_host_id cid \<and> (i = None \<or> i = Some cid))"
proof -
  let ?m = "register_exchange (ws_send lib js) (ws_recv sys lib js n) w idl keys i"
  let ?ok = "\<lambda>cid. is_host_id cid \<and> (i = None \<or> i = Some cid)"
  let ?Q = "\<lambda>r (s' :: _). case r of Ok (cid, l) \<Rightarrow> ?ok cid | Hang \<Rightarrow> False | _ \<Rightarrow> True"
  have "comes_back (ws_recv sys lib js n REGISTER_STEP)"
    by (rule comes_back_tame [OF ws_recv_returns [OF assms(1,2) spec [OF assms(3)] assms(4)]])
  then have "comes_back ?m" by (intro exchange_comes_back ws_send_comes_back)
  then have "wp ?m (\<lambda>r u. r \<noteq> Hang \<and> (\<forall>cid. r = Ok cid \<longrightarrow> is_host_id cid \<and> (i = None \<or> i = Some cid))) u" for u
    by (rule wp_conj [OF comes_backD exchange_ok])
  then have linked: "wp (with_link l ?m) ?Q u" for l u
    unfolding wp_with_link by (rule wp_mono) (auto simp: after_def split: res.splits)
  have "wp (register_host sys lib js n w idl server keys i) ?Q s"
    unfolding register_host_def register_via_def
    by (auto simp: wp_bnd [of "lift_sum _"] wp_lift_sum wp_bnd [of "map_err _ _"] wp_map_err after_def
        intro!: wp_mono [OF ws_connect_no_hang] linked split: sum.splits res.splits)
  from wpD [OF this assms(5)] show ?thesis by auto
qed

theorem register_host_returns_witness:
  "is_host_id (lit ''123456789'') \<and> ((None :: ustr option) = None \<or> (None :: ustr option) = Some (lit ''123456789''))"
  using register_host_returns [OF register_os_ticking register_ws_keeps(1) allI [OF register_ws_keeps(2)]
      lessI register_run] by simp

end
