(* ===== verification/FakeSignal.thy ===== *)
theory FakeSignal
  imports Link
begin

text \<open>
  \<open>crates/transport/src/fake_signal.rs\<close>: the in-memory signaling hub that stands in for the server in
  the tests of the two sides.  The \<open>mpsc\<close> channels are queues: the host's one is part of the hub, the
  viewers' ones are numbered in the order they are made; the sender of such a queue lives in the
  viewer's slot only, so that a queue without a slot is disconnected.  The mutex makes every operation
  one step; operations of the host and of several viewers interleave as a list of operations.
\<close>

section \<open>The hub\<close>

datatype viewer_envelope = VeMsg server_to_viewer | VeClosed u16

record viewer_slot =
  slot_generation :: u64
  slot_tx :: nat

record hub =
  host_tx :: "server_to_host list"
  host_relays :: "bytes list"
  slot :: "viewer_slot option"
  next_generation :: u64
  queues :: "nat \<Rightarrow> viewer_envelope list"
  next_queue :: nat

record fake_host_link =
  fh_closed :: "u16 option option"

record fake_viewer_link =
  fv_rx :: nat
  fv_generation :: u64
  fv_closed :: "u16 option option"

definition hub_new :: "hub \<times> fake_host_link" where
  "hub_new =
     (\<lparr>host_tx = [], host_relays = [], slot = None, next_generation = 0, queues = (\<lambda>_. []), next_queue = 0\<rparr>,
      \<lparr>fh_closed = None\<rparr>)"

text \<open>\<open>tx.send\<close> on the queue of a slot, and on the queue of the host.\<close>

definition tell_viewer :: "nat \<Rightarrow> viewer_envelope \<Rightarrow> hub \<Rightarrow> hub" where
  "tell_viewer c e h = h\<lparr>queues := (queues h)(c := queues h c @ [e])\<rparr>"

definition tell_host :: "server_to_host \<Rightarrow> hub \<Rightarrow> hub" where
  "tell_host m h = h\<lparr>host_tx := host_tx h @ [m]\<rparr>"

text \<open>\<open>inner.viewer.take()\<close> followed by the last messages for the viewer in the slot.\<close>

definition take_viewer :: "viewer_envelope list \<Rightarrow> hub \<Rightarrow> hub" where
  "take_viewer es h =
     (case slot h of
        None \<Rightarrow> h
      | Some old \<Rightarrow> (fold (tell_viewer (slot_tx old)) es h)\<lparr>slot := None\<rparr>)"

definition hub_viewer :: "hub \<Rightarrow> fake_viewer_link \<times> hub" where
  "hub_viewer h =
     (let tx = next_queue h;
          h1 = h\<lparr>next_queue := next_queue h + 1\<rparr>;
          generation = next_generation h1;
          h2 = h1\<lparr>next_generation := next_generation h1 + 1\<rparr>;
          h3 = take_viewer [VeClosed 4001] h2;
          h4 = h3\<lparr>slot := Some \<lparr>slot_generation = generation, slot_tx = tx\<rparr>\<rparr>;
          h5 = tell_host SHViewerJoined h4;
          h6 = tell_viewer tx (VeMsg SVJoined) h5
      in (\<lparr>fv_rx = tx, fv_generation = generation, fv_closed = None\<rparr>, h6))"

definition hub_host_relays :: "hub \<Rightarrow> bytes list" where
  "hub_host_relays h = host_relays h"

section \<open>The link of the host\<close>

definition fake_host_send ::
  "wire \<Rightarrow> host_to_server \<Rightarrow> (fake_host_link \<times> hub, link_error, unit) prog"
where
  "fake_host_send w msg s =
     (case fh_closed (fst s) of
        Some code \<Rightarrow> (Err (LClosed code), s)
      | None \<Rightarrow>
          (case msg of
             HSAuth sig \<Rightarrow> (Ok (), s)
           | HSRelay data \<Rightarrow>
               (case hex_dec w data of
                  None \<Rightarrow> (Panic, s)
                | Some bs \<Rightarrow>
                    let h = (snd s)\<lparr>host_relays := host_relays (snd s) @ [bs]\<rparr>
                    in (Ok (), fst s,
                        case slot h of
                          None \<Rightarrow> h
                        | Some viewer \<Rightarrow> tell_viewer (slot_tx viewer) (VeMsg (SVRelay data)) h))
           | HSKick \<Rightarrow> (Ok (), fst s, take_viewer [VeClosed 4001] (snd s))))"

text \<open>The hub keeps a sender of the host's queue, which is therefore never disconnected.\<close>

definition fake_host_recv ::
  "duration \<Rightarrow> (fake_host_link \<times> hub, link_error, server_to_host option) prog"
where
  "fake_host_recv timeout s =
     (case fh_closed (fst s) of
        Some code \<Rightarrow> (Err (LClosed code), s)
      | None \<Rightarrow>
          (case host_tx (snd s) of
             [] \<Rightarrow> (Ok None, s)
           | m # ms \<Rightarrow> (Ok (Some m), fst s, (snd s)\<lparr>host_tx := ms\<rparr>)))"

definition fake_host_drop :: "hub \<Rightarrow> hub" where
  "fake_host_drop h = take_viewer [VeMsg SVHostLeft, VeClosed 4002] h"

section \<open>The link of a viewer\<close>

definition is_current :: "fake_viewer_link \<Rightarrow> hub \<Rightarrow> bool" where
  "is_current v h \<longleftrightarrow> map_option slot_generation (slot h) = Some (fv_generation v)"

fun fake_viewer_send ::
  "viewer_to_server \<Rightarrow> (fake_viewer_link \<times> hub, link_error, unit) prog"
where
  "fake_viewer_send (VSRelay data) s =
     (case fv_closed (fst s) of
        Some code \<Rightarrow> (Err (LClosed code), s)
      | None \<Rightarrow>
          if \<not> is_current (fst s) (snd s) then (Err (LClosed (Some 4001)), s)
          else (Ok (), fst s, tell_host (SHRelay data) (snd s)))"

text \<open>A queue is connected as long as its sender is in the slot.\<close>

definition connected :: "nat \<Rightarrow> hub \<Rightarrow> bool" where
  "connected c h \<longleftrightarrow> map_option slot_tx (slot h) = Some c"

definition fake_viewer_recv ::
  "duration \<Rightarrow> (fake_viewer_link \<times> hub, link_error, server_to_viewer option) prog"
where
  "fake_viewer_recv timeout s =
     (case fv_closed (fst s) of
        Some code \<Rightarrow> (Err (LClosed code), s)
      | None \<Rightarrow>
          (case queues (snd s) (fv_rx (fst s)) of
             VeMsg m # es \<Rightarrow>
               (Ok (Some m), fst s, (snd s)\<lparr>queues := (queues (snd s))(fv_rx (fst s) := es)\<rparr>)
           | VeClosed code # es \<Rightarrow>
               (Err (LClosed (Some code)), (fst s)\<lparr>fv_closed := Some (Some code)\<rparr>,
                (snd s)\<lparr>queues := (queues (snd s))(fv_rx (fst s) := es)\<rparr>)
           | [] \<Rightarrow>
               if connected (fv_rx (fst s)) (snd s) then (Ok None, s)
               else (Err (LClosed None), (fst s)\<lparr>fv_closed := Some None\<rparr>, snd s)))"

definition fake_viewer_drop :: "fake_viewer_link \<Rightarrow> hub \<Rightarrow> hub" where
  "fake_viewer_drop v h =
     (if is_current v h then tell_host SHViewerLeft (h\<lparr>slot := None\<rparr>) else h)"

section \<open>The contract of a link\<close>

interpretation fake_host: sticky_link "fake_host_send w" fake_host_recv "\<lambda>s. fh_closed (fst s)" for w
  by unfold_locales (auto simp: fake_host_send_def fake_host_recv_def split: option.splits list.splits)

interpretation fake_viewer: sticky_link fake_viewer_send fake_viewer_recv "\<lambda>s. fv_closed (fst s)"
proof unfold_locales
  fix s :: "fake_viewer_link \<times> hub" and c m
  assume "fv_closed (fst s) = Some c"
  then show "fake_viewer_send m s = (Err (LClosed c), s)" by (cases m) simp
qed (auto simp: fake_viewer_recv_def split: option.splits list.splits viewer_envelope.splits if_splits)

section \<open>Interleavings\<close>

datatype hub_op =
    HubJoin
  | HubHostSend host_to_server
  | HubHostRecv duration
  | HubHostDrop
  | HubViewerSend nat viewer_to_server
  | HubViewerRecv nat duration
  | HubViewerDrop nat

text \<open>The hub and its links, the viewers by their queues, with two ghosts: what the host relayed while
  a viewer was in the slot, and what a viewer has taken out of its queue.\<close>

record hub_world =
  hw_hub :: hub
  hw_host :: "fake_host_link option"
  hw_viewers :: "nat \<Rightarrow> fake_viewer_link option"
  hw_relayed :: "nat \<Rightarrow> ustr list"
  hw_read :: "nat \<Rightarrow> viewer_envelope list"

definition hub_start :: hub_world where
  "hub_start =
     \<lparr>hw_hub = fst hub_new, hw_host = Some (snd hub_new), hw_viewers = (\<lambda>_. None),
      hw_relayed = (\<lambda>_. []), hw_read = (\<lambda>_. [])\<rparr>"

definition note_relay :: "host_to_server \<Rightarrow> hub \<Rightarrow> (nat \<Rightarrow> ustr list) \<Rightarrow> nat \<Rightarrow> ustr list" where
  "note_relay m h f =
     (case (m, slot h) of
        (HSRelay d, Some s) \<Rightarrow> f(slot_tx s := f (slot_tx s) @ [d])
      | _ \<Rightarrow> f)"

definition taken :: "fake_viewer_link \<Rightarrow> (link_error, server_to_viewer option) res \<Rightarrow> viewer_envelope list" where
  "taken v r =
     (case r of
        Ok (Some m) \<Rightarrow> [VeMsg m]
      | Err (LClosed (Some code)) \<Rightarrow> (if fv_closed v = None then [VeClosed code] else [])
      | _ \<Rightarrow> [])"

fun hub_step :: "wire \<Rightarrow> hub_op \<Rightarrow> hub_world \<Rightarrow> hub_world" where
  "hub_step w HubJoin s =
     (case hub_viewer (hw_hub s) of (v, h) \<Rightarrow>
        s\<lparr>hw_hub := h, hw_viewers := (hw_viewers s)(fv_rx v := Some v)\<rparr>)"
| "hub_step w (HubHostSend m) s =
     (case hw_host s of
        None \<Rightarrow> s
      | Some l \<Rightarrow>
          (case fake_host_send w m (l, hw_hub s) of
             (Ok _, l', h) \<Rightarrow>
               s\<lparr>hw_hub := h, hw_host := Some l', hw_relayed := note_relay m (hw_hub s) (hw_relayed s)\<rparr>
           | (_, l', h) \<Rightarrow> s\<lparr>hw_hub := h, hw_host := Some l'\<rparr>))"
| "hub_step w (HubHostRecv d) s =
     (case hw_host s of
        None \<Rightarrow> s
      | Some l \<Rightarrow> (case fake_host_recv d (l, hw_hub s) of (_, l', h) \<Rightarrow> s\<lparr>hw_hub := h, hw_host := Some l'\<rparr>))"
| "hub_step w HubHostDrop s =
     (case hw_host s of
        None \<Rightarrow> s
      | Some l \<Rightarrow> s\<lparr>hw_hub := fake_host_drop (hw_hub s), hw_host := None\<rparr>)"
| "hub_step w (HubViewerSend c m) s =
     (case hw_viewers s c of
        None \<Rightarrow> s
      | Some v \<Rightarrow>
          (case fake_viewer_send m (v, hw_hub s) of (_, v', h) \<Rightarrow>
             s\<lparr>hw_hub := h, hw_viewers := (hw_viewers s)(c := Some v')\<rparr>))"
| "hub_step w (HubViewerRecv c d) s =
     (case hw_viewers s c of
        None \<Rightarrow> s
      | Some v \<Rightarrow>
          (case fake_viewer_recv d (v, hw_hub s) of (r, v', h) \<Rightarrow>
             s\<lparr>hw_hub := h, hw_viewers := (hw_viewers s)(c := Some v'),
                hw_read := (hw_read s)(c := hw_read s c @ taken v r)\<rparr>))"
| "hub_step w (HubViewerDrop c) s =
     (case hw_viewers s c of
        None \<Rightarrow> s
      | Some v \<Rightarrow> s\<lparr>hw_hub := fake_viewer_drop v (hw_hub s), hw_viewers := (hw_viewers s)(c := None)\<rparr>)"

definition hub_run :: "wire \<Rightarrow> hub_op list \<Rightarrow> hub_world" where
  "hub_run w ops = fold (hub_step w) ops hub_start"

section \<open>The invariant\<close>

text \<open>How the stream of a viewer may end: not yet, by a Kick or a newer viewer, or by the host's leaving.\<close>

definition ending :: "bool \<Rightarrow> bool \<Rightarrow> viewer_envelope list \<Rightarrow> bool" where
  "ending conn gone es \<longleftrightarrow>
     (if conn then es = []
      else es = [VeClosed 4001] \<or> es = [VeMsg SVHostLeft, VeClosed 4002] \<or> es = [] \<and> gone)"

definition stream :: "ustr list \<Rightarrow> viewer_envelope list \<Rightarrow> viewer_envelope list" where
  "stream ds es = VeMsg SVJoined # map (\<lambda>d. VeMsg (SVRelay d)) ds @ es"

definition viewer_fits :: "hub_world \<Rightarrow> nat \<Rightarrow> bool" where
  "viewer_fits s c \<longleftrightarrow>
     (\<exists>es. hw_read s c @ queues (hw_hub s) c = stream (hw_relayed s c) es \<and>
        ending (connected c (hw_hub s)) (hw_viewers s c = None) es) \<and>
     (\<forall>v. hw_viewers s c = Some v \<longrightarrow> fv_rx v = c \<and> fv_generation v = of_nat c \<and>
        (fv_closed v = None \<longleftrightarrow> (\<forall>code. VeClosed code \<notin> set (hw_read s c))))"

definition hub_inv :: "hub_world \<Rightarrow> bool" where
  "hub_inv s \<longleftrightarrow>
     next_generation (hw_hub s) = of_nat (next_queue (hw_hub s)) \<and>
     (\<forall>sl. slot (hw_hub s) = Some sl \<longrightarrow>
        slot_tx sl < next_queue (hw_hub s) \<and> slot_generation sl = of_nat (slot_tx sl) \<and>
        hw_viewers s (slot_tx sl) \<noteq> None) \<and>
     (\<forall>c < next_queue (hw_hub s). viewer_fits s c) \<and>
     (\<forall>c \<ge> next_queue (hw_hub s). queues (hw_hub s) c = [] \<and> hw_read s c = [] \<and> hw_relayed s c = [] \<and>
        hw_viewers s c = None)"

lemma fold_tell: "fold (tell_viewer c) es h = h\<lparr>queues := (queues h)(c := queues h c @ es)\<rparr>"
  by (induction es arbitrary: h) (simp_all add: tell_viewer_def)

lemma take_viewer_eq:
  "take_viewer es h =
     (case slot h of
        None \<Rightarrow> h
      | Some old \<Rightarrow> h\<lparr>queues := (queues h)(slot_tx old := queues h (slot_tx old) @ es), slot := None\<rparr>)"
  by (simp add: take_viewer_def fold_tell split: option.splits)

lemma hub_inv_start: "hub_inv hub_start"
  by (simp add: hub_inv_def hub_start_def hub_new_def)

lemma stream_snoc: "stream ds es @ xs = stream ds (es @ xs)"
  by (simp_all add: stream_def)

text \<open>What the steps do to one viewer: nothing, a relay or an end for the viewer in the slot.\<close>

lemma fits_relay:
  assumes "viewer_fits s c" "connected c (hw_hub s)"
    and "hw_read s' c = hw_read s c" "queues (hw_hub s') c = queues (hw_hub s) c @ [VeMsg (SVRelay d)]"
    and "hw_relayed s' c = hw_relayed s c @ [d]" "connected c (hw_hub s')" "hw_viewers s' c = hw_viewers s c"
  shows "viewer_fits s' c"
proof -
  from assms(1,2) have "hw_read s c @ queues (hw_hub s) c = stream (hw_relayed s c) []"
    by (simp add: viewer_fits_def ending_def)
  then have "hw_read s' c @ queues (hw_hub s') c = stream (hw_relayed s' c) []"
    using assms(3-5) by (simp flip: append_assoc) (simp add: stream_def)
  with assms show ?thesis by (auto simp: viewer_fits_def ending_def)
qed

lemma fits_end:
  assumes "viewer_fits s c" "connected c (hw_hub s)"
    and "hw_read s' c = hw_read s c" "queues (hw_hub s') c = queues (hw_hub s) c @ es"
    and "hw_relayed s' c = hw_relayed s c" "\<not> connected c (hw_hub s')" "hw_viewers s' c = hw_viewers s c"
    and "es = [VeClosed 4001] \<or> es = [VeMsg SVHostLeft, VeClosed 4002]"
  shows "viewer_fits s' c"
proof -
  from assms(1,2) have "hw_read s c @ queues (hw_hub s) c = stream (hw_relayed s c) []"
    by (simp add: viewer_fits_def ending_def)
  then have "hw_read s' c @ queues (hw_hub s') c = stream (hw_relayed s' c) es"
    using assms(3-5) by (simp flip: append_assoc add: stream_snoc)
  with assms show ?thesis by (auto simp: viewer_fits_def ending_def)
qed

lemma fits_same:
  assumes "viewer_fits s c" "hw_read s' c = hw_read s c" "queues (hw_hub s') c = queues (hw_hub s) c"
    and "hw_relayed s' c = hw_relayed s c" "connected c (hw_hub s') = connected c (hw_hub s)"
    and "hw_viewers s' c = hw_viewers s c"
  shows "viewer_fits s' c"
  using assms by (simp add: viewer_fits_def)

text \<open>Taking the viewer out of the slot.\<close>

lemma inv_take:
  assumes inv: "hub_inv s" and es: "es = [VeClosed 4001] \<or> es = [VeMsg SVHostLeft, VeClosed 4002]"
    and s': "hw_hub s' = take_viewer es (hw_hub s)" "hw_read s' = hw_read s" "hw_relayed s' = hw_relayed s"
      "hw_viewers s' = hw_viewers s"
  shows "hub_inv s'"
proof (cases "slot (hw_hub s)")
  case None
  with s' have "hub_inv s' = hub_inv s"
    by (simp add: take_viewer_eq hub_inv_def viewer_fits_def)
  with inv show ?thesis by simp
next
  case (Some old)
  let ?h = "hw_hub s"
  have h': "hw_hub s' = ?h\<lparr>queues := (queues ?h)(slot_tx old := queues ?h (slot_tx old) @ es), slot := None\<rparr>"
    using s'(1) Some by (simp add: take_viewer_eq)
  have old: "slot_tx old < next_queue ?h" using inv Some by (simp add: hub_inv_def)
  have "viewer_fits s' c" if "c < next_queue ?h" for c
  proof (cases "c = slot_tx old")
    case True
    have "viewer_fits s c" using inv that by (simp add: hub_inv_def)
    then show ?thesis
      by (rule fits_end) (use True h' s' es Some in \<open>auto simp: connected_def\<close>)
  next
    case False
    have "viewer_fits s c" using inv that by (simp add: hub_inv_def)
    then show ?thesis
      by (rule fits_same) (use False h' s' Some in \<open>auto simp: connected_def\<close>)
  qed
  then show ?thesis using inv old h' s' by (auto simp: hub_inv_def)
qed

lemma word_id:
  "c < 2 ^ 64 \<Longrightarrow> d < 2 ^ 64 \<Longrightarrow> (of_nat c :: u64) = of_nat d \<longleftrightarrow> c = d"
  by (simp add: word_of_nat_eq_iff take_bit_nat_eq_self)

text \<open>Each operation keeps the invariant, as long as no generation is used twice.\<close>

lemma inv_join:
  assumes "hub_inv s"
  shows "hub_inv (hub_step w HubJoin s)"
proof -
  let ?t = "s\<lparr>hw_hub := take_viewer [VeClosed 4001] (hw_hub s)\<rparr>"
  let ?n = "next_queue (hw_hub s)" and ?s' = "hub_step w HubJoin s"
  have t: "hub_inv ?t" by (rule inv_take [OF assms]) simp_all
  have h: "next_queue (hw_hub ?t) = ?n" "next_generation (hw_hub ?t) = next_generation (hw_hub s)"
    "slot (hw_hub ?t) = None"
    by (simp_all add: take_viewer_eq split: option.splits)
  have gen: "next_generation (hw_hub s) = of_nat ?n" using assms by (simp add: hub_inv_def)
  have new: "queues (hw_hub ?t) ?n = []" "hw_read s ?n = []" "hw_relayed s ?n = []"
    using t h(1) by (auto simp: hub_inv_def)
  have s': "hw_read ?s' = hw_read s" "hw_relayed ?s' = hw_relayed s"
    "hw_viewers ?s' = (hw_viewers s)(?n := Some \<lparr>fv_rx = ?n, fv_generation = of_nat ?n, fv_closed = None\<rparr>)"
    "queues (hw_hub ?s') = (queues (hw_hub ?t))(?n := [VeMsg SVJoined])"
    "slot (hw_hub ?s') = Some \<lparr>slot_generation = of_nat ?n, slot_tx = ?n\<rparr>"
    "next_queue (hw_hub ?s') = Suc ?n" "next_generation (hw_hub ?s') = of_nat (Suc ?n)"
    using new(1) gen
    by (auto simp: hub_viewer_def Let_def take_viewer_eq tell_host_def tell_viewer_def split: option.splits)
  have "viewer_fits ?s' c" if "c < Suc ?n" for c
  proof (cases "c = ?n")
    case True
    then show ?thesis using s' new by (simp add: viewer_fits_def stream_def ending_def connected_def)
  next
    case False
    with that have "viewer_fits ?t c" using t h(1) by (simp add: hub_inv_def)
    then show ?thesis by (rule fits_same) (use False s' h(3) in \<open>auto simp: connected_def\<close>)
  qed
  then show ?thesis using s' t h by (auto simp: hub_inv_def)
qed

lemma inv_host_send:
  assumes inv: "hub_inv s"
  shows "hub_inv (hub_step w (HubHostSend m) s)"
proof -
  have stay: "hub_inv (s\<lparr>hw_hub := hw_hub s, hw_host := l, hw_relayed := hw_relayed s\<rparr>)" for l
    using inv by (simp add: hub_inv_def viewer_fits_def)
  have kick: "hub_inv (s\<lparr>hw_hub := take_viewer [VeClosed 4001] (hw_hub s), hw_host := l, hw_relayed := hw_relayed s\<rparr>)" for l
    by (rule inv_take [OF inv]) simp_all
  have relay: "hub_inv (s\<lparr>hw_hub := (case slot h of None \<Rightarrow> h
        | Some viewer \<Rightarrow> tell_viewer (slot_tx viewer) (VeMsg (SVRelay d)) h), hw_host := l,
        hw_relayed := note_relay (HSRelay d) (hw_hub s) (hw_relayed s)\<rparr>)" (is "hub_inv ?s'")
    if h: "h = (hw_hub s)\<lparr>host_relays := host_relays (hw_hub s) @ [bs]\<rparr>" for h d l bs
  proof (cases "slot (hw_hub s)")
    case None
    with h inv show ?thesis by (simp add: hub_inv_def viewer_fits_def connected_def note_relay_def)
  next
    case (Some v)
    have v: "slot_tx v < next_queue (hw_hub s)" using inv Some by (simp add: hub_inv_def)
    have "viewer_fits ?s' c" if "c < next_queue (hw_hub s)" for c
    proof (cases "c = slot_tx v")
      case True
      have "viewer_fits s c" using inv that by (simp add: hub_inv_def)
      then show ?thesis
        by (rule fits_relay [where d = d])
          (use True Some h in \<open>auto simp: connected_def tell_viewer_def note_relay_def\<close>)
    next
      case False
      have "viewer_fits s c" using inv that by (simp add: hub_inv_def)
      then show ?thesis
        by (rule fits_same) (use False Some h in \<open>auto simp: connected_def tell_viewer_def note_relay_def\<close>)
    qed
    then show ?thesis using inv v Some h by (auto simp: hub_inv_def tell_viewer_def note_relay_def)
  qed
  show ?thesis
  proof (cases "hw_host s")
    case None
    then show ?thesis using inv by simp
  next
    case (Some l)
    show ?thesis
      using Some stay kick relay [OF refl] inv
      by (cases m; cases "fh_closed l")
        (auto simp: fake_host_send_def Let_def note_relay_def hub_inv_def viewer_fits_def split: option.splits)
  qed
qed

text \<open>Operations that leave the queues, the slot and the links of the viewers alone.\<close>

lemma inv_unmoved:
  assumes "hub_inv s" "queues (hw_hub s') = queues (hw_hub s)" "slot (hw_hub s') = slot (hw_hub s)"
    "next_queue (hw_hub s') = next_queue (hw_hub s)" "next_generation (hw_hub s') = next_generation (hw_hub s)"
    "hw_viewers s' = hw_viewers s" "hw_relayed s' = hw_relayed s" "hw_read s' = hw_read s"
  shows "hub_inv s'"
  using assms by (simp add: hub_inv_def viewer_fits_def connected_def)

lemma inv_below: "hub_inv s \<Longrightarrow> hw_viewers s c = Some v \<Longrightarrow> c < next_queue (hw_hub s)"
  by (rule ccontr) (auto simp: hub_inv_def not_less)

lemma fake_host_recv_hub:
  "fake_host_recv d (l, h) = (r, l', h') \<Longrightarrow> queues h' = queues h \<and> slot h' = slot h \<and>
     next_queue h' = next_queue h \<and> next_generation h' = next_generation h"
  by (auto simp: fake_host_recv_def split: option.splits list.splits)

lemma fake_viewer_send_hub:
  "fake_viewer_send m (v, h) = (r, v', h') \<Longrightarrow> queues h' = queues h \<and> slot h' = slot h \<and>
     next_queue h' = next_queue h \<and> next_generation h' = next_generation h \<and> v' = v"
  by (cases m) (auto simp: tell_host_def split: option.splits if_splits)

lemma inv_host_recv:
  assumes "hub_inv s"
  shows "hub_inv (hub_step w (HubHostRecv d) s)"
proof (cases "hw_host s")
  case (Some l)
  obtain r l' h where f: "fake_host_recv d (l, hw_hub s) = (r, l', h)" by (metis prod_cases3)
  show ?thesis
    by (rule inv_unmoved [OF assms]) (use fake_host_recv_hub [OF f] in \<open>simp_all add: Some f\<close>)
qed (simp add: assms)

lemma inv_host_drop:
  assumes "hub_inv s"
  shows "hub_inv (hub_step w HubHostDrop s)"
proof (cases "hw_host s")
  case (Some l)
  show ?thesis
    by (rule inv_take [OF assms, of "[VeMsg SVHostLeft, VeClosed 4002]"]) (simp_all add: Some fake_host_drop_def)
qed (simp add: assms)

lemma inv_viewer_send:
  assumes "hub_inv s"
  shows "hub_inv (hub_step w (HubViewerSend c m) s)"
proof (cases "hw_viewers s c")
  case (Some v)
  obtain r v' h where f: "fake_viewer_send m (v, hw_hub s) = (r, v', h)" by (metis prod_cases3)
  show ?thesis
    by (rule inv_unmoved [OF assms]) (use fake_viewer_send_hub [OF f] in \<open>simp_all add: Some f fun_upd_idem\<close>)
qed (simp add: assms)

lemma inv_viewer_recv:
  assumes inv: "hub_inv s"
  shows "hub_inv (hub_step w (HubViewerRecv c d) s)"
proof (cases "hw_viewers s c")
  case None
  then show ?thesis using inv by simp
next
  case (Some v)
  have c: "c < next_queue (hw_hub s)" by (rule inv_below [OF inv Some])
  then have fits: "viewer_fits s c" using inv by (simp add: hub_inv_def)
  then have v: "fv_rx v = c" "fv_generation v = of_nat c"
    "fv_closed v = None \<longleftrightarrow> (\<forall>code. VeClosed code \<notin> set (hw_read s c))"
    using Some by (auto simp: viewer_fits_def)
  obtain es where es: "hw_read s c @ queues (hw_hub s) c = stream (hw_relayed s c) es"
    "ending (connected c (hw_hub s)) False es"
    using fits Some by (auto simp: viewer_fits_def)
  let ?s' = "hub_step w (HubViewerRecv c d) s"
  have others: "viewer_fits ?s' k = viewer_fits s k" if "k \<noteq> c" for k
    using that Some v(1)
    by (auto simp: viewer_fits_def fake_viewer_recv_def connected_def
        split: option.splits list.splits viewer_envelope.splits)
  have "viewer_fits ?s' c"
  proof (cases "fv_closed v")
    case closed: (Some code)
    then show ?thesis
      using fits Some v by (simp add: fake_viewer_recv_def taken_def viewer_fits_def split: option.splits)
  next
    case open_v: None
    show ?thesis
    proof (cases "queues (hw_hub s) c")
      case Nil
      with es(1) have "hw_read s c = stream (hw_relayed s c) es" by simp
      then have "connected c (hw_hub s)"
        using es(2) v(3) open_v by (auto simp: ending_def stream_def split: if_splits)
      with Nil Some v open_v fits show ?thesis
        by (simp add: fake_viewer_recv_def taken_def viewer_fits_def fun_upd_triv)
    next
      case (Cons e q)
      then show ?thesis
        using Some v open_v es fits
        by (cases e) (auto simp: fake_viewer_recv_def taken_def viewer_fits_def connected_def)
    qed
  qed
  with others have "viewer_fits ?s' k" if "k < next_queue (hw_hub s)" for k
    using inv that by (cases "k = c") (simp_all add: hub_inv_def)
  moreover have "next_queue (hw_hub ?s') = next_queue (hw_hub s)" "next_generation (hw_hub ?s') = next_generation (hw_hub s)"
    "slot (hw_hub ?s') = slot (hw_hub s)" "hw_relayed ?s' = hw_relayed s"
    "\<And>k. k \<noteq> c \<Longrightarrow> queues (hw_hub ?s') k = queues (hw_hub s) k \<and> hw_read ?s' k = hw_read s k \<and> hw_viewers ?s' k = hw_viewers s k"
    "hw_viewers ?s' c \<noteq> None"
    using Some v(1)
    by (auto simp: fake_viewer_recv_def split: option.splits list.splits viewer_envelope.splits)
  ultimately show ?thesis
    using inv c unfolding hub_inv_def by (metis (no_types, lifting) not_le)
qed

lemma inv_viewer_drop:
  assumes inv: "hub_inv s" and few: "next_queue (hw_hub s) < 2 ^ 64"
  shows "hub_inv (hub_step w (HubViewerDrop c) s)"
proof (cases "hw_viewers s c")
  case None
  then show ?thesis using inv by simp
next
  case (Some v)
  have c: "c < next_queue (hw_hub s)" by (rule inv_below [OF inv Some])
  then have v: "fv_generation v = of_nat c" using inv Some by (auto simp: hub_inv_def viewer_fits_def)
  have current: "is_current v (hw_hub s) \<longleftrightarrow> connected c (hw_hub s)"
  proof (cases "slot (hw_hub s)")
    case (Some sl)
    with inv have "slot_tx sl < next_queue (hw_hub s)" "slot_generation sl = of_nat (slot_tx sl)"
      by (auto simp: hub_inv_def)
    with Some v c few show ?thesis
      by (simp add: is_current_def connected_def word_id less_trans [OF _ few])
  qed (simp add: is_current_def connected_def)
  let ?h = "hw_hub s" and ?s' = "hub_step w (HubViewerDrop c) s"
  have s': "hw_read ?s' = hw_read s" "hw_relayed ?s' = hw_relayed s" "queues (hw_hub ?s') = queues ?h"
    "next_queue (hw_hub ?s') = next_queue ?h" "next_generation (hw_hub ?s') = next_generation ?h"
    "hw_viewers ?s' = (hw_viewers s)(c := None)"
    "slot (hw_hub ?s') = (if connected c ?h then None else slot ?h)"
    using Some current by (simp_all add: fake_viewer_drop_def tell_host_def)
  have conn: "connected k (hw_hub ?s') \<longleftrightarrow> k \<noteq> c \<and> connected k ?h" for k
    unfolding connected_def s'(7) by auto
  have "viewer_fits ?s' k" if "k < next_queue ?h" for k
  proof (cases "k = c")
    case True
    have "viewer_fits s k" using inv that by (simp add: hub_inv_def)
    then show ?thesis
      unfolding viewer_fits_def conn s' using True by (auto simp: ending_def split: if_splits)
  next
    case False
    have "viewer_fits s k" using inv that by (simp add: hub_inv_def)
    then show ?thesis by (rule fits_same) (use False s'(1-6) conn in simp_all)
  qed
  moreover have "slot_tx sl < next_queue ?h \<and> slot_generation sl = of_nat (slot_tx sl) \<and> hw_viewers ?s' (slot_tx sl) \<noteq> None"
    if "slot (hw_hub ?s') = Some sl" for sl
  proof -
    from that s'(7) have sl: "slot ?h = Some sl" "\<not> connected c ?h" by (auto split: if_splits)
    then have "slot_tx sl \<noteq> c" by (simp add: connected_def)
    with inv sl(1) show ?thesis unfolding s'(6) by (simp add: hub_inv_def)
  qed
  ultimately show ?thesis
    using inv unfolding hub_inv_def s'(1-6) by auto
qed

lemma next_queue_step: "next_queue (hw_hub (hub_step w op s)) \<le> Suc (next_queue (hw_hub s))"
proof (cases op)
  case (HubViewerSend c m)
  then show ?thesis by (cases m) (auto simp: tell_host_def split: option.splits)
qed (auto simp: hub_viewer_def Let_def take_viewer_eq tell_host_def tell_viewer_def fake_host_send_def
      fake_host_recv_def fake_host_drop_def fake_viewer_recv_def fake_viewer_drop_def
      split: option.splits host_to_server.splits list.splits viewer_envelope.splits)

lemma inv_step:
  assumes "hub_inv s" "next_queue (hw_hub s) < 2 ^ 64"
  shows "hub_inv (hub_step w op s)"
proof (cases op)
  case (HubViewerDrop c)
  then show ?thesis using inv_viewer_drop [OF assms] by (simp only:)
qed (simp_all only: assms(1) inv_join inv_host_send inv_host_recv inv_host_drop inv_viewer_send inv_viewer_recv)

lemma inv_run:
  "length ops < 2 ^ 64 \<Longrightarrow> hub_inv (hub_run w ops) \<and> next_queue (hw_hub (hub_run w ops)) \<le> length ops"
proof (induction ops rule: rev_induct)
  case Nil
  then show ?case using hub_inv_start by (simp add: hub_run_def hub_start_def hub_new_def)
next
  case (snoc op ops)
  then have "hub_inv (hub_run w ops)" "next_queue (hw_hub (hub_run w ops)) \<le> length ops" by simp_all
  with snoc.prems inv_step [of "hub_run w ops" w op] next_queue_step [of w op "hub_run w ops"] show ?case
    by (simp add: hub_run_def)
qed

section \<open>Properties\<close>

text \<open>C34: The hub delivers in order and to the right viewer: whatever the host and the viewers do, in
  whatever order, what a viewer has taken out and what still waits for it are together \<open>Joined\<close>, then
  exactly the relays the host sent while it was the current viewer, in the order sent, and then, only
  once it is no longer current, one ending: code 4001 (kicked or replaced) or \<open>HostLeft\<close> and 4002.\<close>

theorem hub_delivers_in_order:
  assumes "length ops < 2 ^ 64" and "hub_run w ops = s" and "c < next_queue (hw_hub s)"
  shows "\<exists>es. hw_read s c @ queues (hw_hub s) c =
      VeMsg SVJoined # map (\<lambda>d. VeMsg (SVRelay d)) (hw_relayed s c) @ es \<and>
    (if connected c (hw_hub s) then es = []
     else es = [VeClosed 4001] \<or> es = [VeMsg SVHostLeft, VeClosed 4002] \<or> es = [] \<and> hw_viewers s c = None)"
proof -
  have "viewer_fits s c" using inv_run [OF assms(1), of w] assms(2,3) by (auto simp: hub_inv_def)
  then show ?thesis unfolding viewer_fits_def ending_def stream_def by blast
qed

definition sample_ops :: "hub_op list" where
  "sample_ops = [HubJoin, HubHostSend (HSRelay [7]), HubViewerRecv 0 1, HubJoin, HubHostSend (HSRelay [8]),
     HubViewerRecv 0 1, HubViewerRecv 0 1, HubHostSend HSKick]"

definition sample_hub_wire :: wire where
  "sample_hub_wire =
     \<lparr>control_to = (\<lambda>m. None), control_from = (\<lambda>b. None), pake_to = (\<lambda>m. None), pake_from = (\<lambda>b. None),
      hex_enc = (\<lambda>b. []), hex_dec = (\<lambda>s. Some [])\<rparr>"

lemmas hub_simps = hub_run_def sample_ops_def hub_start_def hub_new_def hub_viewer_def Let_def take_viewer_eq
  tell_host_def tell_viewer_def fake_host_send_def fake_viewer_recv_def note_relay_def taken_def sample_hub_wire_def

theorem hub_delivers_in_order_witness:
  "hw_read (hub_run sample_hub_wire sample_ops) 0 @ queues (hw_hub (hub_run sample_hub_wire sample_ops)) 0 =
     [VeMsg SVJoined, VeMsg (SVRelay [7]), VeClosed 4001]"
proof -
  let ?s = "hub_run sample_hub_wire sample_ops"
  have "length sample_ops < 2 ^ 64" by (simp add: sample_ops_def)
  moreover have r: "0 < next_queue (hw_hub ?s)" "hw_relayed ?s 0 = [[7]]" "\<not> connected 0 (hw_hub ?s)"
    "hw_read ?s 0 = [VeMsg SVJoined, VeMsg (SVRelay [7]), VeClosed 4001]"
    by (simp_all add: hub_simps connected_def)
  ultimately show ?thesis using hub_delivers_in_order [OF _ refl r(1)] by auto
qed

text \<open>No link of the hub is ever lost without a word: a viewer that still holds its link is told
  an ending before its queue is disconnected, so that \<open>recv\<close> never reports \<open>Closed\<close> without a code; and
  once it has reported an ending, it reports the same one for ever.\<close>

theorem hub_never_disconnects:
  assumes "length ops < 2 ^ 64" and "hub_run w ops = s" and "hw_viewers s c = Some v"
    and "fake_viewer_recv d (v, hw_hub s) = (Err (LClosed code), t)"
  shows "(fv_closed v = None \<longrightarrow> code \<noteq> None) \<and> calls_closed fake_viewer_send fake_viewer_recv code calls t"
proof
  have inv: "hub_inv s" using inv_run [OF assms(1), of w] assms(2) by simp
  then have fits: "viewer_fits s c" using inv_below [OF inv assms(3)] by (simp add: hub_inv_def)
  show "fv_closed v = None \<longrightarrow> code \<noteq> None"
  proof (intro impI notI)
    assume v: "fv_closed v = None" and "code = None"
    with assms(4) have q: "queues (hw_hub s) (fv_rx v) = []" "\<not> connected (fv_rx v) (hw_hub s)"
      by (auto simp: fake_viewer_recv_def split: list.splits viewer_envelope.splits if_splits)
    moreover have "fv_rx v = c" "\<forall>code. VeClosed code \<notin> set (hw_read s c)"
      using fits assms(3) v by (auto simp: viewer_fits_def)
    ultimately obtain es where "hw_read s c = stream (hw_relayed s c) es" "ending False False es"
      using fits assms(3) by (auto simp: viewer_fits_def)
    with \<open>\<forall>code. VeClosed code \<notin> set (hw_read s c)\<close> show False by (auto simp: ending_def stream_def)
  qed
  show "calls_closed fake_viewer_send fake_viewer_recv code calls t"
    by (rule fake_viewer.closed_for_good [OF assms(4)])
qed

theorem hub_never_disconnects_witness:
  "\<exists>v t. hw_viewers (hub_run sample_hub_wire sample_ops) 0 = Some v \<and>
     fake_viewer_recv 1 (v, hw_hub (hub_run sample_hub_wire sample_ops)) = (Err (LClosed (Some 4001)), t) \<and>
     calls_closed fake_viewer_send fake_viewer_recv (Some 4001) [OpSend (VSRelay []), OpRecv 5] t"
proof -
  let ?s = "hub_run sample_hub_wire sample_ops"
  have ok: "length sample_ops < 2 ^ 64" by (simp add: sample_ops_def)
  have "\<exists>v t. hw_viewers ?s 0 = Some v \<and> fake_viewer_recv 1 (v, hw_hub ?s) = (Err (LClosed (Some 4001)), t)"
    by (simp add: hub_simps)
  then show ?thesis using hub_never_disconnects [OF ok refl] by blast
qed

text \<open>A Kick is for whoever is in the slot: it closes the current viewer with 4001, empties the slot
  and touches no other queue; in particular, after a new viewer has joined it hits the new one.\<close>

theorem kick_hits_current:
  "fake_host_send w HSKick (\<lparr>fh_closed = None\<rparr>, snd (hub_viewer h)) =
     (Ok (), \<lparr>fh_closed = None\<rparr>,
      (snd (hub_viewer h))\<lparr>slot := None,
         queues := (queues (snd (hub_viewer h)))
           (next_queue h := queues (snd (hub_viewer h)) (next_queue h) @ [VeClosed 4001])\<rparr>)"
  by (simp add: fake_host_send_def hub_viewer_def Let_def take_viewer_eq tell_host_def tell_viewer_def
      split: option.splits)

end
