(* ===== verification/Approver.thy ===== *)
theory Approver
  imports HostSession
begin

text \<open>
  The question to the user in \<open>apps/host-agent/src/main.rs\<close>: \<open>Approver\<close> asks a reader thread for one
  line at a time and looks for its answer without waiting.  The two \<open>mpsc\<close> channels are the number of
  lines asked for and the list of answers; a turn of the thread is a step of its own, so that it
  interleaves with the calls of \<open>answer\<close> as a list of events.
\<close>

section \<open>The approver and its reader thread\<close>

record console =
  con_said :: "ustr list"
  con_asks :: nat
  con_answers :: "(instant \<times> ustr option) list"
  con_alive :: bool \<comment> \<open>the thread runs and holds its ends of the channels\<close>

record approver =
  ap_reading :: bool
  ap_asked_at :: "instant option"

definition approver_spawn :: "approver \<times> console" where
  "approver_spawn =
     (\<lparr>ap_reading = False, ap_asked_at = None\<rparr>,
      \<lparr>con_said = [], con_asks = 0, con_answers = [], con_alive = True\<rparr>)"

text \<open>What \<open>read_line\<close> returned: an error, or the number of bytes and the line.\<close>

type_synonym read_line = "io_error + nat \<times> ustr"

fun line_read :: "read_line \<Rightarrow> ustr option" where
  "line_read (Inl e) = None"
| "line_read (Inr (n, l)) = (if n = 0 then None else Some l)"

text \<open>One turn of the thread, which sleeps while nothing is asked for.\<close>

definition reader_turn :: "instant \<Rightarrow> read_line \<Rightarrow> console \<Rightarrow> console" where
  "reader_turn t r c =
     (if con_asks c = 0 \<or> \<not> con_alive c then c
      else c\<lparr>con_asks := con_asks c - 1, con_answers := con_answers c @ [(t, line_read r)]\<rparr>)"

definition say :: "ustr \<Rightarrow> console \<Rightarrow> console" where
  "say line c = c\<lparr>con_said := con_said c @ [line]\<rparr>"

definition question :: "approval_request \<Rightarrow> ustr" where
  "question req =
     lit ''APPROVE? '' @ ar_viewer_name req @ lit '' '' @ ar_viewer_key_fingerprint req @ lit '' [y/N]''"

definition str_trim :: "ustr \<Rightarrow> ustr" where
  "str_trim s = rev (dropWhile is_whitespace (rev (dropWhile is_whitespace s)))"

definition says_yes :: "ustr option \<Rightarrow> bool" where
  "says_yes line = (case line of None \<Rightarrow> False | Some l \<Rightarrow> str_trim l = lit ''y'')"

text \<open>The loop of \<open>answer\<close>, which goes round for each line that is too old.\<close>

function answer_loop :: "instant \<Rightarrow> approver \<Rightarrow> console \<Rightarrow> bool option \<times> approver \<times> console" where
  "answer_loop asked a c =
     (if \<not> ap_reading a \<and> \<not> con_alive c then (Some False, a, c)
      else
        let c1 = (if ap_reading a then c else c\<lparr>con_asks := con_asks c + 1\<rparr>);
            a1 = a\<lparr>ap_reading := True\<rparr>
        in case con_answers c1 of
             [] \<Rightarrow> if con_alive c1 then (None, a1, c1) else (Some False, a1, c1)
           | (at, line) # rest \<Rightarrow>
               let a2 = a1\<lparr>ap_reading := False\<rparr>;
                   c2 = c1\<lparr>con_answers := rest\<rparr>
               in if at < asked then answer_loop asked a2 c2
                  else (Some (says_yes line), a2, c2))"
  by pat_completeness auto
termination
  by (relation "measure (\<lambda>(asked, a, c). length (con_answers c))") (auto split: if_splits)

declare answer_loop.simps [simp del]

text \<open>\<open>answer\<close>; \<open>t\<close> is the reading of the clock after the question is printed.\<close>

definition approver_answer ::
  "instant \<Rightarrow> approval_request \<Rightarrow> approver \<times> console \<Rightarrow> bool option \<times> approver \<times> console"
where
  "approver_answer t req s =
     (case ap_asked_at (fst s) of
        Some asked \<Rightarrow> answer_loop asked (fst s) (snd s)
      | None \<Rightarrow> answer_loop t ((fst s)\<lparr>ap_asked_at := Some t\<rparr>) (say (question req) (snd s)))"

definition end_question :: "approver \<Rightarrow> approver" where
  "end_question a = a\<lparr>ap_asked_at := None\<rparr>"

section \<open>Interleavings\<close>

datatype approval_event =
    Answer instant approval_request
  | ReaderTurn instant read_line
  | EndQuestion

fun approval_step :: "approval_event \<Rightarrow> approver \<times> console \<Rightarrow> approver \<times> console" where
  "approval_step (Answer t req) s = snd (approver_answer t req s)"
| "approval_step (ReaderTurn t r) (a, c) = (a, reader_turn t r c)"
| "approval_step EndQuestion (a, c) = (end_question a, c)"

definition approval_run :: "approval_event list \<Rightarrow> approver \<times> console" where
  "approval_run evs = fold approval_step evs approver_spawn"

text \<open>When the question of the moment was shown, and the lines that have been read.\<close>

definition shown_at :: "approval_event list \<Rightarrow> instant option" where
  "shown_at evs =
     fold (\<lambda>e q. case e of Answer t req \<Rightarrow> (if q = None then Some t else q) | ReaderTurn t r \<Rightarrow> q | EndQuestion \<Rightarrow> None)
       evs None"

definition lines_read :: "approval_event list \<Rightarrow> (instant \<times> ustr option) set" where
  "lines_read evs = {(t, line_read r) | t r. ReaderTurn t r \<in> set evs}"

definition approver_inv :: "approval_event list \<Rightarrow> approver \<times> console \<Rightarrow> bool" where
  "approver_inv evs s \<longleftrightarrow>
     con_alive (snd s) \<and>
     con_asks (snd s) + length (con_answers (snd s)) = (if ap_reading (fst s) then 1 else 0) \<and>
     ap_asked_at (fst s) = shown_at evs \<and> set (con_answers (snd s)) \<subseteq> lines_read evs"

text \<open>What the loop does with at most one line waiting.\<close>

lemma answer_loop_idle:
  assumes "con_answers c = []" "con_alive c" "con_asks c = (if ap_reading a then 1 else 0)"
  shows "answer_loop asked a c = (None, a\<lparr>ap_reading := True\<rparr>, c\<lparr>con_asks := 1\<rparr>)"
  using assms by (subst answer_loop.simps) (auto simp: Let_def)

lemma answer_loop_line:
  assumes "con_answers c = [(at, line)]" "con_alive c" "con_asks c = 0" "ap_reading a"
  shows "answer_loop asked a c =
    (if at < asked then (None, a, c\<lparr>con_answers := [], con_asks := 1\<rparr>)
     else (Some (says_yes line), a\<lparr>ap_reading := False\<rparr>, c\<lparr>con_answers := []\<rparr>))"
  using assms by (subst answer_loop.simps) (simp add: Let_def answer_loop_idle)

lemma inv_cases:
  assumes "approver_inv evs (a, c)"
  obtains (idle) "con_answers c = []" "con_asks c = (if ap_reading a then 1 else 0)"
  | (line) at l where "con_answers c = [(at, l)]" "con_asks c = 0" "ap_reading a" "(at, l) \<in> lines_read evs"
  using assms
  by (cases "con_answers c") (auto simp: approver_inv_def split: if_splits)

lemma shown_at_snoc:
  "shown_at (evs @ [e]) =
     (case e of Answer t req \<Rightarrow> (if shown_at evs = None then Some t else shown_at evs)
      | ReaderTurn t r \<Rightarrow> shown_at evs | EndQuestion \<Rightarrow> None)"
  unfolding shown_at_def by simp

lemma lines_read_snoc: "lines_read evs \<subseteq> lines_read (evs @ [e])"
  by (auto simp: lines_read_def)

lemma answer_loop_inv:
  assumes "approver_inv evs (a, c)" "answer_loop asked a' c' = (r, a2, c2)"
    and "ap_reading a' = ap_reading a" "ap_asked_at a' = Some asked"
    and "con_asks c' = con_asks c" "con_answers c' = con_answers c" "con_alive c' = con_alive c"
  shows "con_alive c2 \<and> con_asks c2 + length (con_answers c2) = (if ap_reading a2 then 1 else 0) \<and>
    ap_asked_at a2 = Some asked \<and> con_answers c2 = [] \<and>
    (\<forall>b. r = Some b \<longrightarrow> (\<exists>at l. (at, l) \<in> lines_read evs \<and> asked \<le> at \<and> b = says_yes l))"
proof -
  have alive: "con_alive c'" using assms by (simp add: approver_inv_def)
  from assms(1) show ?thesis
  proof (cases rule: inv_cases)
    case idle
    then have "answer_loop asked a' c' = (None, a'\<lparr>ap_reading := True\<rparr>, c'\<lparr>con_asks := 1\<rparr>)"
      using assms alive by (intro answer_loop_idle) simp_all
    with assms idle alive show ?thesis by auto
  next
    case (line at l)
    then have "answer_loop asked a' c' =
        (if at < asked then (None, a', c'\<lparr>con_answers := [], con_asks := 1\<rparr>)
         else (Some (says_yes l), a'\<lparr>ap_reading := False\<rparr>, c'\<lparr>con_answers := []\<rparr>))"
      using assms alive by (intro answer_loop_line) simp_all
    with assms line alive show ?thesis by (auto split: if_splits intro!: exI [of _ at] exI [of _ l])
  qed
qed

lemma answer_inv:
  assumes "approver_inv evs s" "approver_answer t req s = (r, s')"
  shows "approver_inv (evs @ [Answer t req]) s' \<and>
    (\<forall>b. r = Some b \<longrightarrow> (\<exists>at l asked. shown_at (evs @ [Answer t req]) = Some asked \<and>
       (at, l) \<in> lines_read evs \<and> asked \<le> at \<and> b = says_yes l))"
proof -
  obtain a c where s: "s = (a, c)" by (cases s)
  obtain asked a1 c1 where loop: "answer_loop asked a1 c1 = (r, s')" "ap_reading a1 = ap_reading a"
    "ap_asked_at a1 = Some asked" "con_asks c1 = con_asks c" "con_answers c1 = con_answers c"
    "con_alive c1 = con_alive c" "shown_at (evs @ [Answer t req]) = Some asked"
  proof (cases "ap_asked_at a")
    case None
    with assms s that [of t "a\<lparr>ap_asked_at := Some t\<rparr>" "say (question req) c"] show thesis
      by (simp add: approver_answer_def say_def shown_at_snoc approver_inv_def)
  next
    case (Some asked)
    moreover from this have "shown_at evs = Some asked" using assms(1) s by (simp add: approver_inv_def)
    ultimately show thesis
      using assms(2) s that [of asked a c] by (simp add: approver_answer_def shown_at_snoc)
  qed
  obtain a2 c2 where s': "s' = (a2, c2)" by (cases s')
  from answer_loop_inv [OF assms(1) [unfolded s] loop(1) [unfolded s'] loop(2-6)] loop(7) s' show ?thesis
    by (auto simp: approver_inv_def)
qed

lemma reader_inv:
  assumes "approver_inv evs (a, c)"
  shows "approver_inv (evs @ [ReaderTurn t r]) (a, reader_turn t r c)"
proof -
  have "(t, line_read r) \<in> lines_read (evs @ [ReaderTurn t r])" by (auto simp: lines_read_def)
  with assms lines_read_snoc [of evs "ReaderTurn t r"] show ?thesis
    by (auto simp: approver_inv_def reader_turn_def shown_at_snoc split: if_splits)
qed

lemma approval_inv: "approver_inv evs (approval_run evs)"
proof (induction evs rule: rev_induct)
  case Nil
  then show ?case
    by (simp add: approval_run_def approver_spawn_def approver_inv_def shown_at_def)
next
  case (snoc e evs)
  obtain a c where s: "approval_run evs = (a, c)" by (cases "approval_run evs")
  have run: "approval_run (evs @ [e]) = approval_step e (a, c)" using s by (simp add: approval_run_def)
  show ?case
  proof (cases e)
    case (Answer t req)
    then show ?thesis using answer_inv [OF snoc.IH, of t req] run s by (auto simp: prod_eq_iff)
  next
    case (ReaderTurn t r)
    then show ?thesis using reader_inv snoc.IH run s by simp
  next
    case EndQuestion
    then show ?thesis using snoc.IH run s lines_read_snoc [of evs e]
      by (auto simp: approver_inv_def end_question_def shown_at_snoc)
  qed
qed

section \<open>Properties\<close>


definition sample_request :: approval_request where
  "sample_request = \<lparr>ar_viewer_name = lit ''v'', ar_viewer_key_fingerprint = lit ''0000''\<rparr>"

definition late_events :: "approval_event list" where
  "late_events =
     [Answer 1 sample_request, EndQuestion, ReaderTurn 2 (Inr (2, lit ''y'' @ [10])), Answer 3 sample_request,
      ReaderTurn 4 (Inr (3, lit '' y'' @ [10]))]"

lemma late_run:
  "\<exists>s'. approver_answer 5 sample_request (approval_run late_events) = (Some True, s')"
  by (simp add: approval_run_def late_events_def approver_answer_def approver_spawn_def say_def
      answer_loop.simps Let_def end_question_def reader_turn_def says_yes_def str_trim_def is_whitespace_def lit_def)


text \<open>One line at a time: in every interleaving the approver has at most one line asked for or
  waiting, and exactly then it knows of it; so no line is read ahead that no question asked for.\<close>

theorem approver_reads_one_line:
  "con_asks (snd (approval_run evs)) + length (con_answers (snd (approval_run evs))) =
    (if ap_reading (fst (approval_run evs)) then 1 else 0)"
  using approval_inv [of evs] by (simp add: approver_inv_def)

end
