(* ===== verification/Console.thy ===== *)
theory Console
  imports Link AuthCode
begin

text \<open>
  What the two console programs (\<open>apps/host-agent/src/main.rs\<close>, \<open>apps/viewer/src/main.rs\<close>) share: exit
  codes and the texts of errors (the \<open>thiserror\<close> formats of the transport crate).  The Korean sentences of
  the programs are lists of code points.
\<close>

section \<open>Exit codes\<close>

text \<open>\<open>ExitCode::from(2)\<close> is \<open>ExitFrom 2\<close>.\<close>

datatype exit_code = ExitSuccess | ExitFailure | ExitFrom byte

section \<open>Texts of errors\<close>

definition debug_option_u16 :: "u16 option \<Rightarrow> ustr" where
  "debug_option_u16 c =
     (case c of None \<Rightarrow> lit ''None'' | Some n \<Rightarrow> lit ''Some('' @ decimal (unat n) @ lit '')'')"

text \<open>The second part of an \<open>io_error\<close> is its text.\<close>

fun link_error_text :: "link_error \<Rightarrow> ustr" where
  "link_error_text (LClosed code) = lit ''link closed (code '' @ debug_option_u16 code @ lit '')''"
| "link_error_text (LHttp status) = lit ''http error before upgrade: '' @ decimal (unat status)"
| "link_error_text LInsecureUrl = lit ''insecure url (ws:// is only allowed on loopback)''"
| "link_error_text (LIo io) = lit ''io error: '' @ snd io"
| "link_error_text (LProtocol what) = lit ''protocol error: '' @ what"

fun transport_error_text :: "transport_error \<Rightarrow> ustr" where
  "transport_error_text (TIo io) = lit ''io error: '' @ snd io"
| "transport_error_text (TRtc what) = lit ''rtc error: '' @ what"
| "transport_error_text Backpressure = lit ''channel write buffer full''"
| "transport_error_text NoChannel = lit ''control channel not open''"

fun stage_debug :: "stage \<Rightarrow> string" where
  "stage_debug StJoin = ''Join''"
| "stage_debug StPake = ''Pake''"
| "stage_debug StAnswer = ''Answer''"
| "stage_debug StConnect = ''Connect''"
| "stage_debug StHello = ''Hello''"
| "stage_debug StDecision = ''Decision''"
| "stage_debug StPing = ''Ping''"

section \<open>Sentences of both programs\<close>

text \<open>The name must be 1 to 64 bytes.\<close>

definition bad_name_text :: ustr where
  "bad_name_text =
     [0xC774, 0xB984, 0xC740] @ lit '' 1~64 byte '' @ [0xC5EC, 0xC57C, 0x20, 0xD569, 0xB2C8, 0xB2E4, 0x2E]"

text \<open>A line on the error output (\<open>eprintln!\<close>) before the program ends.\<close>

definition complain :: "(ustr \<Rightarrow> 'w \<Rightarrow> unit \<times> 'w) \<Rightarrow> ustr \<Rightarrow> exit_code \<Rightarrow> ('w, 'x, exit_code) prog" where
  "complain put line code = bnd (ext_total (put line)) (\<lambda>_. ret code)"

lemma wp_complain: "(\<And>w'. Q (Ok c) w') \<Longrightarrow> wp (complain put l c) Q w"
  by (auto simp: complain_def wp_bnd wp_ext_total wp_ret split: prod.splits)

section \<open>Time beside a link\<close>

lemma keeps_beside: "keeps clk f \<Longrightarrow> keeps (link_clock clk) (beside f)"
  by (auto simp: keeps_def beside_def split: prod.splits) (metis snd_conv)

lemma ticking_beside: "ticking clk sys \<Longrightarrow> ticking (link_clock clk) (beside_os sys)"
  by (auto simp: ticking_def beside_os_def beside_def split: prod.splits) (metis fst_conv snd_conv)+

end
