(* ===== verification/Linked.thy ===== *)
theory Linked
  imports Punctual Console
begin

text \<open>
  The programs own their \<open>WsLink\<close>: a connection flow runs on a world that is the link and the rest of
  the outside.  \<open>crates\<close> is everything outside the repository that a program uses, \<open>linked\<close> gives the
  libraries of the flow with \<open>WsLink::send\<close> and \<open>WsLink::recv\<close> as its link, and \<open>linked_punctual\<close> shows
  that this link returns, as the flows ask.
\<close>

section \<open>The outside of a program\<close>

record ('i, 'o, 'ws, 'w, 'rtc, 'p, 'k, 'st, 'out, 'sk, 'xk, 'rnd) crates =
  k_os :: "'w os"
  k_ws :: "('ws, 'w) ws_lib"
  k_json :: "('i, 'o) json"
  k_rtc :: "('rtc, 'p) rtc_lib"
  k_wire :: wire
  k_aead :: aead
  k_spake :: "('k, 'st, 'out) spake"
  k_id :: "('sk, 'xk, 'rnd) id_lib"
  k_rng :: "'w \<Rightarrow> bytes \<times> 'w"
  k_key_rng :: "'w \<Rightarrow> 'rnd option \<times> 'w" \<comment> \<open>\<open>rng()\<close> for a key; \<open>None\<close>: the system has no randomness\<close>
  k_ws_drop :: "'ws \<Rightarrow> 'w \<Rightarrow> unit \<times> 'w" \<comment> \<open>dropping the socket\<close>
  k_fuel :: nat

text \<open>\<open>DeviceKeys::generate\<close>: the name is checked, then the two keys are drawn; a random source that
  fails panics (\<open>UnwrapErr\<close>).\<close>

definition generate_keys ::
  "('i, 'o, 'ws, 'w, 'rtc, 'p, 'k, 'st, 'out, 'sk, 'xk, 'rnd) crates \<Rightarrow> ustr \<Rightarrow>
   ('w, auth_error, ('sk, 'xk) device_keys) prog"
where
  "generate_keys K name =
     bnd (lift_sum (check_device_name name)) (\<lambda>_.
     bnd (ext_total (k_key_rng K)) (\<lambda>r1.
     bnd (expect r1) (\<lambda>rnd1.
     bnd (ext_total (k_key_rng K)) (\<lambda>r2.
     bnd (expect r2) (\<lambda>rnd2.
     lift_sum (device_keys_generate (k_id K) name rnd1 rnd2))))))"

definition drop_ws ::
  "('i, 'o, 'ws, 'w, 'rtc, 'p, 'k, 'st, 'out, 'sk, 'xk, 'rnd) crates \<Rightarrow> 'ws ws_link \<times> 'w \<Rightarrow> unit \<times> 'ws ws_link \<times> 'w"
where
  "drop_ws K s = beside (k_ws_drop K (ws_sock (fst s))) s"

definition linked ::
  "('i, 'o, 'ws, 'w, 'rtc, 'p, 'k, 'st, 'out, 'sk, 'xk, 'rnd) crates \<Rightarrow>
   ('i, 'o, 'ws ws_link \<times> 'w, 'rtc, 'p, 'k, 'st, 'out, 'sk, 'xk, 'rnd) libs"
where
  "linked K =
     \<lparr>l_os = beside_os (k_os K), l_rtc = k_rtc K, l_wire = k_wire K, l_aead = k_aead K, l_spake = k_spake K,
      l_id = k_id K, l_rng = beside (k_rng K), l_send = ws_send (k_ws K) (k_json K),
      l_recv = ws_recv (k_os K) (k_ws K) (k_json K) (k_fuel K), l_drop = drop_ws K, l_fuel = k_fuel K\<rparr>"

section \<open>The WebSocket link is punctual\<close>

text \<open>What is asked of the outside: the clock advances, the engine ends its outputs, and the calls of
  the socket return without turning the clock back.\<close>

definition outside_ok ::
  "('w \<Rightarrow> nat) \<Rightarrow> ('rtc \<Rightarrow> nat) \<Rightarrow> nat \<Rightarrow> ('i, 'o, 'ws, 'w, 'rtc, 'p, 'k, 'st, 'out, 'sk, 'xk, 'rnd) crates \<Rightarrow> bool"
where
  "outside_ok clk work k K \<longleftrightarrow>
     os_ok clk (k_os K) \<and> drains (k_rtc K) work k \<and> k \<le> k_fuel K \<and>
     (\<forall>a. keeps clk (udp_bind (k_os K) a)) \<and> (\<forall>h. keeps clk (udp_nonblocking (k_os K) h)) \<and>
     (\<forall>h. keeps clk (udp_local_addr (k_os K) h)) \<and> (\<forall>h a. keeps clk (udp_connect (k_os K) h a)) \<and>
     (\<forall>h p. keeps clk (tcp_resolve (k_os K) h p)) \<and> (\<forall>a d. keeps clk (tcp_connect_timeout (k_os K) a d)) \<and>
     (\<forall>h. keeps clk (tcp_nodelay (k_os K) h)) \<and> (\<forall>h d. keeps clk (tcp_read_timeout (k_os K) h d)) \<and>
     (\<forall>h d. keeps clk (tcp_write_timeout (k_os K) h d)) \<and> (\<forall>n. keeps clk (os_random (k_os K) n)) \<and>
     keeps clk (k_rng K) \<and> keeps clk (k_key_rng K) \<and> (\<forall>ws. keeps clk (k_ws_drop K ws)) \<and>
     keeps clk (tls_provider (k_ws K)) \<and> (\<forall>u h a b. keeps clk (tls_connect (k_ws K) u h a b)) \<and>
     keeps (link_clock clk) (ws_read (k_ws K)) \<and> (\<forall>d. keeps (link_clock clk) (ws_read_timeout (k_ws K) d)) \<and>
     (\<forall>t. keeps (link_clock clk) (ws_write (k_ws K) t))"

lemma outside_okD:
  assumes "outside_ok clk work k K"
  shows "os_ok clk (k_os K)" "drains (k_rtc K) work k" "k \<le> k_fuel K"
    "keeps clk (udp_bind (k_os K) a)" "keeps clk (udp_nonblocking (k_os K) h)" "keeps clk (udp_local_addr (k_os K) h)"
    "keeps clk (udp_connect (k_os K) h a)" "keeps clk (tcp_resolve (k_os K) hn p)"
    "keeps clk (tcp_connect_timeout (k_os K) sa d)" "keeps clk (tcp_nodelay (k_os K) h)"
    "keeps clk (tcp_read_timeout (k_os K) h d)" "keeps clk (tcp_write_timeout (k_os K) h d)"
    "keeps clk (os_random (k_os K) n)" "keeps clk (k_rng K)" "keeps clk (k_key_rng K)" "keeps clk (k_ws_drop K ws)"
    "keeps clk (tls_provider (k_ws K))" "keeps clk (tls_connect (k_ws K) u h b c)"
    "keeps (link_clock clk) (ws_read (k_ws K))" "keeps (link_clock clk) (ws_read_timeout (k_ws K) d)"
    "keeps (link_clock clk) (ws_write (k_ws K) t)" "ticking clk (k_os K)"
  using assms os_okD(1) by (auto simp: outside_ok_def simp del: split_paired_All)

lemma tame_ws_send:
  assumes "outside_ok clk work k K"
  shows "tame (link_clock clk) (ws_send (k_ws K) (k_json K) m)"
  unfolding ws_send_def
  by (auto intro!: tame_intros outside_okD [OF assms] split: option.splits)

lemma os_ok_beside: "os_ok clk sys \<Longrightarrow> os_ok (link_clock clk) (beside_os sys)"
  by (auto simp: os_ok_def ticking_beside) (auto simp: beside_os_def keeps_beside)

lemma linked_punctual:
  assumes "outside_ok clk work k K" "T < k_fuel K"
  shows "punctual (link_clock clk) work k T (linked K)"
proof -
  note o = outside_okD [OF assms(1)]
  have recv: "tame (link_clock clk) (ws_recv (k_os K) (k_ws K) (k_json K) (k_fuel K) d)" if "d \<le> T" for d
    by (rule tame_at_all, rule ws_recv_returns [OF o(22,19,20)]) (use that assms(2) in simp)
  have drop: "keeps (link_clock clk) (drop_ws K)"
    using o(16) by (auto simp: keeps_def drop_ws_def beside_def split: prod.splits) (metis snd_conv)
  show ?thesis
    unfolding punctual_def linked_def
    by (auto simp: os_ok_beside [OF o(1)] o drop recv tame_ws_send [OF assms(1)] keeps_beside)
      (use assms(2) o in \<open>auto simp: beside_os_def intro!: keeps_beside\<close>)
qed

lemma tame_generate_keys:
  assumes "outside_ok clk work k K"
  shows "tame clk (generate_keys K name)"
  unfolding generate_keys_def by (intro tame_intros outside_okD [OF assms])

lemma generate_keys_refuses:
  "check_device_name name = Inl e \<Longrightarrow> generate_keys K name w = (Err e, w)"
  "check_device_name name = Inr () \<Longrightarrow> wp (generate_keys K name) (\<lambda>r _. \<forall>x. r \<noteq> Err x) w"
proof -
  show "check_device_name name = Inl e \<Longrightarrow> generate_keys K name w = (Err e, w)"
    by (simp add: generate_keys_def run_simps)
  have draw: "wp (expect r) (\<lambda>r _. \<forall>x. r \<noteq> Err x) u" for r :: "'r option" and u
    by (cases r) (simp_all add: wp_ret wp_panic)
  show "check_device_name name = Inr () \<Longrightarrow> wp (generate_keys K name) (\<lambda>r _. \<forall>x. r \<noteq> Err x) w"
    by (auto simp: generate_keys_def wp_bnd wp_lift_sum wp_ext_total wp_expect device_keys_generate_def wp_ret wp_panic
        split: prod.splits option.splits)
qed

end
