(* ===== verification/HostApp.thy ===== *)
theory HostApp
  imports Approver HostTheorems Console
begin

text \<open>
  \<open>apps/host-agent/src/main.rs\<close>: the arguments of the console host and its loop around \<open>serve_next\<close>.
  The console is four functions on the world (printing a line, a line of the error output, the question
  of \<open>Approver\<close>, the end of a question).  \<open>HostMain\<close> has the start of \<open>main\<close>.
\<close>

section \<open>Arguments\<close>

record host_args =
  ha_server :: ustr
  ha_name :: ustr
  ha_once :: bool

fun host_args_loop :: "ustr list \<Rightarrow> ustr option \<times> ustr \<times> bool \<Rightarrow> (ustr option \<times> ustr \<times> bool) option" where
  "host_args_loop [] acc = Some acc"
| "host_args_loop (arg # args) (server, name, once) =
     (if arg = lit ''--server'' then
        (case args of [] \<Rightarrow> None | v # rest \<Rightarrow> host_args_loop rest (Some v, name, once))
      else if arg = lit ''--name'' then
        (case args of [] \<Rightarrow> None | v # rest \<Rightarrow> host_args_loop rest (server, v, once))
      else if arg = lit ''--once'' then host_args_loop args (server, name, True)
      else None)"

definition parse_host_args :: "ustr list \<Rightarrow> host_args option" where
  "parse_host_args args =
     (case host_args_loop args (None, lit ''host'', False) of
        Some (Some server, name, once) \<Rightarrow> Some \<lparr>ha_server = server, ha_name = name, ha_once = once\<rparr>
      | _ \<Rightarrow> None)"

text \<open>Without a local address the host binds the loopback address.\<close>

definition bind_or_localhost :: "ip_addr list \<Rightarrow> ip_addr list" where
  "bind_or_localhost ips = (if ips = [] then [V4 0x7F000001] else ips)"

section \<open>The loop of the host\<close>

definition SESSION_LIMIT :: duration where
  "SESSION_LIMIT = secs (60 * 60)"

record 'w host_console =
  hc_say :: "ustr \<Rightarrow> 'w \<Rightarrow> unit \<times> 'w"
  hc_error :: "ustr \<Rightarrow> 'w \<Rightarrow> unit \<times> 'w"
  hc_answer :: "'w ask"
  hc_end :: "'w \<Rightarrow> unit \<times> 'w"

definition say_line :: "'w host_console \<Rightarrow> ustr \<Rightarrow> ('w host_run, 'x, unit) prog" where
  "say_line con line = in_world (ext_total (hc_say con line))"

definition error_line :: "'w host_console \<Rightarrow> ustr \<Rightarrow> ('w host_run, 'x, unit) prog" where
  "error_line con line = in_world (ext_total (hc_error con line))"

fun host_error_text :: "host_error \<Rightarrow> ustr" where
  "host_error_text (HELink e) = lit ''signaling error: '' @ link_error_text e"
| "host_error_text (HETransport e) = lit ''transport error: '' @ transport_error_text e"

definition session_lost_text :: ustr where \<comment> \<open>the session was cut\<close>
  "session_lost_text =
     [0xC138, 0xC158, 0x20, 0xC5F0, 0xACB0, 0xC774, 0x20, 0xB04A, 0xACBC, 0xC2B5, 0xB2C8, 0xB2E4, 0x3A, 0x20]"

definition signaling_lost_text :: ustr where \<comment> \<open>the connection to the signaling server was cut\<close>
  "signaling_lost_text =
     lit ''signaling '' @ [0xC11C, 0xBC84, 0xC640, 0x20, 0xC5F0, 0xACB0, 0xC774, 0x20, 0xB04A, 0xACBC, 0xC2B5,
     0xB2C8, 0xB2E4, 0x3A, 0x20]"

fun failure_debug :: "attempt_failure \<Rightarrow> string" where
  "failure_debug WaitRequired = ''WaitRequired''"
| "failure_debug NoConfirm = ''NoConfirm''"
| "failure_debug FWrongCode = ''WrongCode''"
| "failure_debug FMalformed = ''Malformed''"
| "failure_debug (FTimeout st) = ''Timeout('' @ stage_debug st @ '')''"
| "failure_debug FDenied = ''Denied''"
| "failure_debug FVersionMismatch = ''VersionMismatch''"
| "failure_debug FBadIdentity = ''BadIdentity''"
| "failure_debug FTransport = ''Transport''"

definition code_line :: "ustr \<Rightarrow> ustr" where
  "code_line code = lit ''CODE '' @ code"

text \<open>A session is served until it ends and its channel dropped; the result says whether it ended well.\<close>

definition serve_session ::
  "('w, 'rtc, 'p, 'k, 'st, 'out, 'sk, 'xk, 'rnd) host_libs \<Rightarrow> 'w host_console \<Rightarrow> peer_identity \<Rightarrow>
   'rtc channel \<Rightarrow> ('w host_run, 'x, bool) prog"
where
  "serve_session L con viewer ch =
     bnd (expect (key_fingerprint (l_id L) (l_wire L) (pi_device_key viewer))) (\<lambda>fp.
     bnd (say_line con (lit ''CONNECTED '' @ pi_name viewer @ lit '' '' @ fp)) (\<lambda>_.
     scoped L ch
       (bnd (handle (serve_pings L SESSION_LIMIT) (\<lambda>_. ret None) (\<lambda>e. ret (Some e))) (\<lambda>failed.
        bnd (on_snd (say_line con (lit ''DISCONNECTED''))) (\<lambda>_.
        bnd (case failed of
               None \<Rightarrow> ret ()
             | Some e \<Rightarrow> on_snd (error_line con (session_lost_text @ host_error_text e))) (\<lambda>_.
        ret (Inl (failed = None))))))
       (\<lambda>(b :: unit) c. panic)))"

text \<open>What the loop does with an outcome: the exit code, or another round.\<close>

fun after_outcome ::
  "('w, 'rtc, 'p, 'k, 'st, 'out, 'sk, 'xk, 'rnd) host_libs \<Rightarrow> 'w host_console \<Rightarrow> bool \<Rightarrow>
   host_error + 'rtc serve_outcome \<Rightarrow> ('w host_run, 'x, exit_code option) prog"
where
  "after_outcome L con once (Inr (Session viewer ch)) =
     bnd (serve_session L con viewer ch) (\<lambda>served.
     ret (if once then Some (if served then ExitSuccess else ExitFailure) else None))"
| "after_outcome L con once (Inr (Failed f)) =
     bnd (say_line con (lit (''ATTEMPT '' @ failure_debug f))) (\<lambda>_. ret None)"
| "after_outcome L con once (Inr ViewerLeft) = ret None"
| "after_outcome L con once (Inl e) =
     bnd (error_line con (signaling_lost_text @ host_error_text e)) (\<lambda>_. ret (Some ExitFailure))"

text \<open>One round: serve a viewer, end the question, show a new code, act on the outcome.\<close>

definition host_round ::
  "('w, 'rtc, 'p, 'k, 'st, 'out, 'sk, 'xk, 'rnd) host_libs \<Rightarrow> ('sk, 'xk) host_config \<Rightarrow> 'w host_console \<Rightarrow>
   bool \<Rightarrow> nat \<Rightarrow> ustr \<Rightarrow> ('w host_run, 'x, exit_code option \<times> ustr) prog"
where
  "host_round L cfg con once n shown =
     bnd (handle (serve_next L cfg (hc_answer con) n) (\<lambda>out. ret (Inr out)) (\<lambda>e. ret (Inl e))) (\<lambda>outcome.
     bnd (in_world (ext_total (hc_end con))) (\<lambda>_.
     bnd (gets h_code) (\<lambda>code.
     bnd (if code \<noteq> shown then say_line con (code_line code) else ret ()) (\<lambda>_.
     bnd (after_outcome L con once outcome) (\<lambda>ex. ret (ex, code))))))"

primrec host_loop ::
  "('w, 'rtc, 'p, 'k, 'st, 'out, 'sk, 'xk, 'rnd) host_libs \<Rightarrow> ('sk, 'xk) host_config \<Rightarrow> 'w host_console \<Rightarrow>
   bool \<Rightarrow> nat \<Rightarrow> nat \<Rightarrow> ustr \<Rightarrow> ('w host_run, 'x, exit_code) prog"
where
  "host_loop L cfg con once n 0 shown = hang"
| "host_loop L cfg con once n (Suc m) shown =
     bnd (host_round L cfg con once n shown) (\<lambda>(ex, shown').
     case ex of
       Some e \<Rightarrow> ret e
     | None \<Rightarrow> host_loop L cfg con once n m shown')"

section \<open>What a round keeps\<close>

text \<open>Nothing but \<open>serve_next\<close> changes the code and the limiter or uses the link.\<close>

lemma aside_say [preserves_intros]: "preserves (aside u) (say_line con line)"
  unfolding say_line_def by (rule preservesI, rule in_world_any) (rule aside_steps(1))

lemma aside_expect [preserves_intros]: "preserves I (expect v)"
  by (cases v) (auto simp: preserves_def wp_rules)

lemma aside_error [preserves_intros]: "preserves (aside u) (error_line con line)"
  unfolding error_line_def by (rule preservesI, rule in_world_any) (rule aside_steps(1))

lemma aside_c_error [preserves_intros]: "preserves (\<lambda>t. aside u (snd t)) (on_snd (error_line con line))"
  using aside_error [of u con line] unfolding preserves_def wp_on_snd by simp

lemma aside_c_next [preserves_intros]: "preserves (\<lambda>t. aside u (snd t)) (c_next L d)"
  by (rule preservesI, rule c_next_any) (auto intro: aside_steps)

lemma aside_c_send [preserves_intros]: "preserves (\<lambda>t. aside u (snd t)) (c_send L msg)"
  by (rule preservesI, rule c_send_any) (auto intro: aside_steps)

lemma aside_c_now [preserves_intros]: "preserves (\<lambda>t. aside u (snd t)) (on_snd (get_now L))"
  by (rule preservesI, rule c_now_any) (auto intro: aside_steps)

lemma aside_on_chan [preserves_intros]: "preserves (\<lambda>t. aside u (snd t)) (on_chan p)"
  by (rule preservesI, unfold wp_on_chan, rule wp_any) (simp add: aside_def)

lemma aside_c_say [preserves_intros]: "preserves (\<lambda>t. aside u (snd t)) (on_snd (say_line con line))"
  using aside_say [of u con line] unfolding preserves_def wp_on_snd by simp

lemma aside_drop [preserves_intros]: "preserves (aside u) (drop_channel L c)"
  by (rule preservesI, rule drop_channel_any) (auto intro: aside_steps)

lemma aside_pings: "preserves (\<lambda>t. aside u (snd t)) (serve_pings_loop L n d)"
  by (induction n) (auto intro!: preserves_intros split: next_msg.splits control.splits)

lemma aside_serve_pings: "preserves (\<lambda>t. aside u (snd t)) (serve_pings L d)"
  unfolding serve_pings_def by (intro preserves_intros aside_pings)

lemma aside_scoped:
  fixes body :: "('rtc channel \<times> 'w host_run, 'x, 'a + 'b) prog"
  assumes "preserves (\<lambda>t. aside u (snd t)) body" "\<And>b c. preserves (aside u) (k b c)"
  shows "preserves (aside u) (scoped L ch body k)"
proof (rule preservesI)
  fix s :: "'w host_run"
  assume "aside u s"
  then have "wp body (\<lambda>_ t. aside u (snd t)) (ch, s)" using assms(1) by (simp add: preserves_def)
  moreover have "preserves (aside u) (bnd (drop_channel L c) (\<lambda>_. ret a) :: ('w host_run, 'x, 'a) prog)"
    "preserves (aside u) (bnd (drop_channel L c) (\<lambda>_. fail x) :: ('w host_run, 'x, 'a) prog)" for c a x
    by (intro preserves_intros)+
  ultimately show "wp (scoped L ch body k) (\<lambda>_ s'. aside u s') s"
    unfolding wp_scoped using assms(2)
    by (elim wp_mono) (auto simp: preserves_def split: res.splits sum.splits)
qed

lemma aside_session: "preserves (aside u) (serve_session L con viewer ch)"
  unfolding serve_session_def
  by (intro preserves_intros aside_scoped aside_serve_pings) (auto intro!: preserves_intros split: option.splits)

lemma aside_after: "preserves (aside u) (after_outcome L con once outcome)"
  by (cases "(L, con, once, outcome)" rule: after_outcome.cases)
    (auto intro!: preserves_intros aside_session)

lemma after_success:
  "wp (after_outcome L con once outcome)
     (\<lambda>r _. (r = Ok (Some ExitSuccess) \<longrightarrow> once) \<and> r \<noteq> Ok (Some (ExitFrom n))) s"
  by (cases "(L, con, once, outcome)" rule: after_outcome.cases)
    (auto simp: wp_ret intro!: wp_bnd_any)

section \<open>The loop as a life of the host\<close>

lemma host_round_runs:
  fixes u :: "'w host_run" and L :: "('w, 'rtc, 'p, 'k, 'st, 'out, 'sk, 'xk, 'rnd) host_libs"
  assumes "host_runs L cfg s u"
  shows "wp (host_round L cfg con once n shown :: ('w host_run, 'x, _) prog) (\<lambda>_ s'. host_runs L cfg s s') u"
proof (cases "serve_next L cfg (hc_answer con) n u")
  case (Pair r v)
  have runs: "host_runs L cfg s t" if "aside v t" for t
    by (rule host_runs.next_run [OF assms Pair that])
  have keep: "preserves (aside v) (bnd (in_world (ext_total (hc_end con))) (\<lambda>_.
      bnd (gets h_code) (\<lambda>code.
      bnd (if code \<noteq> shown then say_line con (code_line code) else ret ()) (\<lambda>_.
      bnd (after_outcome L con once outcome) (\<lambda>ex. ret (ex, code))))) :: ('w host_run, 'x, _) prog)" for outcome
  proof -
    have "preserves (aside v) (in_world (ext_total (hc_end con)) :: ('w host_run, 'x, _) prog)"
      by (rule preservesI, rule in_world_any) (rule aside_steps(1))
    then show ?thesis by (auto intro!: preserves_intros aside_after)
  qed
  have rest: "wp (bnd (in_world (ext_total (hc_end con))) (\<lambda>_.
      bnd (gets h_code) (\<lambda>code.
      bnd (if code \<noteq> shown then say_line con (code_line code) else ret ()) (\<lambda>_.
      bnd (after_outcome L con once outcome) (\<lambda>ex. ret (ex, code))))) :: ('w host_run, 'x, _) prog)
      (\<lambda>_ s'. host_runs L cfg s s') v" for outcome
    by (rule wp_mono [OF preserves_wp [OF keep aside_refl]]) (rule runs)
  show ?thesis
    unfolding host_round_def wp_bnd [of "handle _ _ _"] wp_handle
    by (cases r) (simp_all add: wp_def [of "serve_next _ _ _ _"] Pair wp_ret after_def rest runs aside_refl
        del: after_outcome.simps)
qed

lemma host_loop_runs:
  fixes u :: "'w host_run"
  assumes "host_runs L cfg s u"
  shows "wp (host_loop L cfg con once n m shown :: ('w host_run, 'x, _) prog) (\<lambda>_ s'. host_runs L cfg s s') u"
  using assms
proof (induction m arbitrary: u shown)
  case (Suc m)
  show ?case
    unfolding host_loop.simps wp_bnd [of "host_round _ _ _ _ _ _"]
    by (rule wp_mono [OF host_round_runs [OF Suc.prems]])
      (auto simp: after_def wp_ret intro!: Suc.IH split: res.splits option.splits)
qed (simp add: wp_hang)

section \<open>Properties\<close>

text \<open>The screen shows the right code: after every round of the host the code last shown is the
  code of the host, so that a code replaced after failures or after a session is never the one the user
  reads out; and the host ends successfully only when it was asked to serve once.\<close>

theorem host_round_shows_code:
  fixes s s' :: "'w host_run" and ex :: "exit_code option"
  assumes "(host_round L cfg con once n shown s :: ('x, _) res \<times> _) = (Ok (ex, shown'), s')"
  shows "shown' = h_code s' \<and> (ex = Some ExitSuccess \<longrightarrow> once)"
proof -
  define Q where "Q = (\<lambda>(r :: ('x, exit_code option \<times> ustr) res) s'.
      \<forall>ex shown'. r = Ok (ex, shown') \<longrightarrow> shown' = h_code (s' :: 'w host_run) \<and> (ex = Some ExitSuccess \<longrightarrow> once))"
  have Q: "Q (Err x) u" "Q Panic u" "Q Hang u" for x u by (simp_all add: Q_def)
  have last: "wp (bnd (after_outcome L con once outcome) (\<lambda>ex. ret (ex, h_code u))) Q u'"
    if "aside u u'" for outcome u u'
    unfolding wp_bnd Q_def
    by (rule wp_mono [OF wp_conj [OF after_success preserves_wp [OF aside_after that]]])
      (auto simp: after_def wp_ret dest: aside_code split: res.splits)
  have shown: "wp (bnd (if h_code u \<noteq> shown then say_line con (code_line (h_code u)) else ret ())
      (\<lambda>_. bnd (after_outcome L con once outcome) (\<lambda>ex. ret (ex, h_code u)))) Q u" for outcome u
  proof -
    have "preserves (aside u) (if h_code u \<noteq> shown then say_line con (code_line (h_code u)) else ret ())"
      by (auto intro: preserves_intros)
    then have "wp (if h_code u \<noteq> shown then say_line con (code_line (h_code u)) else ret ())
        (\<lambda>_ u'. aside u u') u" by (rule preserves_wp) (rule aside_refl)
    then show ?thesis
      unfolding wp_bnd [of "If _ _ _"]
      by (rule wp_mono) (auto simp: after_def intro!: last Q split: res.splits)
  qed
  have "wp (host_round L cfg con once n shown) Q s"
    unfolding host_round_def
    by (rule wp_bnd_any, rule wp_bnd_any) (simp_all add: wp_bnd [of "gets _"] wp_gets shown Q)
  from wpD [OF this assms] show ?thesis by (simp add: Q_def)
qed

definition sample_console :: "'w host_console" where
  "sample_console = \<lparr>hc_say = (\<lambda>l w. ((), w)), hc_error = (\<lambda>l w. ((), w)), hc_answer = (\<lambda>r w. (None, w)), hc_end = Pair ()\<rparr>"

lemma sample_round:
  "host_round (sample_host guess_script []) sample_host_config sample_console False 1 [] sample_run =
     (Ok (None, lit ''123456''), sample_run\<lparr>world := ((), 5), history := guess_history,
        h_limiter := fst (limiter_record_failure limiter_new 3)\<rparr>)"
  using guess_run [of "[]" "\<lambda>r w. (None, w)"]
  by (simp add: host_round_def run_simps sample_console_def in_world_def ext_total_def say_line_def sample_run_def)

theorem host_round_shows_code_witness:
  "lit ''123456'' = h_code (sample_run\<lparr>world := ((), 5), history := guess_history,
      h_limiter := fst (limiter_record_failure limiter_new 3)\<rparr>)"
  using host_round_shows_code [OF sample_round] by simp

end
