(* ===== verification/HostMain.thy ===== *)
theory HostMain
  imports HostApp Register Linked
begin

text \<open>
  \<open>main\<close> of \<open>apps/host-agent/src/main.rs\<close>: arguments, keys, registration, local addresses and the first
  code, then the loop of \<open>HostApp\<close> on the registered link.  Its property bounds what guessing gains
  against the running program.
\<close>

section \<open>Sentences\<close>

definition host_usage_text :: ustr where \<comment> \<open>the usage line\<close>
  "host_usage_text =
     lit ''usage: host-agent --server <url> [--name <'' @ [0xC774, 0xB984] @ lit ''>] [--once]''"

definition register_failed_text :: ustr where \<comment> \<open>could not register at the signaling server\<close>
  "register_failed_text =
     lit ''signaling '' @ [0xC11C, 0xBC84, 0xC5D0, 0x20, 0xB4F1, 0xB85D, 0xD558, 0xC9C0, 0x20, 0xBABB, 0xD588,
     0xC2B5, 0xB2C8, 0xB2E4, 0x3A, 0x20]"

fun register_error_text :: "register_error \<Rightarrow> ustr" where
  "register_error_text (RLink e) = lit ''signaling error: '' @ link_error_text e"
| "register_error_text (RProtocol what) = lit ''unexpected registration message: '' @ lit what"

section \<open>The service\<close>

text \<open>The id and the code are shown, then viewers are served.\<close>

definition host_service ::
  "('w, 'rtc, 'p, 'k, 'st, 'out, 'sk, 'xk, 'rnd) host_libs \<Rightarrow> ('sk, 'xk) host_config \<Rightarrow> 'w host_console \<Rightarrow>
   bool \<Rightarrow> nat \<Rightarrow> nat \<Rightarrow> ('w host_run, 'x, exit_code) prog"
where
  "host_service L cfg con once n m =
     bnd (gets h_code) (\<lambda>shown.
     bnd (say_line con (lit ''ID '' @ hc_host_id cfg)) (\<lambda>_.
     bnd (say_line con (code_line shown)) (\<lambda>_.
     host_loop L cfg con once n m shown)))"

text \<open>The state of the host as \<open>HostState::new\<close> makes it; the history starts with it.\<close>

definition host_start :: "ustr \<times> limiter \<Rightarrow> 'w \<Rightarrow> 'w host_run" where
  "host_start st w = \<lparr>world = w, history = [], h_code = fst st, h_limiter = snd st\<rparr>"

definition in_host_run :: "ustr \<times> limiter \<Rightarrow> ('w host_run, 'x, 'a) prog \<Rightarrow> ('w, 'x, 'a) prog" where
  "in_host_run st m w = (case m (host_start st w) of (r, s) \<Rightarrow> (r, world s))"

definition beside_console :: "'w host_console \<Rightarrow> ('l \<times> 'w) host_console" where
  "beside_console con =
     \<lparr>hc_say = (\<lambda>l. beside (hc_say con l)), hc_error = (\<lambda>l. beside (hc_error con l)),
      hc_answer = (\<lambda>req. beside (hc_answer con req)), hc_end = beside (hc_end con)\<rparr>"

type_synonym ('ws, 'w, 'rtc, 'p, 'k, 'st, 'out, 'sk, 'xk, 'rnd) host_crates =
  "(server_to_host, host_to_server, 'ws, 'w, 'rtc, 'p, 'k, 'st, 'out, 'sk, 'xk, 'rnd) crates"

text \<open>The rest of \<open>main\<close> on the link, which is dropped when \<open>main\<close> returns.\<close>

definition host_on_link ::
  "('ws, 'w, 'rtc, 'p, 'k, 'st, 'out, 'sk, 'xk, 'rnd) host_crates \<Rightarrow> ('sk, 'xk) host_config \<Rightarrow> 'w host_console \<Rightarrow>
   bool \<Rightarrow> nat \<Rightarrow> nat \<Rightarrow> ('ws ws_link \<times> 'w, 'x, exit_code) prog"
where
  "host_on_link K cfg con once n m =
     bnd (host_state_new (linked K)) (\<lambda>st.
     bnd (in_host_run st (host_service (linked K) cfg (beside_console con) once n m)) (\<lambda>code.
     bnd (ext_total (drop_ws K)) (\<lambda>_. ret code)))"

section \<open>The program\<close>

definition host_main ::
  "('ws, 'w, 'rtc, 'p, 'k, 'st, 'out, 'sk, 'xk, 'rnd) host_crates \<Rightarrow> 'w host_console \<Rightarrow> nat \<Rightarrow> nat \<Rightarrow>
   ustr list \<Rightarrow> ('w, 'x, exit_code) prog"
where
  "host_main K con n m argv =
     (case parse_host_args argv of
        None \<Rightarrow> complain (hc_error con) host_usage_text (ExitFrom 2)
      | Some args \<Rightarrow>
          handle (generate_keys K (ha_name args))
            (\<lambda>keys.
               handle (register_host (k_os K) (k_ws K) (k_json K) (k_fuel K) (k_wire K) (k_id K)
                         (ha_server args) keys None)
                 (\<lambda>(host_id, link).
                    bnd (local_ips (k_os K)) (\<lambda>ips w.
                    let cfg = \<lparr>hc_host_id = host_id, hc_keys = keys, hc_bind_ips = bind_or_localhost ips,
                               hc_timeouts = default_timeouts, hc_protocol_version = PROTOCOL_VERSION\<rparr>
                    in (case host_on_link K cfg con (ha_once args) n m (link, w) of (r, v) \<Rightarrow> (r, snd v))))
                 (\<lambda>e. complain (hc_error con) (register_failed_text @ register_error_text e) ExitFailure))
            (\<lambda>_. complain (hc_error con) bad_name_text (ExitFrom 2)))"

section \<open>Lemmas\<close>

lemma host_service_runs:
  fixes s :: "'w host_run"
  shows "wp (host_service L cfg con once n m :: ('w host_run, 'x, _) prog) (\<lambda>_ s'. host_runs L cfg s s') s"
proof -
  have say: "wp (bnd (say_line con l) (\<lambda>_. k) :: ('w host_run, 'x, exit_code) prog) (\<lambda>_ s'. host_runs L cfg s s') u"
    if "\<And>v. aside s v \<Longrightarrow> wp k (\<lambda>_ s'. host_runs L cfg s s') v" "aside s u" for l k u
    unfolding wp_bnd
    by (rule wp_mono [OF preserves_wp [OF aside_say that(2)]])
      (auto simp: after_def intro!: that(1) host_runs.no_run split: res.splits)
  show ?thesis
    unfolding host_service_def wp_bnd [of "gets _"] wp_gets after_simps
    by (intro say host_loop_runs host_runs.no_run aside_refl)
qed

lemma host_loop_exit:
  "wp (host_loop L cfg con once n m shown) (\<lambda>r _. (r = Ok ExitSuccess \<longrightarrow> once) \<and> r \<noteq> Ok (ExitFrom c)) s"
proof (induction m arbitrary: s shown)
  case (Suc m)
  let ?Q = "\<lambda>r _. \<forall>ex shown'. r = Ok (ex, shown') \<longrightarrow> (ex = Some ExitSuccess \<longrightarrow> once) \<and> ex \<noteq> Some (ExitFrom c)"
  have last: "wp (bnd (after_outcome L con once outcome) (\<lambda>ex. ret (ex, code))) ?Q u" for outcome code u
    unfolding wp_bnd by (rule wp_mono [OF after_success [where n = c]]) (auto simp: after_def wp_ret split: res.splits)
  have round: "wp (host_round L cfg con once n shown) ?Q u" for shown u
    unfolding host_round_def by (intro last wp_bnd_any) simp_all
  show ?case
    unfolding host_loop.simps wp_bnd [of "host_round _ _ _ _ _ _"]
    by (rule wp_mono [OF round]) (auto simp: after_def wp_ret intro!: Suc.IH split: res.splits option.splits)
qed (simp add: wp_hang)

text \<open>Arguments the program does not know, or a name it cannot use.\<close>

definition host_misused :: "ustr list \<Rightarrow> bool" where
  "host_misused argv \<longleftrightarrow>
     (case parse_host_args argv of
        None \<Rightarrow> True
      | Some a \<Rightarrow> check_device_name (ha_name a) \<noteq> Inr ())"

definition asked_once :: "ustr list \<Rightarrow> bool" where
  "asked_once argv \<longleftrightarrow> (case parse_host_args argv of None \<Rightarrow> False | Some a \<Rightarrow> ha_once a)"

lemma wp_in_host_run: "wp (in_host_run st m) Q w = wp m (\<lambda>r s. Q r (world s)) (host_start st w)"
  by (auto simp: wp_def in_host_run_def split: prod.splits)

lemma host_on_link_exit:
  fixes K :: "('ws, 'w, 'rtc, 'p, 'k, 'st, 'out, 'sk, 'xk, 'rnd) host_crates"
  shows "wp (host_on_link K cfg con once n m :: ('ws ws_link \<times> 'w, 'x, exit_code) prog) (\<lambda>r _. (r = Ok ExitSuccess \<longrightarrow> once) \<and> r \<noteq> Ok (ExitFrom c)) v"
  (is "wp _ ?Q v")
proof -
  have loop: "wp (host_service L cfg con once n m) (\<lambda>r _. (r = Ok ExitSuccess \<longrightarrow> once) \<and> r \<noteq> Ok (ExitFrom c)) u"
    for L con u
    unfolding host_service_def by (intro host_loop_exit wp_bnd_any) simp_all
  have run: "wp (bnd (in_host_run st (host_service (linked K) cfg (beside_console con) once n m)) (\<lambda>code.
      bnd (ext_total (drop_ws K)) (\<lambda>_. ret code))) ?Q u" for st u
    unfolding wp_bnd [of "in_host_run _ _"] wp_in_host_run
    by (rule wp_mono [OF loop]) (auto simp: after_def wp_bnd wp_ext_total wp_ret split: res.splits prod.splits)
  show ?thesis
    unfolding host_on_link_def by (intro run wp_bnd_any) simp_all
qed

lemma host_main_exit_code:
  fixes K :: "('ws, 'w, 'rtc, 'p, 'k, 'st, 'out, 'sk, 'xk, 'rnd) host_crates"
  shows "wp (host_main K con n m argv :: ('w, 'x, exit_code) prog)
     (\<lambda>r _. (r = Ok (ExitFrom 2) \<longrightarrow> host_misused argv) \<and> (r = Ok ExitSuccess \<longrightarrow> asked_once argv) \<and>
        (host_misused argv \<longrightarrow> (\<exists>v. r = Ok v) \<longrightarrow> r = Ok (ExitFrom 2))) w" (is "wp _ ?Q w")
proof (cases "parse_host_args argv")
  case None
  then show ?thesis by (auto simp: host_main_def host_misused_def intro!: wp_complain)
next
  case (Some a)
  show ?thesis
  proof (cases "check_device_name (ha_name a)")
    case (Inl e)
    with Some show ?thesis
      by (auto simp: host_main_def host_misused_def wp_handle wp_def [of "generate_keys _ _"] generate_keys_refuses(1)
          after_def intro!: wp_complain)
  next
    case (Inr u)
    have serve: "wp (\<lambda>w. case host_on_link K cfg con (ha_once a) n m (link, w) of (r :: ('x, exit_code) res, v) \<Rightarrow> (r, snd v :: 'w))
        (\<lambda>r _. r \<noteq> Ok (ExitFrom 2) \<and> (r = Ok ExitSuccess \<longrightarrow> asked_once argv)) v" for cfg link v
      using host_on_link_exit [where 'x = 'x, of K cfg con "ha_once a" n m 2 "(link, v)"] Some Inr
      by (auto simp: wp_def host_misused_def asked_once_def split: prod.splits)
    have "wp (handle (register_host (k_os K) (k_ws K) (k_json K) (k_fuel K) (k_wire K) (k_id K) (ha_server a) keys None)
        (\<lambda>(host_id, link). bnd (local_ips (k_os K)) (\<lambda>ips w. case host_on_link K (cfg host_id ips) con (ha_once a) n m (link, w)
            of (r, v) \<Rightarrow> (r, snd v)))
        (\<lambda>e. complain (hc_error con) (register_failed_text @ register_error_text e) ExitFailure)) ?Q v" for keys cfg v
      using Some Inr
      by (intro wp_handle_any) (auto simp: host_misused_def intro!: wp_complain wp_bnd_any serve split: prod.splits)
    then show ?thesis
      using Some Inr
      by (simp add: host_main_def Let_def wp_handle [of "generate_keys _ _"])
        (rule wp_mono [OF generate_keys_refuses(2)], auto simp: after_def split: res.splits)
  qed
qed

section \<open>Properties\<close>

text \<open>The code of the host keeps its form.\<close>

lemma host_runs_code: "host_runs L cfg s s' \<Longrightarrow> six_digits (h_code s) \<Longrightarrow> six_digits (h_code s')"
proof (induction rule: host_runs.induct)
  case (next_run s1 approve n r s2 s3)
  from serve_next_accounts [OF next_run.hyps(2)] have "six_digits (h_code s2)"
    using next_run by (auto simp: accounts_def split: if_splits)
  with aside_code [OF next_run.hyps(3)] show ?case by simp
qed (use aside_code in metis)

lemma host_state_code:
  assumes "host_state_new L w = (Ok st, w')"
  shows "six_digits (fst st)"
proof -
  have "wp (host_state_new L) (\<lambda>r _. \<forall>st. r = Ok st \<longrightarrow> six_digits (fst st)) w"
    unfolding host_state_new_def wp_bnd generate_code_def
    by (rule wp_mono [OF code_generate_result]) (auto simp: after_def wp_ret split: res.splits)
  from wpD [OF this assms] show ?thesis by simp
qed

text \<open>C38: What the host calls its code is one at any time of its life: six digits, which a viewer can
  type and \<open>OneTimeCode::parse\<close> reads back, from the first code of the state to the last replacement.\<close>

theorem host_code_well_formed:
  assumes "host_state_new L w0 = (Ok st, w)"
    and "host_service L cfg con once n m (host_start st w) = ((r :: ('x, exit_code) res), s')"
  shows "length (h_code s') = 6 \<and> code_parse (h_code s') = Inr (h_code s')"
proof -
  from wpD [OF host_service_runs assms(2)] have "host_runs L cfg (host_start st w) s'" .
  from host_runs_code [OF this] host_state_code [OF assms(1)] have "six_digits (h_code s')"
    by (simp add: host_start_def)
  then show ?thesis by (simp add: six_digits_def code_parse_digits)
qed

theorem host_code_well_formed_witness:
  "code_parse (h_code (snd (host_service session_host sample_host_config sample_console False 1 1
      (host_start (zero_code, limiter_new) ((), 0)) :: (unit, exit_code) res \<times> _))) \<noteq> Inl (Malformed ''one-time code'')"
proof -
  obtain r s' where run: "host_service session_host sample_host_config sample_console False 1 1
      (host_start (zero_code, limiter_new) ((), 0)) = ((r :: (unit, exit_code) res), s')" by fastforce
  have "host_state_new session_host ((), 0) = (Ok (zero_code, limiter_new), (), 0)"
    by (simp add: host_state_new_def run_simps sample_new_code)
  from host_code_well_formed [OF this run] show ?thesis unfolding run snd_conv by simp
qed

text \<open>C39: The exit code of the host program: \<open>main\<close> ends with 2 exactly when its arguments or the name are
  unusable, and it ends successfully only when it was asked to serve one
  session.\<close>

theorem host_main_exit:
  assumes "host_main K con n m argv w = (Ok code, w')"
  shows "(code = ExitFrom 2 \<longleftrightarrow> host_misused argv) \<and> (code = ExitSuccess \<longrightarrow> asked_once argv)"
  using wpD [OF host_main_exit_code assms] by auto

text \<open>A server that registers the host and is then silent, and a host that is out of fuel or, as here, a
  server whose connection then breaks.\<close>

definition breaking_ws :: "(ws_msg list, nat) ws_lib" where
  "breaking_ws = register_ws
     \<lparr>ws_read := (\<lambda>(x, w). case x of [] \<Rightarrow> (Inl WsConnectionClosed, x, w) | m # ms \<Rightarrow> (Inr m, ms, w))\<rparr>"

definition breaking ::
  "(ws_msg list, nat, rtc_output option, unit, bytes, bytes \<times> bytes, bytes \<times> bytes, byte, byte, byte) host_crates"
where
  "breaking =
     \<lparr>k_os = register_os, k_ws = breaking_ws, k_json = register_json, k_rtc = sample_rtc, k_wire = register_wire,
      k_aead = sample_aead, k_spake = sample_spake, k_id = sample_id_lib, k_rng = (\<lambda>w. ([9], w)),
      k_key_rng = (\<lambda>w. (Some 3, w)), k_ws_drop = (\<lambda>ws w. ((), w)), k_fuel = Suc REGISTER_STEP\<rparr>"

definition breaking_argv :: "ustr list" where
  "breaking_argv = [lit ''--server'', lit ''wss://h'', lit ''--once'']"

lemma breaking_simps [simp]:
  "k_os breaking = register_os" "k_ws breaking = breaking_ws" "k_json breaking = register_json"
  "k_wire breaking = register_wire" "k_id breaking = sample_id_lib" "k_key_rng breaking = (\<lambda>w. (Some 3, w))"
  "k_ws_drop breaking = (\<lambda>ws w. ((), w))" "k_fuel breaking = Suc REGISTER_STEP"
  by (simp_all add: breaking_def)

lemma breaking_parse:
  "parse_host_args breaking_argv = Some \<lparr>ha_server = lit ''wss://h'', ha_name = lit ''host'', ha_once = True\<rparr>"
  by (simp add: parse_host_args_def breaking_argv_def) (simp add: lit_def)

lemma breaking_name: "check_device_name (lit ''host'') = Inr ()"
  by code_simp

lemma breaking_register:
  "register_host register_os breaking_ws register_json (Suc REGISTER_STEP) register_wire sample_id_lib
     (lit ''wss://h'') keys None 0 =
   (Ok (lit ''123456789'', \<lparr>ws_sock = [], ws_closed = None\<rparr>), 4)"
proof -
  have "ensure_secure_url breaking_ws u = Inr \<lparr>u_scheme = Some (lit ''wss''), u_authority = Some (lit ''h''), u_port = None\<rparr>"
    for u
    by (simp add: ensure_secure_url_def breaking_ws_def register_ws_def eq_ignore_ascii_case_def)
  moreover have "REGISTER_STEP = Suc (Suc (REGISTER_STEP - 2))" by (simp add: REGISTER_STEP_def secs_def)
  then obtain m where "REGISTER_STEP = Suc (Suc m)" ..
  ultimately show ?thesis
    by (simp add: register_host_def register_via_def register_url_def run_simps ws_connect_def Let_def
        ext_total_def ext_def connect_tcp_def with_link_def register_exchange_def ws_recv_def ws_send_def
        on_snd_def now_def on_ws_def set_read_timeout_def check_challenge_def sample_id_digits
        register_os_def sample_os_def breaking_ws_def register_ws_def sample_ws_def register_json_def register_wire_def
        sample_id_lib_def)
qed

lemma breaking_recv:
  "1 < d \<Longrightarrow> ws_recv register_os breaking_ws js (Suc n) d (\<lparr>ws_sock = [], ws_closed = None\<rparr>, w) =
     (Err (LClosed None), \<lparr>ws_sock = [], ws_closed = Some None\<rparr>, Suc (Suc w))"
  by (simp add: ws_recv_def run_simps on_snd_def now_def ext_total_def ext_def on_ws_def set_read_timeout_def
      register_os_def sample_os_def breaking_ws_def register_ws_def sample_ws_def ws_read_error_def map_after_error_def
      set_closed_def)

lemma breaking_code: "host_state_new (linked breaking) v = (Ok (lit ''000000'', limiter_new), v)"
proof -
  have "u32_from_be (replicate 4 0) = 0" by code_simp
  moreover have "(0 :: u32) < code_limit" by (simp add: code_limit_def word_less_nat_alt)
  moreover have "format06 0 = lit ''000000''" by code_simp
  ultimately show ?thesis
    by (cases v) (simp add: host_state_new_def generate_code_def linked_def beside_os_def beside_def register_os_def
        sample_os_def Let_def run_simps)
qed

lemma breaking_service:
  assumes "hc_timeouts cfg = default_timeouts"
  shows "(host_service (linked breaking) cfg (beside_console sample_console) True 1 1
      (host_start (lit ''000000'', limiter_new) (\<lparr>ws_sock = [], ws_closed = None\<rparr>, 4)) :: (unit, exit_code) res \<times> _) =
    (Ok ExitFailure, host_start (lit ''000000'', limiter_new) (\<lparr>ws_sock = [], ws_closed = Some None\<rparr>, 6)
       \<lparr>history := [EvLinkError (LClosed None)]\<rparr>)"
  using assms
  by (simp add: host_service_def host_round_def run_simps sample_console_def beside_console_def beside_def in_world_def
      ext_total_def say_line_def error_line_def host_start_def link_recv_def noting_def record_event_def linked_def
      breaking_recv default_timeouts_def secs_def)

lemma breaking_run:
  "(host_main breaking sample_console 1 1 breaking_argv 0 :: (unit, exit_code) res \<times> nat) = (Ok ExitFailure, 6)"
  by (simp add: host_main_def breaking_parse breaking_name generate_keys_def device_keys_generate_def run_simps
      ext_total_def breaking_register register_ips Let_def host_on_link_def breaking_code in_host_run_def
      breaking_service [unfolded One_nat_def] drop_ws_def beside_def) (simp add: host_start_def)

theorem host_main_exit_witness:
  "ExitFailure \<noteq> ExitFrom 2 \<and> \<not> host_misused breaking_argv"
  using host_main_exit [OF breaking_run] by simp

end
