(* ===== verification/BruteForce.thy ===== *)
theory BruteForce
  imports HostMain
begin

text \<open>
  Guessing the code against the running host: over the whole life of the program, however long it runs
  and wherever the day of the attacker begins, the limiter lets few guesses through.
\<close>

section \<open>The order of events in a life\<close>

text \<open>Every counted guess was let through by a check with no other guess in between, and at no moment
  has the host answered more guesses than it has counted.\<close>

definition lawful :: "wire \<Rightarrow> hevent list \<Rightarrow> bool" where
  "lawful w tr \<longleftrightarrow>
     (\<forall>a t b c. tr = a @ EvFailureRecorded t b # c \<longrightarrow>
        (\<exists>a1 t' a2. a = a1 @ EvChecked t' (Inr ()) # a2 \<and> guesses a2 = [])) \<and>
     (\<forall>a c. tr = a @ c \<longrightarrow> replies w a \<le> length (guesses a))"

lemma lawfulD:
  "lawful w tr \<Longrightarrow> tr = a @ EvFailureRecorded t b # c \<Longrightarrow>
     \<exists>a1 t' a2. a = a1 @ EvChecked t' (Inr ()) # a2 \<and> guesses a2 = []"
  "lawful w tr \<Longrightarrow> tr = a @ c \<Longrightarrow> replies w a \<le> length (guesses a)"
  by (auto simp: lawful_def)

lemma replies_append [simp]: "replies w (xs @ ys) = replies w xs + replies w ys"
  by (simp add: replies_def)

lemma lawful_append:
  assumes "lawful w xs" "lawful w ys"
  shows "lawful w (xs @ ys)"
  unfolding lawful_def
proof (intro conjI allI impI)
  fix a t b c
  assume "xs @ ys = a @ EvFailureRecorded t b # c"
  then consider us where "xs = a @ EvFailureRecorded t b # us" | us where "a = xs @ us" "ys = us @ EvFailureRecorded t b # c"
    by (auto simp: append_eq_append_conv2 append_eq_Cons_conv)
  then show "\<exists>a1 t' a2. a = a1 @ EvChecked t' (Inr ()) # a2 \<and> guesses a2 = []"
  proof cases
    case 2
    with lawfulD(1) [OF assms(2) 2(2)] show ?thesis by (metis append.assoc)
  qed (rule lawfulD(1) [OF assms(1)])
next
  fix a c
  assume "xs @ ys = a @ c"
  then consider us where "xs = a @ us" | us where "a = xs @ us" "ys = us @ c"
    by (auto simp: append_eq_append_conv2)
  then show "replies w a \<le> length (guesses a)"
  proof cases
    case 2
    with lawfulD(2) [OF assms(1), of xs "[]"] lawfulD(2) [OF assms(2) 2(2)] show ?thesis by simp
  qed (rule lawfulD(2) [OF assms(1)])
qed

lemma lawful_aside:
  assumes "list_all session_event tr"
  shows "lawful w tr"
proof -
  have none: "guesses a = [] \<and> replies w a = 0" if "tr = a @ c" for a c
    using aside_uncounted [of a w] assms that by simp
  have "tr \<noteq> a @ EvFailureRecorded t b # c" for a t b c
    using none [of "a @ [EvFailureRecorded t b]" c] by auto
  with none show ?thesis by (auto simp: lawful_def)
qed

text \<open>In one run the milestones come in their order.\<close>

lemma take_split:
  "xs @ m # ys = take k all_milestones \<Longrightarrow> m = MCounted \<Longrightarrow> xs = [MAllowed]"
  by (cases xs; cases "tl xs") (auto simp: all_milestones_def take_Cons Cons_eq_append_conv append_eq_Cons_conv split: nat.splits)

lemma check_in_milestones:
  "milestones w a = [MAllowed] \<Longrightarrow> \<exists>a1 t a2. a = a1 @ EvChecked t (Inr ()) # a2 \<and> milestones w a2 = []"
proof (induction a)
  case (Cons e a)
  show ?case
  proof (cases "milestone_of w e")
    case None
    with Cons obtain a1 t a2 where "a = a1 @ EvChecked t (Inr ()) # a2" "milestones w a2 = []" by auto
    then show ?thesis by (metis append_Cons)
  next
    case (Some m)
    with Cons.prems have m: "m = MAllowed" "milestones w a = []" by auto
    with Some milestone_billed(3) [of w e] obtain t where "e = EvChecked t (Inr ())" by auto
    with m show ?thesis by (intro exI [of _ "[]"] exI [of _ t] exI [of _ a]) simp
  qed
qed (simp add: milestones_def)

lemma lawful_run:
  assumes "passed w tr q k"
  shows "lawful w tr"
  unfolding lawful_def
proof (intro conjI allI impI)
  have ms: "milestones w tr = take k all_milestones" using assms by (simp add: passed_def)
  {
    fix a t b c
    assume tr: "tr = a @ EvFailureRecorded t b # c"
    have "milestone_of w (EvFailureRecorded t b) = Some MCounted" using milestone_billed(1) by blast
    with ms tr have "milestones w a @ MCounted # milestones w c = take k all_milestones"
      by (simp add: milestones_append)
    from take_split [OF this refl] check_in_milestones obtain a1 t' a2 where
      "a = a1 @ EvChecked t' (Inr ()) # a2" "milestones w a2 = []" by blast
    with free_history [of w a2] show "\<exists>a1 t' a2. a = a1 @ EvChecked t' (Inr ()) # a2 \<and> guesses a2 = []"
      by auto
  }
  fix a c
  assume tr: "tr = a @ c"
  have "milestones w a = take (length (milestones w a)) (milestones w tr)"
    using tr by (simp add: milestones_append)
  then obtain j where "milestones w a = take j all_milestones" using ms by (metis take_take)
  then show "replies w a \<le> length (guesses a)"
    unfolding milestone_counts [where w = w]
    by (auto simp: all_milestones_def take_Cons split: nat.splits)
qed

lemma life_of_host:
  assumes "wire_ok (l_wire L)" "host_runs L cfg s s'"
  shows "\<exists>tr. history s' = history s @ tr \<and> honest (h_limiter s) tr \<and> h_limiter s' = bill (h_limiter s) tr \<and>
    lawful (l_wire L) tr"
proof -
  have quiet: "bill l tr = l \<and> honest l tr" if "list_all session_event tr" for l tr
    using that
  proof (induction tr)
    case (Cons e tr)
    then show ?case by (cases e) auto
  qed simp
  show ?thesis
    using assms(2)
  proof (induction rule: host_runs.induct)
    case (no_run s')
    then obtain tr where "history s' = history s @ tr" "list_all session_event tr" by (auto simp: aside_def)
    with quiet [OF this(2)] lawful_aside aside_code [OF no_run] show ?case by (intro exI [of _ tr]) auto
  next
    case (next_run s1 approve n r s2 s3)
    then obtain tr1 where tr1: "history s1 = history s @ tr1" "honest (h_limiter s) tr1"
      "h_limiter s1 = bill (h_limiter s) tr1" "lawful (l_wire L) tr1" by blast
    from serve_next_run [OF assms(1) next_run.hyps(2)] obtain tr2 k q where tr2:
      "history s2 = history s1 @ tr2" "passed (l_wire L) tr2 q k"
      "honest (h_limiter s1) tr2" "h_limiter s2 = bill (h_limiter s1) tr2" by metis
    from next_run.hyps(3) obtain tr3 where tr3: "history s3 = history s2 @ tr3" "list_all session_event tr3"
      by (auto simp: aside_def)
    have "lawful (l_wire L) (tr1 @ tr2 @ tr3)"
      by (intro lawful_append tr1(4) lawful_run [OF tr2(2)] lawful_aside [OF tr3(2)])
    then show ?case
      using tr1 tr2 tr3 quiet [OF tr3(2)] aside_code [OF next_run.hyps(3)]
      by (intro exI [of _ "tr1 @ tr2 @ tr3"]) auto
  qed
qed

section \<open>A window of the life\<close>

lemma bill_guesses: "EvSuccessRecorded \<notin> set tr \<Longrightarrow> bill l tr = foldl punished l (guesses tr)"
proof (induction tr arbitrary: l)
  case (Cons e tr)
  then show ?case by (cases e) auto
qed simp

text \<open>Between two guesses of the window lies the check that let the second one through.\<close>

lemma window_gated:
  assumes "honest l0 (before @ day @ later)" "lawful w (before @ day @ later)"
    "sorted (event_times day)" "EvSuccessRecorded \<notin> set day" "guesses day = t0 # ts"
  shows "gated_run limiter_check punished (punished (bill l0 before) t0) ts"
proof -
  let ?l = "bill l0 before"
  have "gated_run limiter_check punished (punished ?l t0) ts"
    if "day = d @ c" "guesses d = t0 # ts" for d c ts
    using that
  proof (induction d arbitrary: c ts rule: rev_induct)
    case (snoc e d)
    show ?case
    proof (cases "guess_time e")
      case None
      with snoc.IH [of "e # c" ts] snoc.prems show ?thesis by simp
    next
      case (Some t)
      then obtain b where e: "e = EvFailureRecorded t b" by (cases e) auto
      show ?thesis
      proof (cases ts rule: rev_cases)
        case (snoc us u)
        with snoc.prems(2) Some have g: "guesses d = t0 # us" "u = t" by auto
        have "before @ day @ later = (before @ d) @ EvFailureRecorded t b # c @ later" using snoc.prems(1) e by simp
        from lawfulD(1) [OF assms(2) this] obtain a1 t' a2 where
          a: "before @ d = a1 @ EvChecked t' (Inr ()) # a2" "guesses a2 = []" by blast
        obtain d1 where d1: "d = d1 @ EvChecked t' (Inr ()) # a2"
        proof (cases "length a2 < length d")
          case True
          have "EvChecked t' (Inr ()) # a2 = drop (length (before @ d) - Suc (length a2)) (before @ d)"
            unfolding a(1) by simp
          also have "\<dots> = drop (length d - Suc (length a2)) d" using True by simp
          finally show thesis using that [of "take (length d - Suc (length a2)) d"] by simp
        next
          case False
          have "a2 = drop (length (before @ d) - length a2) (before @ d)" unfolding a(1) by simp
          also have "\<dots> = drop (length (before @ d) - length a2) before @ d" using False by simp
          finally have "guesses a2 = guesses (drop (length (before @ d) - length a2) before) @ guesses d"
            by (metis guesses_simps(2))
          with a(2) g(1) show thesis by simp
        qed
        have "honest ?l d" using assms(1) snoc.prems(1) by simp
        with d1 have check: "limiter_check (bill ?l d1) t' = Inr ()" by simp
        have "EvSuccessRecorded \<notin> set d1" using assms(4) snoc.prems(1) d1 by auto
        then have "bill ?l d1 = foldl punished ?l (t0 # us)"
          using bill_guesses d1 a(2) g(1) by simp
        moreover have "t' \<le> t" using assms(3) snoc.prems(1) d1 e by (auto simp: sorted_append)
        ultimately have "limiter_check (foldl punished (punished ?l t0) us) t = Inr ()"
          using check by (auto intro: limiter_check_mono)
        moreover have "gated_run limiter_check punished (punished ?l t0) us"
          using snoc.IH [of "e # c" us] snoc.prems(1) g(1) by simp
        ultimately show ?thesis using snoc g(2) by (simp add: gated_run_snoc)
      qed simp
    qed
  qed simp
  from this [of day "[]" ts] assms(5) show ?thesis by simp
qed

lemma streak_bound: "unat (consecutive_failures (bill l tr)) \<le> unat (consecutive_failures l) + length (guesses tr)"
proof (induction tr arbitrary: l)
  case (Cons e tr)
  have "unat (c + 1) \<le> Suc (unat c)" for c :: u32
    by (metis Suc_eq_plus1 mod_less_eq_dividend unat_1 unat_word_ariths(1))
  then have "unat (consecutive_failures (billed l e)) \<le> unat (consecutive_failures l) + length (guesses [e])"
    by (cases e) (auto simp: limiter_record_failure_def Let_def limiter_record_success_def limiter_new_def)
  with Cons [of "billed l e"] show ?case by simp
qed simp

lemma penalty_mono:
  assumes "i \<le> j"
  shows "penalty i \<le> penalty j"
proof -
  have "(2 :: nat) ^ i \<le> 2 ^ j" using assms by simp
  then have "min ((2 :: nat) ^ i) 86400 \<le> min (2 ^ j) 86400" by (rule min.mono) simp
  then show ?thesis by (simp only: penalty_def secs_def mult_le_mono)
qed

text \<open>From any state of the limiter on.\<close>

lemma limiter_window_bound:
  assumes "gated_run limiter_check punished (punished l t0) ts"
    and "last (t0 # ts) < t0 + secs 86400" and "unat (consecutive_failures l) + length ts < 2 ^ 32 - 1"
  shows "length ts \<le> 16"
proof (rule ccontr)
  assume "\<not> length ts \<le> 16"
  then have n: "17 \<le> length ts" by simp
  have "t0 + (\<Sum>i<length ts. penalty (unat (consecutive_failures l) + i)) \<le> last (t0 # ts)"
    by (rule limiter.gated_run_elapsed [OF assms(1)]) (use assms(3) in simp)
  moreover have "(\<Sum>i<length ts. penalty i) \<le> (\<Sum>i<length ts. penalty (unat (consecutive_failures l) + i))"
    by (intro sum_mono penalty_mono) simp
  moreover have "(\<Sum>i<17. penalty i) \<le> (\<Sum>i<length ts. penalty i)"
    using n by (rule sum_penalty_mono)
  moreover have "(\<Sum>i<17. penalty i) = secs 131071"
    using sum_penalty_small [of 17] by simp
  ultimately show False using assms(2) by (simp add: secs_def)
qed

section \<open>Properties\<close>

text \<open>C1: Brute force against a host is bounded: in a whole life of the host program, with any viewers, any
  server and any user, whatever day one looks at, the host counts at most 17 code guesses within it,
  unless one of them is right, and at no moment has it answered more guesses than it has counted.  The
  clock must not run backwards; the counter of the limiter has to be far from its end, which is
  thousands of millions of guesses away.\<close>

theorem host_brute_force_bound:
  fixes L :: "('w, 'rtc, 'p, 'k, 'st, 'out, 'sk, 'xk, 'rnd) host_libs" and r :: "('x, exit_code) res"
  assumes "wire_ok (l_wire L)"
    and "host_service L cfg con once n m (host_start (code, limiter_new) w) = (r, s')"
    and "history s' = before @ day @ later" and "EvSuccessRecorded \<notin> set day"
    and "sorted (event_times day)" and "\<forall>t\<in>set (event_times day). t0 \<le> t \<and> t < t0 + secs 86400"
    and "length (guesses (history s')) < 2 ^ 32 - 1"
  shows "length (guesses day) \<le> 17 \<and> replies (l_wire L) before \<le> length (guesses before)"
proof -
  from wpD [OF host_service_runs assms(2)]
  have "host_runs L cfg (host_start (code, limiter_new) w) s'" .
  from life_of_host [OF assms(1) this] assms(3)
  have life: "honest limiter_new (before @ day @ later)" "lawful (l_wire L) (before @ day @ later)"
    by (auto simp: host_start_def)
  have "length (guesses day) \<le> 17"
  proof (cases "guesses day")
    case (Cons t ts)
    have times: "set (t # ts) \<subseteq> set (event_times day)" using guesses_times [of day] Cons by simp
    then have "t0 \<le> t" "last (t # ts) < t0 + secs 86400" using assms(6) last_in_set [of "t # ts"] by auto
    then have "last (t # ts) < t + secs 86400" by linarith
    moreover have "unat (consecutive_failures (bill limiter_new before)) + length ts < 2 ^ 32 - 1"
      using streak_bound [of limiter_new before] assms(3,7) Cons by (simp add: limiter_new_def)
    ultimately have "length ts \<le> 16"
      using window_gated [OF life assms(5,4) Cons] by (intro limiter_window_bound)
    then show ?thesis using Cons by simp
  qed simp
  then show ?thesis using lawfulD(2) [OF life(2), of before "day @ later"] by simp
qed

lemma guess_service:
  "(host_service (sample_host guess_script []) sample_host_config sample_console False 1 1
      (host_start (lit ''123456'', limiter_new) ((), 0)) :: (unit, exit_code) res \<times> _) =
   (Hang, sample_run\<lparr>world := ((), 5), history := guess_history,
      h_limiter := fst (limiter_record_failure limiter_new 3)\<rparr>)"
proof -
  have start: "host_start (lit ''123456'', limiter_new) ((), 0) = sample_run"
    by (simp add: host_start_def sample_run_def)
  show ?thesis
    unfolding start using guess_run [of "[]" "\<lambda>r w. (None, w)"]
    by (simp add: host_service_def host_round_def run_simps sample_console_def in_world_def ext_total_def say_line_def
        sample_run_def)
qed

theorem host_brute_force_bound_witness:
  "length (guesses guess_history) \<le> 17 \<and> replies sample_wire [] \<le> length (guesses [])"
proof -
  from host_brute_force_bound [OF _ guess_service, of "[]" guess_history "[]" 0] show ?thesis
    by (simp add: sample_wire_ok guess_history_def secs_def)
qed

end
