(* ===== verification/Apart.thy ===== *)
theory Apart
  imports HostSession
begin

text \<open>
  Steps that leave a part of the state alone.  \<open>apart tm m\<close> says that \<open>m\<close> does not change what \<open>tm\<close> reads
  of the state; the terminal of a program is such a part of the world for everything but the lines the
  program prints and the questions it asks.  \<open>apart_libs\<close> asks it of the surroundings of a flow, and the
  lemmas carry it through the steps of the host.
\<close>

section \<open>Programs apart from a part of the state\<close>

definition apart :: "('s \<Rightarrow> 't) \<Rightarrow> ('s \<Rightarrow> 'a \<times> 's) \<Rightarrow> bool" where
  "apart tm f \<longleftrightarrow> (\<forall>s. tm (snd (f s)) = tm s)"

lemma apartI: "(\<And>s. tm (snd (f s)) = tm s) \<Longrightarrow> apart tm f"
  by (simp add: apart_def)

lemma apartD: "apart tm f \<Longrightarrow> tm (snd (f s)) = tm s"
  by (simp add: apart_def)

lemma apart_run: "apart tm f \<Longrightarrow> f s = (a, s') \<Longrightarrow> tm s' = tm s"
  by (metis apartD snd_conv)

lemma apart_wp: "apart tm m \<Longrightarrow> wp m (\<lambda>r s'. tm s' = tm s) s"
  by (rule wpI) (rule apart_run)

lemma apart_pure [apart_intros]:
  "apart tm (ret a)" "apart tm (fail x)" "apart tm panic" "apart tm hang" "apart tm (gets f)"
  "apart tm (lift_sum v)" "apart tm (expect w)" "apart tm (run_local t m)"
proof -
  show "apart tm (lift_sum v)" by (cases v) (simp_all add: apart_def run_simps)
  show "apart tm (expect w)" by (cases w) (simp_all add: apart_def run_simps)
qed (simp_all add: apart_def run_simps run_local_def)

lemma apart_handle [apart_intros]:
  assumes "apart tm m" "\<And>a. apart tm (f a)" "\<And>x. apart tm (g x)"
  shows "apart tm (handle m f g)"
proof (rule apartI)
  fix s
  show "tm (snd (handle m f g s)) = tm s"
    using apartD [OF assms(1), of s] apartD [OF assms(2)] apartD [OF assms(3)]
    by (auto simp: handle_def split: prod.splits res.splits)
qed

lemma apart_bnd [apart_intros]: "apart tm m \<Longrightarrow> (\<And>a. apart tm (f a)) \<Longrightarrow> apart tm (bnd m f)"
  unfolding bnd_def by (intro apart_intros)

lemma apart_wrap [apart_intros]:
  "apart tm m \<Longrightarrow> apart tm (map_err h m)" "apart tm m \<Longrightarrow> apart tm (ignore m)"
  "apart tm m \<Longrightarrow> apart tm (attempt_ok m)" "apart tm m \<Longrightarrow> apart tm (infallible m)"
  unfolding map_err_def ignore_def attempt_ok_def infallible_def by (intro apart_intros; assumption)+

lemma apart_if [apart_intros]: "apart tm m \<Longrightarrow> apart tm m' \<Longrightarrow> apart tm (if b then m else m')"
  by simp

lemma apart_modify: "(\<And>s. tm (f s) = tm s) \<Longrightarrow> apart tm (modify f)"
  by (simp add: apart_def modify_def)

lemma apart_ext [apart_intros]: "apart tm f \<Longrightarrow> apart tm (ext f)"
  by (auto simp: apart_def ext_def split: prod.splits sum.splits) (metis snd_conv)+

lemma apart_ext_total [apart_intros]: "apart tm f \<Longrightarrow> apart tm (ext_total f)"
  by (auto simp: apart_def ext_total_def split: prod.splits) (metis snd_conv)

lemma apart_on_snd [apart_intros]: "apart tm m \<Longrightarrow> apart (\<lambda>s. tm (snd s)) (on_snd m)"
  by (auto simp: apart_def on_snd_def split: prod.splits) (metis snd_conv)

lemma apart_rtc_call [apart_intros]: "apart (\<lambda>s. tm (snd s)) (rtc_call op)"
  by (auto simp: apart_def rtc_call_def split: prod.splits sum.splits)

lemma apart_take_event [apart_intros]: "apart (\<lambda>s. tm (snd s)) (take_event e)"
  by (auto simp: apart_def take_event_def split: prod.splits)

lemma apart_absorb [apart_intros]: "apart (\<lambda>s. tm (snd s)) (ch_absorb es)" "apart (\<lambda>s. tm (snd s)) ch_pop"
  by (auto simp: apart_def ch_absorb_def ch_pop_def split: prod.splits option.splits)

lemma apart_on_peer [apart_intros]: "apart (\<lambda>s. tm (snd s)) m \<Longrightarrow> apart (\<lambda>s. tm (snd s)) (on_peer m)"
  by (auto simp: apart_def on_peer_def split: prod.splits) (metis snd_conv)

lemma apart_in_world [apart_intros]: "apart tm m \<Longrightarrow> apart (\<lambda>s. tm (world s)) (in_world m)"
  by (auto simp: apart_def in_world_def split: prod.splits) (metis snd_conv)

lemma apart_on_chan [apart_intros]:
  "apart (\<lambda>s. tm (snd s)) m \<Longrightarrow> apart (\<lambda>t. tm (world (snd t))) (on_chan m)"
  by (auto simp: apart_def on_chan_def split: prod.splits) (metis snd_conv)

lemma apart_in_scope [apart_intros]:
  "apart (\<lambda>s. tm (world s)) m \<Longrightarrow> apart (\<lambda>t. tm (world (snd t))) (on_snd m)"
  by (rule apart_on_snd [where tm = "\<lambda>s. tm (world s)"])

lemma apart_record [apart_intros]: "apart (\<lambda>s. tm (world s)) (record_event e)"
  unfolding record_event_def by (rule apart_modify) simp

lemma apart_noting [apart_intros]:
  "apart (\<lambda>s. tm (world s)) m \<Longrightarrow> apart (\<lambda>s. tm (world s)) (noting f g m)"
  unfolding noting_def by (intro apart_intros)

lemma apart_noting_c [apart_intros]:
  "apart (\<lambda>s. tm (snd s)) m \<Longrightarrow> apart (\<lambda>t. tm (world (snd t))) (noting_c f m)"
  unfolding noting_c_def by (intro apart_intros)

section \<open>Surroundings apart from it\<close>

definition apart_os :: "('w \<Rightarrow> 't) \<Rightarrow> 'w os \<Rightarrow> bool" where
  "apart_os tm sys \<longleftrightarrow>
     apart tm (os_now sys) \<and> (\<forall>d. apart tm (os_sleep sys d)) \<and> (\<forall>n. apart tm (os_random sys n)) \<and>
     (\<forall>a. apart tm (udp_bind sys a)) \<and> (\<forall>h. apart tm (udp_nonblocking sys h)) \<and>
     (\<forall>h. apart tm (udp_local_addr sys h)) \<and> (\<forall>h b a. apart tm (udp_send sys h b a)) \<and>
     (\<forall>h n. apart tm (udp_recv sys h n))"

definition apart_libs ::
  "('w \<Rightarrow> 't) \<Rightarrow> ('i, 'o, 'w, 'rtc, 'p, 'k, 'st, 'out, 'sk, 'xk, 'rnd) libs \<Rightarrow> bool"
where
  "apart_libs tm L \<longleftrightarrow>
     apart_os tm (l_os L) \<and> apart tm (l_rng L) \<and> (\<forall>m. apart tm (l_send L m)) \<and> (\<forall>d. apart tm (l_recv L d))"

lemma apart_osD:
  assumes "apart_os tm sys"
  shows "apart tm (os_now sys)" "apart tm (os_sleep sys d)" "apart tm (os_random sys n)"
    "apart tm (udp_bind sys a)" "apart tm (udp_nonblocking sys h)" "apart tm (udp_local_addr sys h)"
    "apart tm (udp_send sys h b sa)" "apart tm (udp_recv sys h n)" "apart tm (now sys)"
  using assms unfolding apart_os_def now_def by (auto intro: apart_ext_total simp del: split_paired_All)

lemma apart_libsD:
  assumes "apart_libs tm L"
  shows "apart_os tm (l_os L)" "apart tm (l_rng L)" "apart tm (l_send L m)" "apart tm (l_recv L d)"
  using assms by (simp_all add: apart_libs_def)

section \<open>The peer and its channel\<close>

lemma apart_drain: "apart_os tm sys \<Longrightarrow> apart (\<lambda>s. tm (snd s)) (drain_output sys lib n events)"
  by (induction n arbitrary: events)
    (auto intro!: apart_intros apart_osD split: rtc_output.splits option.splits)

lemma apart_pump: "apart_os tm sys \<Longrightarrow> apart (\<lambda>s. tm (snd s)) (pump_list sys lib socks got)"
  by (induction socks arbitrary: got) (auto intro!: apart_intros apart_osD)

lemma apart_poll_loop: "apart_os tm sys \<Longrightarrow> apart (\<lambda>s. tm (snd s)) (poll_loop sys lib fl n t)"
proof (induction n)
  case (Suc n)
  show ?case
    unfolding poll_loop.simps pump_sockets_def
    by (intro apart_intros apart_drain apart_pump apart_osD Suc)
qed (simp add: apart_intros)

lemma apart_poll: "apart_os tm sys \<Longrightarrow> apart (\<lambda>s. tm (snd s)) (peer_poll sys lib fl d)"
  unfolding peer_poll_def by (intro apart_intros apart_poll_loop apart_osD)

lemma apart_peer_new: "apart_os tm sys \<Longrightarrow> apart tm (peer_new sys lib ips)"
proof -
  assume os: "apart_os tm sys"
  have "apart tm (add_ips sys lib l q)" for l q
    by (induction l arbitrary: q) (auto intro!: apart_intros apart_osD [OF os])
  with os show ?thesis
    unfolding peer_new_def by (intro apart_intros apart_osD)
qed

lemma apart_peer_steps [apart_intros]:
  "apart (\<lambda>s. tm (snd s)) (peer_accept_offer lib sdp)" "apart (\<lambda>s. tm (snd s)) (peer_send lib bs)"
  "apart (\<lambda>s. tm (snd s)) (peer_close lib)" "apart (\<lambda>s. tm (snd s)) (peer_local_fp lib)"
  "apart (\<lambda>s. tm (snd s)) (peer_remote_fp lib)"
  unfolding peer_accept_offer_def peer_send_def peer_local_fp_def peer_remote_fp_def peer_close_def
  by (auto intro!: apart_intros split: option.splits)

lemma apart_encoders [apart_intros]: "apart tm (pake_encode w m)" "apart tm (control_encode w c)"
  by (auto simp: pake_encode_def control_encode_def intro!: apart_intros split: option.splits)

lemma apart_host_pake [apart_intros]:
  "apart tm (host_respond sp code hid pa rnd)" "apart tm (host_confirm sp out mac)"
  unfolding host_respond_def host_confirm_def derive_session_keys_def
  by (auto intro!: apart_intros split: option.splits)

lemma apart_channel_next: "apart_os tm sys \<Longrightarrow> apart (\<lambda>s. tm (snd s)) (channel_next sys lib w fl n d)"
  by (induction n) (auto intro!: apart_intros apart_poll apart_osD split: option.splits)

lemma apart_wait_open: "apart_os tm sys \<Longrightarrow> apart (\<lambda>s. tm (snd s)) (channel_wait_open sys lib fl n d)"
  by (induction n) (auto intro!: apart_intros apart_poll apart_osD)

lemma apart_close: "apart_os tm sys \<Longrightarrow> apart (\<lambda>s. tm (snd s)) (channel_close sys lib fl)"
  unfolding channel_close_def
  by (intro apart_intros apart_poll apart_modify) (auto split: prod.splits)

section \<open>The steps of the host\<close>

abbreviation apart_run :: "('w \<Rightarrow> 't) \<Rightarrow> ('w host_run, 'x, 'a) prog \<Rightarrow> bool" where
  "apart_run tm m \<equiv> apart (\<lambda>s. tm (world s)) m"

abbreviation apart_scope :: "('w \<Rightarrow> 't) \<Rightarrow> ('rtc channel \<times> 'w host_run, 'x, 'a) prog \<Rightarrow> bool" where
  "apart_scope tm m \<equiv> apart (\<lambda>t. tm (world (snd t))) m"

lemma apart_flow:
  fixes L :: "('w, 'rtc, 'p, 'k, 'st, 'out, 'sk, 'xk, 'rnd) host_libs"
  assumes "apart_libs tm L"
  shows "apart_run tm (get_now L)" "apart_run tm (link_send L m)" "apart_run tm (link_recv L d)"
    "apart_scope tm (c_next L t)" "apart_scope tm (c_wait_open L t)" "apart_scope tm (c_send L msg)"
    "apart_run tm (drop_channel L ch)" "apart_run tm (in_world (ext_total (l_rng L)))"
    "apart_run tm (in_world (peer_new (l_os L) (l_rtc L) ips))"
proof -
  note libs = apart_libsD [OF assms]
  note os = apart_osD [OF libs(1)]
  show "apart_run tm (get_now L)" "apart_run tm (link_send L m)" "apart_run tm (link_recv L d)"
    "apart_scope tm (c_next L t)" "apart_scope tm (c_wait_open L t)" "apart_scope tm (c_send L msg)"
    "apart_run tm (in_world (ext_total (l_rng L)))" "apart_run tm (in_world (peer_new (l_os L) (l_rtc L) ips))"
    unfolding get_now_def link_send_def link_recv_def c_next_def c_wait_open_def c_send_def channel_send_def
    by (intro apart_intros apart_channel_next apart_wait_open apart_peer_new libs os)+
  have "apart tm (\<lambda>w. case channel_drop (l_os L) (l_rtc L) (l_fuel L) (ch, w) of (r, c', w') \<Rightarrow> (r, w'))"
    by (rule apartI) (auto simp: channel_drop_def split: prod.splits dest!: apart_run [OF apart_close [OF libs(1)]])
  then show "apart_run tm (drop_channel L ch)"
    unfolding drop_channel_def by (intro apart_intros)
qed

lemma apart_code: "apart tm fill \<Longrightarrow> apart tm (code_generate fill n)"
proof (induction n)
  case (Suc n)
  from apartD [OF Suc.IH [OF Suc.prems]] show ?case
    by (intro apartI) (auto simp: Let_def split: prod.splits option.splits dest: apart_run [OF Suc.prems])
qed (simp add: apart_intros)

lemma apart_renew:
  fixes L :: "('w, 'rtc, 'p, 'k, 'st, 'out, 'sk, 'xk, 'rnd) host_libs"
  assumes "apart_libs tm L"
  shows "apart_run tm (renew_code L)"
proof -
  have rnd: "apart tm (os_random (l_os L) 4)"
    by (rule apart_osD [OF apart_libsD(1) [OF assms]])
  have "apart tm (generate_code L)"
    unfolding generate_code_def by (rule apart_code [OF rnd])
  then show ?thesis
    unfolding renew_code_def by (intro apart_intros apart_modify) simp_all
qed

lemma apart_relay:
  assumes "apart_libs tm L"
  shows "apart_run tm (send_relay L m)" "apart_run tm (recv_relay L d)" "apart_run tm (kicked L f)"
    "apart_run tm (reject_relay L f)"
  unfolding send_relay_def recv_relay_def kicked_def reject_relay_def
  by (intro apart_intros apart_flow [OF assms])+

lemma apart_reject_decision:
  fixes L :: "('w, 'rtc, 'p, 'k, 'st, 'out, 'sk, 'xk, 'rnd) host_libs"
  assumes "apart_libs tm L"
  shows "apart_scope tm (reject_decision L reason f d)"
proof -
  have "apart_scope tm (linger_loop L n t :: (_, 'x, _) prog)" for n t
    by (induction n) (auto intro!: apart_intros apart_flow [OF assms] split: next_msg.splits)
  then show ?thesis
    unfolding reject_decision_def by (intro apart_intros apart_flow [OF assms])
qed

lemma apart_decide: "apart_libs tm L \<Longrightarrow> apart_scope tm (host_decide L t viewer a)"
  by (cases a) (auto intro!: apart_intros apart_flow apart_renew apart_reject_decision)

lemma apart_answer_offer:
  assumes "apart_libs tm L"
  shows "apart_scope tm (answer_offer L sk offer)"
proof -
  have "apart_scope tm (send_answer L sk a)" for a
    by (cases a) (auto intro!: apart_intros apart_relay [OF assms])
  then show ?thesis
    unfolding answer_offer_def by (intro apart_intros)
qed

lemma apart_count:
  assumes "apart_libs tm L"
  shows "apart_run tm (count_failure L)"
  unfolding count_failure_def
  by (intro apart_intros apart_flow [OF assms] apart_renew [OF assms] apart_modify) simp

lemma apart_pings:
  fixes L :: "('w, 'rtc, 'p, 'k, 'st, 'out, 'sk, 'xk, 'rnd) host_libs"
  assumes "apart_libs tm L"
  shows "apart_scope tm (serve_pings L d)"
proof -
  have close: "apart (\<lambda>s. tm (snd s)) (channel_close (l_os L) (l_rtc L) (l_fuel L))"
    by (rule apart_close [OF apart_libsD(1) [OF assms]])
  have "apart_scope tm (serve_pings_loop L n t)" for n t
    by (induction n)
      (auto intro!: apart_intros apart_flow [OF assms] close split: next_msg.splits control.splits)
  then show ?thesis
    unfolding serve_pings_def by (intro apart_intros apart_flow [OF assms])
qed

section \<open>Rules\<close>

lemma wp_bnd_apart:
  assumes "apart tm m" "\<And>a s'. tm s' = tm s \<Longrightarrow> wp (f a) Q s'"
    and "\<And>r s'. tm s' = tm s \<Longrightarrow> \<forall>a. r \<noteq> Ok a \<Longrightarrow> Q r s'"
  shows "wp (bnd m f) Q s"
  unfolding wp_bnd
  by (rule wp_mono [OF apart_wp [OF assms(1)]]) (auto simp: after_def assms(2,3) split: res.splits)

lemma wp_handle_apart:
  assumes "apart tm m" "\<And>a s'. tm s' = tm s \<Longrightarrow> wp (f a) Q s'" "\<And>x s'. tm s' = tm s \<Longrightarrow> wp (g x) Q s'"
    and "\<And>r s'. tm s' = tm s \<Longrightarrow> \<forall>a. r \<noteq> Ok a \<Longrightarrow> Q r s'"
  shows "wp (handle m f g) Q s"
  unfolding wp_handle
  by (rule wp_mono [OF apart_wp [OF assms(1)]]) (auto simp: after_def assms(2-4) split: res.splits)

end
