(* ===== verification/Terminal.thy ===== *)
theory Terminal
  imports Apart HostMain
begin

text \<open>
  The host program at its terminal.  The console of \<open>HostApp\<close> is here the standard output of the program
  and its \<open>Approver\<close> (\<open>apps/host-agent/src/main.rs\<close>), whose reader thread may take any turns between two
  calls.  The terminal is a part of the world that nothing else touches (\<open>Apart\<close>), so what it shows can be
  told from the lines on it and from the lines the user typed.
\<close>

section \<open>The terminal\<close>

text \<open>\<open>tm_log\<close> is a ghost: the calls of the approver and the turns of its thread, in order.\<close>

record terminal =
  tm_approver :: approver
  tm_console :: console
  tm_log :: "approval_event list"

definition terminal_new :: terminal where
  "terminal_new = \<lparr>tm_approver = fst approver_spawn, tm_console = snd approver_spawn, tm_log = []\<rparr>"

definition terminal_say :: "ustr \<Rightarrow> terminal \<Rightarrow> terminal" where
  "terminal_say line T = T\<lparr>tm_console := say line (tm_console T)\<rparr>"

primrec thread_turns :: "(instant \<times> read_line) list \<Rightarrow> terminal \<Rightarrow> terminal" where
  "thread_turns [] T = T"
| "thread_turns (tr # ts) T =
     thread_turns ts
       (T\<lparr>tm_console := reader_turn (fst tr) (snd tr) (tm_console T),
          tm_log := tm_log T @ [ReaderTurn (fst tr) (snd tr)]\<rparr>)"

definition terminal_ask :: "instant \<Rightarrow> approval_request \<Rightarrow> terminal \<Rightarrow> bool option \<times> terminal" where
  "terminal_ask t req T =
     (case approver_answer t req (tm_approver T, tm_console T) of
        (b, a, c) \<Rightarrow> (b, \<lparr>tm_approver = a, tm_console = c, tm_log = tm_log T @ [Answer t req]\<rparr>))"

definition terminal_end :: "terminal \<Rightarrow> terminal" where
  "terminal_end T = T\<lparr>tm_approver := end_question (tm_approver T), tm_log := tm_log T @ [EndQuestion]\<rparr>"

text \<open>The console of the program: \<open>turns\<close> says what the reader thread has done since the last call, the
  clock is read when a question is shown, and \<open>err\<close> is the error output.\<close>

definition terminal_console ::
  "'v os \<Rightarrow> ('v \<Rightarrow> (instant \<times> read_line) list \<times> 'v) \<Rightarrow> (ustr \<Rightarrow> 'v \<Rightarrow> unit \<times> 'v) \<Rightarrow> (terminal \<times> 'v) host_console"
where
  "terminal_console sys turns err =
     \<lparr>hc_say = (\<lambda>line (T, v). ((), terminal_say line T, v)),
      hc_error = (\<lambda>line. beside (err line)),
      hc_answer = (\<lambda>req (T, v).
        case turns v of (ts, v1) \<Rightarrow>
          let T1 = thread_turns ts T
          in (case (if ap_asked_at (tm_approver T1) = None then os_now sys v1 else (0, v1)) of (t, v2) \<Rightarrow>
                (case terminal_ask t req T1 of (b, T2) \<Rightarrow> (b, T2, v2)))),
      hc_end = (\<lambda>(T, v). ((), terminal_end T, v))\<rparr>"

abbreviation said :: "terminal \<Rightarrow> ustr list" where
  "said T \<equiv> con_said (tm_console T)"

section \<open>A question\<close>

definition terminal_ok :: "terminal \<Rightarrow> bool" where
  "terminal_ok T \<longleftrightarrow> approver_inv (tm_log T) (tm_approver T, tm_console T)"

text \<open>No question is on the screen.\<close>

definition calm :: "terminal \<Rightarrow> bool" where
  "calm T \<longleftrightarrow> terminal_ok T \<and> ap_asked_at (tm_approver T) = None"

text \<open>The question of one request was shown at a moment and is still on the screen; and since \<open>T0\<close> only
  this question has been shown.\<close>

definition question_up :: "approval_request \<Rightarrow> instant \<Rightarrow> approval_event list \<Rightarrow> bool" where
  "question_up req asked evs \<longleftrightarrow>
     (\<exists>before since. evs = before @ Answer asked req # since \<and> shown_at before = None \<and> EndQuestion \<notin> set since)"

definition asking :: "approval_request \<Rightarrow> terminal \<Rightarrow> terminal \<Rightarrow> bool" where
  "asking req T0 T \<longleftrightarrow>
     terminal_ok T \<and> said T = said T0 @ [question req] \<and> (\<exists>evs. tm_log T = tm_log T0 @ evs) \<and>
     (\<exists>asked. question_up req asked (tm_log T))"

definition yes_read :: "instant \<Rightarrow> approval_event list \<Rightarrow> bool" where
  "yes_read t0 evs \<longleftrightarrow>
     (\<exists>at n l. ReaderTurn at (Inr (n, l)) \<in> set evs \<and> t0 \<le> at \<and> n \<noteq> 0 \<and> str_trim l = lit ''y'')"

definition granted :: "approval_request \<Rightarrow> approval_event list \<Rightarrow> bool" where
  "granted req evs \<longleftrightarrow> (\<exists>asked. question_up req asked evs \<and> yes_read asked evs)"

lemma shown_at_stays: "shown_at evs = Some t \<Longrightarrow> EndQuestion \<notin> set later \<Longrightarrow> shown_at (evs @ later) = Some t"
proof (induction later rule: rev_induct)
  case (snoc e later)
  then show ?case by (cases e) (simp_all add: shown_at_snoc flip: append_assoc)
qed simp

lemma question_up_shown: "question_up req asked evs \<Longrightarrow> shown_at evs = Some asked"
  unfolding question_up_def
  using shown_at_stays [of "b @ [Answer asked req]" asked for b] by (force simp: shown_at_snoc)

lemma question_up_later:
  assumes "question_up req asked evs" "EndQuestion \<notin> set later"
  shows "question_up req asked (evs @ later)"
proof -
  from assms(1) obtain before since where "evs = before @ Answer asked req # since" "shown_at before = None"
    "EndQuestion \<notin> set since"
    unfolding question_up_def by blast
  with assms(2) show ?thesis unfolding question_up_def by (intro exI [of _ before] exI [of _ "since @ later"]) simp
qed

lemma question_up_first: "shown_at evs = None \<Longrightarrow> question_up req t (evs @ [Answer t req])"
  unfolding question_up_def by (intro exI [of _ evs] exI [of _ "[]"]) simp

lemma thread_turns_keep:
  "said (thread_turns ts T) = said T" "ap_asked_at (tm_approver (thread_turns ts T)) = ap_asked_at (tm_approver T)"
  "\<exists>evs. tm_log (thread_turns ts T) = tm_log T @ evs \<and> EndQuestion \<notin> set evs" "shown_at (tm_log (thread_turns ts T)) = shown_at (tm_log T)"
proof -
  show "said (thread_turns ts T) = said T"
    by (induction ts arbitrary: T) (simp_all add: reader_turn_def)
  show "ap_asked_at (tm_approver (thread_turns ts T)) = ap_asked_at (tm_approver T)"
    by (induction ts arbitrary: T) simp_all
  show "shown_at (tm_log (thread_turns ts T)) = shown_at (tm_log T)"
    by (induction ts arbitrary: T) (simp_all add: shown_at_snoc)
  show "\<exists>evs. tm_log (thread_turns ts T) = tm_log T @ evs \<and> EndQuestion \<notin> set evs"
  proof (induction ts arbitrary: T)
    case (Cons tr ts)
    from Cons.IH [of "T\<lparr>tm_console := reader_turn (fst tr) (snd tr) (tm_console T),
        tm_log := tm_log T @ [ReaderTurn (fst tr) (snd tr)]\<rparr>"] show ?case by auto
  qed simp
qed

lemma thread_turns_ok: "terminal_ok T \<Longrightarrow> terminal_ok (thread_turns ts T)"
proof (induction ts arbitrary: T)
  case (Cons tr ts)
  have "terminal_ok (T\<lparr>tm_console := reader_turn (fst tr) (snd tr) (tm_console T),
      tm_log := tm_log T @ [ReaderTurn (fst tr) (snd tr)]\<rparr>)"
    using reader_inv Cons.prems by (simp add: terminal_ok_def)
  from Cons.IH [OF this] show ?case by simp
qed simp

lemma answer_loop_said: "answer_loop asked a c = (b, a', c') \<Longrightarrow> con_said c' = con_said c"
proof (induction asked a c arbitrary: b a' c' rule: answer_loop.induct)
  case (1 asked a c)
  from 1(2) show ?case
    by (subst (asm) answer_loop.simps)
      (auto simp: Let_def split: if_splits list.splits prod.splits dest!: 1(1) [rotated -1])
qed

lemma read_yes: "(at, l) \<in> lines_read evs \<Longrightarrow> says_yes l \<Longrightarrow> t0 \<le> at \<Longrightarrow> yes_read t0 evs"
  unfolding lines_read_def yes_read_def says_yes_def
  by (auto elim!: line_read.elims split: option.splits if_splits) blast

lemma ask_step:
  assumes "calm T0 \<and> T1 = T0 \<or> asking req T0 T1" "terminal_ask t req (thread_turns ts T1) = (b, T)"
  shows "asking req T0 T" "b = Some True \<Longrightarrow> granted req (tm_log T)"
proof -
  define U where "U = thread_turns ts T1"
  have U: "terminal_ok U" "said U = said T1" "ap_asked_at (tm_approver U) = ap_asked_at (tm_approver T1)"
    "\<exists>evs. tm_log U = tm_log T1 @ evs \<and> EndQuestion \<notin> set evs" "shown_at (tm_log U) = shown_at (tm_log T1)"
    unfolding U_def using assms(1) thread_turns_keep [of ts T1]
    by (auto intro!: thread_turns_ok simp: calm_def asking_def)
  obtain a c where answer: "approver_answer t req (tm_approver U, tm_console U) = (b, a, c)"
    and T: "T = \<lparr>tm_approver = a, tm_console = c, tm_log = tm_log U @ [Answer t req]\<rparr>"
    using assms(2) unfolding U_def [symmetric] terminal_ask_def by (auto split: prod.splits)
  note inv = answer_inv [OF U(1) [unfolded terminal_ok_def] answer]
  have at: "ap_asked_at (tm_approver U) = shown_at (tm_log U)"
    using U(1) by (simp add: terminal_ok_def approver_inv_def)
  have shown: "\<exists>asked. question_up req asked (tm_log T)" and screen: "said T = said T0 @ [question req]"
    and log: "\<exists>evs. tm_log T = tm_log T0 @ evs"
  proof -
    from assms(1) consider "calm T0" "T1 = T0" | "asking req T0 T1" by blast
    then have "(\<exists>asked. question_up req asked (tm_log T)) \<and>
      said T = said T0 @ [question req] \<and> (\<exists>evs. tm_log T = tm_log T0 @ evs)"
    proof cases
      case 1
      with U(3) at have "shown_at (tm_log U) = None" by (simp add: calm_def)
      with 1 U(2-4) at answer question_up_first [of "tm_log U" req t] show ?thesis
        by (auto simp: approver_answer_def T say_def dest!: answer_loop_said)
    next
      case 2
      then obtain asked where "question_up req asked (tm_log T1)" by (auto simp: asking_def)
      with U(4) have up: "question_up req asked (tm_log U)" by (auto intro: question_up_later)
      then have "ap_asked_at (tm_approver U) = Some asked" "question_up req asked (tm_log T)"
        using at by (simp_all add: question_up_shown T question_up_later)
      with U(2,4) answer 2 show ?thesis
        by (auto simp: asking_def approver_answer_def T dest!: answer_loop_said)
    qed
    then show "\<exists>asked. question_up req asked (tm_log T)"
      "said T = said T0 @ [question req]" "\<exists>evs. tm_log T = tm_log T0 @ evs" by blast+
  qed
  with inv show "asking req T0 T" by (auto simp: asking_def terminal_ok_def T)
  assume "b = Some True"
  with inv obtain at l asked where l: "shown_at (tm_log T) = Some asked" "(at, l) \<in> lines_read (tm_log U)"
    "asked \<le> at" "says_yes l" by (auto simp: T)
  from read_yes [OF l(2,4,3)] have "yes_read asked (tm_log T)" by (auto simp: yes_read_def T)
  with l(1) shown question_up_shown show "granted req (tm_log T)" by (fastforce simp: granted_def)
qed

lemma console_asks:
  assumes "hc_answer (terminal_console sys turns err) req (T, v) = (b, T', v')"
  obtains ts t where "terminal_ask t req (thread_turns ts T) = (b, T')"
  using assms that by (auto simp: terminal_console_def Let_def split: prod.splits)

end
