(* ===== verification/Consent.thy ===== *)
theory Consent
  imports Terminal
begin

text \<open>
  The user's consent, from the keyboard to the session: a run of \<open>serve_next\<close> at the terminal shows at
  most one question, and ends with a session only after the user has answered the question for that
  viewer with \<open>y\<close>.
\<close>

section \<open>What a run does to the terminal\<close>

abbreviation screen :: "(terminal \<times> 'v) host_run \<Rightarrow> terminal" where
  "screen s \<equiv> fst (world s)"

definition settled :: "terminal \<Rightarrow> terminal \<Rightarrow> bool" where
  "settled T0 T \<longleftrightarrow> T = T0 \<or> (\<exists>req. asking req T0 T)"

text \<open>The question for a viewer, and its answer.\<close>

definition welcomed ::
  "('w, 'rtc, 'p, 'k, 'st, 'out, 'sk, 'xk, 'rnd) host_libs \<Rightarrow> peer_identity \<Rightarrow> terminal \<Rightarrow> terminal \<Rightarrow> bool"
where
  "welcomed L v T0 T \<longleftrightarrow>
     (\<exists>fp. key_fingerprint (l_id L) (l_wire L) (pi_device_key v) = Some fp \<and>
        asking \<lparr>ar_viewer_name = pi_name v, ar_viewer_key_fingerprint = fp\<rparr> T0 T \<and>
        granted \<lparr>ar_viewer_name = pi_name v, ar_viewer_key_fingerprint = fp\<rparr> (tm_log T))"

definition asked_c ::
  "(terminal \<times> 'v, 'rtc, 'p, 'k, 'st, 'out, 'sk, 'xk, 'rnd) host_libs \<Rightarrow> terminal \<Rightarrow>
   ('x, 'rtc serve_outcome + peer_identity) res \<Rightarrow> 'rtc channel \<times> (terminal \<times> 'v) host_run \<Rightarrow> bool"
where
  "asked_c L T0 r t \<longleftrightarrow>
     settled T0 (screen (snd t)) \<and> (\<forall>v. r = Ok (Inr v) \<longrightarrow> welcomed L v T0 (screen (snd t))) \<and>
     (\<forall>out. r = Ok (Inl out) \<longrightarrow> (\<exists>f. out = Failed f))"

definition asked_r ::
  "(terminal \<times> 'v, 'rtc, 'p, 'k, 'st, 'out, 'sk, 'xk, 'rnd) host_libs \<Rightarrow> terminal \<Rightarrow>
   ('x, 'rtc serve_outcome) res \<Rightarrow> (terminal \<times> 'v) host_run \<Rightarrow> bool"
where
  "asked_r L T0 r s \<longleftrightarrow>
     settled T0 (screen s) \<and> (\<forall>v c. r = Ok (Session v c) \<longrightarrow> welcomed L v T0 (screen s))"

lemma settled_refl [simp]: "settled T T"
  by (simp add: settled_def)

lemma asking_settled: "asking req T0 T \<Longrightarrow> settled T0 T"
  by (auto simp: settled_def)

lemma asked_simps [simp]:
  "asked_c L T0 (Ok (Inl (Failed f))) t = settled T0 (screen (snd t))"
  "asked_r L T0 (Ok (Failed f)) s = settled T0 (screen s)"
  "asked_r L T0 (Ok ViewerLeft) s = settled T0 (screen s)"
  by (auto simp: asked_c_def asked_r_def)

lemma asked_stop:
  "\<forall>a. r \<noteq> Ok a \<Longrightarrow> settled T0 (screen (snd t)) \<Longrightarrow> asked_c L T0 r t"
  "\<forall>a. r' \<noteq> Ok a \<Longrightarrow> settled T0 (screen s) \<Longrightarrow> asked_r L T0 r' s"
  by (auto simp: asked_c_def asked_r_def)

section \<open>On the data channel\<close>

lemma ask_user_terminal:
  assumes "calm T0 \<and> screen s = T0 \<or> asking req T0 (screen s)"
  shows "wp (ask_user (hc_answer (terminal_console sys turns err)) req)
    (\<lambda>r s'. \<exists>b. r = Ok b \<and> asking req T0 (screen s') \<and> (b = Some True \<longrightarrow> granted req (tm_log (screen s')))) s"
proof -
  obtain T v where w: "world s = (T, v)" by (cases "world s")
  obtain b T' v' where call: "hc_answer (terminal_console sys turns err) req (T, v) = (b, T', v')"
    by (metis prod_cases3)
  from call obtain ts t where "terminal_ask t req (thread_turns ts T) = (b, T')" by (rule console_asks)
  from ask_step [OF _ this, of T0] assms w call show ?thesis
    by (auto simp: ask_user_def wp_rules)
qed

lemma wait_approval_terminal:
  fixes t :: "'rtc channel \<times> (terminal \<times> 'v) host_run" and L :: "(terminal \<times> 'v, 'rtc, 'p, 'k, 'st, 'out, 'sk, 'xk, 'rnd) host_libs"
  assumes "apart_libs fst L" "calm T0" "screen (snd t) = T0"
  shows "wp (wait_approval L (hc_answer (terminal_console sys turns err)) req d :: (_, 'x, _) prog)
    (\<lambda>r t'. settled T0 (screen (snd t')) \<and>
       (r = Ok Granted \<longrightarrow> asking req T0 (screen (snd t')) \<and> granted req (tm_log (screen (snd t'))))) t"
proof -
  let ?con = "hc_answer (terminal_console sys turns err)"
  let ?Q = "\<lambda>(r :: ('x, approval) res) t'. settled T0 (screen (snd t')) \<and>
       (r = Ok Granted \<longrightarrow> asking req T0 (screen (snd t')) \<and> granted req (tm_log (screen (snd t'))))"
  have loop: "wp (wait_approval_loop L ?con req n deadline) ?Q u"
    if "calm T0 \<and> screen (snd u) = T0 \<or> asking req T0 (screen (snd u))" for n deadline and u :: "'rtc channel \<times> (terminal \<times> 'v) host_run"
    using that
  proof (induction n arbitrary: u)
    case 0
    then show ?case by (auto simp: wp_hang asking_settled)
  next
    case (Suc n)
    have again: "wp (heard_while_asking (wait_approval_loop L ?con req n deadline) m) ?Q u'"
      if "asking req T0 (screen (snd u'))" for m u'
      using Suc.IH [of u'] that
      by (cases "(wait_approval_loop L ?con req n deadline, m)" rule: heard_while_asking.cases)
        (auto simp: wp_ret asking_settled)
    have rest: "wp (bnd (on_snd (get_now L)) (\<lambda>t. if deadline \<le> t then ret NoResponse
           else handle (c_next L (min (t + APPROVAL_POLL) deadline))
             (heard_while_asking (wait_approval_loop L ?con req n deadline))
             (\<lambda>_. ret (ApprovalFailed FTransport)))) ?Q u'"
      if a: "asking req T0 (screen (snd u'))" for u'
      by (rule wp_bnd_apart [where tm = "\<lambda>t. screen (snd t)"], intro apart_intros apart_flow [OF assms(1)])
        (use a in \<open>auto simp: wp_ret asking_settled intro!: wp_handle_apart [where tm = "\<lambda>t. screen (snd t)"]
          apart_flow [OF assms(1)] again\<close>)
    show ?case
      unfolding wait_approval_loop.simps wp_bnd [of "on_snd (ask_user _ _)"] wp_on_snd
      by (rule wp_mono [OF ask_user_terminal [OF Suc.prems]])
        (auto simp: wp_ret asking_settled intro!: rest split: option.splits bool.splits)
  qed
  show ?thesis
    unfolding wait_approval_def
  proof (rule wp_bnd_apart [where tm = "\<lambda>t. screen (snd t)"])
    fix now and u :: "'rtc channel \<times> (terminal \<times> 'v) host_run"
    assume "screen (snd u) = screen (snd t)"
    with assms(2,3) show "wp (wait_approval_loop L ?con req (l_fuel L) (now + d)) ?Q u" by (intro loop) simp
  qed (auto simp: assms(3) intro!: apart_intros apart_flow [OF assms(1)])
qed

text \<open>The rest of the handshake, up to the channel.\<close>

lemma reject_decision_terminal:
  assumes "apart_libs fst L" "settled T0 (screen (snd t))"
  shows "wp (reject_decision L reason f d :: (_, 'x, _) prog) (asked_c L T0) t"
  by (rule wp_mono [OF wp_conj [OF apart_wp [OF apart_reject_decision [OF assms(1)]]
        reject_decision_no_identity [where P = "\<lambda>_. False"]]])
    (use assms(2) in \<open>auto simp: asked_c_def only_identity_def\<close>)

lemma host_decide_granted:
  "wp (host_decide L ts viewer a :: (_, 'x, _) prog) (only_identity (\<lambda>v. v = viewer \<and> a = Granted)) t"
proof (cases a)
  case Granted
  then show ?thesis using host_decide_identity [of L ts viewer a t] by simp
qed (auto intro: wp_mono [OF reject_decision_no_identity [where P = "\<lambda>_. False"]] simp: wp_ret)

lemma host_verified_terminal:
  fixes t :: "'rtc channel \<times> (terminal \<times> 'v) host_run" and L :: "(terminal \<times> 'v, 'rtc, 'p, 'k, 'st, 'out, 'sk, 'xk, 'rnd) host_libs"
  assumes "apart_libs fst L" "calm T0" "screen (snd t) = T0"
  shows "wp (host_verified L ts (hc_answer (terminal_console sys turns err)) viewer :: (_, 'x, _) prog) (asked_c L T0) t"
proof (cases "key_fingerprint (l_id L) (l_wire L) (pi_device_key viewer)")
  case (Some fp)
  let ?req = "\<lparr>ar_viewer_name = pi_name viewer, ar_viewer_key_fingerprint = fp\<rparr>"
  have decide: "wp (host_decide L ts viewer a :: (_, 'x, _) prog) (asked_c L T0) u"
    if "settled T0 (screen (snd u))" "a = Granted \<longrightarrow> asking ?req T0 (screen (snd u)) \<and> granted ?req (tm_log (screen (snd u)))"
    for a and u :: "'rtc channel \<times> (terminal \<times> 'v) host_run"
    by (rule wp_mono [OF wp_conj [OF apart_wp [OF apart_decide [OF assms(1)]] host_decide_granted]])
      (use that Some in \<open>auto simp: asked_c_def only_identity_def welcomed_def\<close>)
  show ?thesis
    unfolding host_verified_def Some
    by (simp add: wp_bnd wp_ret)
      (rule wp_mono [OF wait_approval_terminal [OF assms]], auto simp: after_def intro!: decide asked_stop split: res.splits)
qed (use assms(3) in \<open>simp add: host_verified_def wp_bnd wp_panic asked_c_def\<close>)

lemma host_heard_hello_terminal:
  fixes t :: "'rtc channel \<times> (terminal \<times> 'v) host_run" and L :: "(terminal \<times> 'v, 'rtc, 'p, 'k, 'st, 'out, 'sk, 'xk, 'rnd) host_libs"
  assumes "apart_libs fst L" "calm T0" "screen (snd t) = T0"
  shows "wp (host_heard_hello L cfg sk (hc_answer (terminal_console sys turns err)) lf rf m :: (_, 'x, _) prog) (asked_c L T0) t"
  unfolding host_heard_hello_def Let_def
  by (auto simp: wp_ret assms(3) split: next_msg.splits control.splits sum.splits
      intro!: reject_decision_terminal [OF assms(1)] host_verified_terminal [OF assms])

lemma host_handshake_body_terminal:
  fixes t :: "'rtc channel \<times> (terminal \<times> 'v) host_run" and L :: "(terminal \<times> 'v, 'rtc, 'p, 'k, 'st, 'out, 'sk, 'xk, 'rnd) host_libs"
  assumes "apart_libs fst L" "calm T0" "screen (snd t) = T0"
  shows "wp (host_handshake_body L cfg sk (hc_answer (terminal_console sys turns err)) :: (_, 'x, _) prog) (asked_c L T0) t"
proof -
  let ?con = "hc_answer (terminal_console sys turns err)"
  note steps = apart_intros apart_flow [OF assms(1)]
  have greet: "wp (host_greet L cfg sk ?con lf rf :: (_, 'x, _) prog) (asked_c L T0) u"
    if "screen (snd u) = T0" for lf rf and u :: "'rtc channel \<times> (terminal \<times> 'v) host_run"
    unfolding host_greet_def Let_def
    by (intro wp_handle_apart [where tm = "\<lambda>t. screen (snd t)"] wp_bnd_apart [where tm = "\<lambda>t. screen (snd t)"]
        host_heard_hello_terminal [OF assms(1,2)] steps)
      (simp_all add: that wp_ret asked_stop)
  have opened: "wp (host_opened L cfg sk ?con v :: (_, 'x, _) prog) (asked_c L T0) u"
    if "screen (snd u) = T0" for v and u :: "'rtc channel \<times> (terminal \<times> 'v) host_run"
  proof (cases v)
    case Ready
    have remote: "wp (case remote of None \<Rightarrow> ret (Inl (Failed FBadIdentity)) | Some rf \<Rightarrow> host_greet L cfg sk ?con lf rf)
        (asked_c L T0 :: ('x, _) res \<Rightarrow> _) u'" if "screen (snd u') = T0" for remote lf u'
      by (cases remote) (simp_all add: wp_ret that greet)
    show ?thesis
      unfolding Ready host_opened.simps
      by (intro wp_bnd_apart [where tm = "\<lambda>t. screen (snd t)"] remote steps) (simp_all add: that asked_stop)
  qed (simp_all add: wp_ret that)
  show ?thesis
    unfolding host_handshake_body_def
    by (intro wp_handle_apart [where tm = "\<lambda>t. screen (snd t)"] wp_bnd_apart [where tm = "\<lambda>t. screen (snd t)"] opened steps)
      (simp_all add: assms(3) wp_ret asked_stop)
qed

section \<open>On the link\<close>

lemma kicked_terminal:
  assumes "apart_libs fst L" "settled T0 (screen s)"
  shows "wp (kicked L f) (asked_r L T0) s" "wp (reject_relay L f) (asked_r L T0) s"
  by (rule wp_mono [OF wp_conj [OF apart_wp [OF apart_relay(3) [OF assms(1)]] rejects_only_fail(1)]],
      use assms(2) in \<open>force simp: asked_r_def\<close>)
    (rule wp_mono [OF wp_conj [OF apart_wp [OF apart_relay(4) [OF assms(1)]] rejects_only_fail(2)]],
      use assms(2) in \<open>force simp: asked_r_def\<close>)

lemma handshake_terminal:
  fixes s :: "(terminal \<times> 'v) host_run" and L :: "(terminal \<times> 'v, 'rtc, 'p, 'k, 'st, 'out, 'sk, 'xk, 'rnd) host_libs"
  assumes "apart_libs fst L" "calm T0" "screen s = T0"
  shows "wp (bnd (host_handshake L cfg sk (hc_answer (terminal_console sys turns err)) ch) (attempt_ended L)) (asked_r L T0) s"
proof -
  have ended: "wp (attempt_ended L out) (asked_r L T0) u" if "asked_r L T0 (Ok out :: (host_error, _) res) u" for out u
    using that
    by (cases out) (simp_all add: wp_ret kicked_terminal [OF assms(1)])
  have drop: "wp (bnd (drop_channel L c) (\<lambda>_. ret (Failed f))) (asked_r L T0) u"
    if "settled T0 (screen u)" for c f u
    by (rule wp_bnd_apart [OF apart_flow(7) [OF assms(1)]]) (use that in \<open>auto simp: wp_ret asked_stop\<close>)
  have drop_fail: "wp (bnd (drop_channel L c) (\<lambda>_. fail x)) (asked_r L T0) u"
    if "settled T0 (screen u)" for c x u
    by (rule wp_bnd_apart [OF apart_flow(7) [OF assms(1)]]) (use that in \<open>auto simp: wp_fail asked_stop\<close>)
  have "wp (host_handshake L cfg sk (hc_answer (terminal_console sys turns err)) ch :: (_, host_error, _) prog) (asked_r L T0) s"
    unfolding host_handshake_def wp_scoped
    by (rule wp_mono [OF host_handshake_body_terminal [OF assms(1,2)]])
      (auto simp: assms(3) asked_c_def wp_ret asked_stop asked_r_def [of L T0 "Ok (Session _ _)"] intro!: drop drop_fail
        split: res.splits sum.splits)
  then show ?thesis
    unfolding wp_bnd
    by (rule wp_mono) (auto simp: after_def asked_r_def intro!: ended split: res.splits)
qed

lemma attempt_answer_terminal:
  fixes s :: "(terminal \<times> 'v) host_run" and L :: "(terminal \<times> 'v, 'rtc, 'p, 'k, 'st, 'out, 'sk, 'xk, 'rnd) host_libs"
  assumes "apart_libs fst L" "calm T0" "screen s = T0"
  shows "wp (attempt_answer L cfg (hc_answer (terminal_console sys turns err)) sk so) (asked_r L T0) s"
proof -
  let ?con = "hc_answer (terminal_console sys turns err)"
  have answer: "wp (answer_offer L sk offer) (\<lambda>r t. screen (snd t) = T0 \<and> (\<forall>out. r = Ok (Inl out) \<longrightarrow> (\<exists>f. out = Failed f))) (ch, u)"
    if "screen u = T0" for offer ch u
    by (rule wp_mono [OF wp_conj [OF apart_wp [OF apart_answer_offer [OF assms(1)]]
          answer_offer_no_session [where h = "history u"]]])
      (use that in \<open>auto simp: since_def\<close>)
  have drop: "wp (bnd (drop_channel L c) (\<lambda>_. ret (Failed f))) (asked_r L T0) u"
    "wp (bnd (drop_channel L c) (\<lambda>_. fail x)) (asked_r L T0) u" if "screen u = T0" for c f u x
    by (rule wp_bnd_apart [OF apart_flow(7) [OF assms(1)]], use that in \<open>auto simp: wp_ret wp_fail asked_stop\<close>)+
  have scope: "wp (scoped L ch (answer_offer L sk offer) (\<lambda>_ ch. bnd (host_handshake L cfg sk ?con ch) (attempt_ended L)))
      (asked_r L T0) u" if "screen u = T0" for ch offer u
    unfolding wp_scoped
  proof (rule wp_mono [OF answer [OF that]])
    fix r :: "(host_error, 'rtc serve_outcome + unit) res" and t :: "'rtc channel \<times> (terminal \<times> 'v) host_run"
    assume r: "screen (snd t) = T0 \<and> (\<forall>out. r = Ok (Inl out) \<longrightarrow> (\<exists>f. out = Failed f))"
    then have T: "screen (snd t) = T0" and f: "\<forall>out. r = Ok (Inl out) \<longrightarrow> (\<exists>f. out = Failed f)" by simp_all
    from f show "case r of
         Ok (Inl a) \<Rightarrow> wp (bnd (drop_channel L (fst t)) (\<lambda>_. ret a)) (asked_r L T0) (snd t)
       | Ok (Inr b) \<Rightarrow> wp (bnd (host_handshake L cfg sk ?con (fst t)) (attempt_ended L)) (asked_r L T0) (snd t)
       | Err x \<Rightarrow> wp (bnd (drop_channel L (fst t)) (\<lambda>_. fail x)) (asked_r L T0) (snd t)
       | Panic \<Rightarrow> asked_r L T0 Panic (snd t)
       | Hang \<Rightarrow> asked_r L T0 Hang (snd t)"
      by (auto simp: T intro!: drop [OF T] handshake_terminal [OF assms(1,2) T] asked_stop split: res.splits sum.splits)
  qed
  have offered: "wp (case d of None \<Rightarrow> reject_relay L FMalformed
     | Some offer \<Rightarrow> handle (in_world (peer_new (l_os L) (l_rtc L) (hc_bind_ips cfg)))
           (\<lambda>peer. scoped L (channel_new peer) (answer_offer L sk offer)
                (\<lambda>_ ch. bnd (host_handshake L cfg sk ?con ch) (attempt_ended L)))
           (\<lambda>_. kicked L FTransport)) (asked_r L T0) u" if "screen u = T0" for d u
  proof (cases d)
    case (Some offer)
    show ?thesis
      unfolding Some option.case
      by (intro wp_handle_apart [OF apart_flow(9) [OF assms(1)]] scope kicked_terminal [OF assms(1)])
        (simp_all add: that asked_stop)
  qed (use that in \<open>auto intro!: kicked_terminal [OF assms(1)]\<close>)
  show ?thesis
    unfolding attempt_answer_def
    by (intro wp_bnd_apart [where tm = screen] apart_pure offered) (simp_all add: assms(3) asked_stop)
qed

text \<open>A run of \<open>serve_next\<close> that starts without a question on the screen.\<close>

lemma serve_next_terminal:
  fixes s :: "(terminal \<times> 'v) host_run" and L :: "(terminal \<times> 'v, 'rtc, 'p, 'k, 'st, 'out, 'sk, 'xk, 'rnd) host_libs"
  assumes "apart_libs fst L" "calm T0" "screen s = T0"
  shows "wp (serve_next L cfg (hc_answer (terminal_console sys turns err)) n) (asked_r L T0) s"
proof -
  let ?con = "hc_answer (terminal_console sys turns err)"
  note steps = apart_intros apart_flow [OF assms(1)] apart_relay [OF assms(1)] apart_count [OF assms(1)]
    apart_modify [where tm = screen]
  note bnd = wp_bnd_apart [where tm = screen]
  note handle = wp_handle_apart [where tm = screen]
  note out = kicked_terminal [OF assms(1)]
  have confirm: "wp (attempt_got_confirm L cfg ?con pake v) (asked_r L T0) u" if u: "screen u = T0" for pake v u
  proof -
    have ok: "wp (handle (host_confirm (l_spake L) pake mac) (\<lambda>sk.
        bnd (modify (\<lambda>s. s\<lparr>h_limiter := limiter_record_success (h_limiter s)\<rparr>)) (\<lambda>_.
        bnd (record_event EvSuccessRecorded) (\<lambda>_. attempt_answer L cfg ?con sk so)))
        (\<lambda>_. reject_relay L FWrongCode)) (asked_r L T0) u" for mac so
      by (intro handle bnd attempt_answer_terminal [OF assms(1,2)] out steps) (simp_all add: u asked_stop)
    show ?thesis
      unfolding attempt_got_confirm_def
      by (auto simp: wp_ret u simp del: success_resets intro!: ok out split: relay.splits pake_msg.splits)
  qed
  have reply: "wp (attempt_reply L cfg ?con pa) (asked_r L T0) u" if "screen u = T0" for pa u
    unfolding attempt_reply_def case_prod_beta
    by (intro handle bnd confirm out steps) (simp_all add: that asked_stop)
  have start: "wp (attempt_got_start L cfg ?con v) (asked_r L T0) u" if "screen u = T0" for v u
    unfolding attempt_got_start_def
    by (auto simp: wp_ret that intro!: reply out split: relay.splits pake_msg.splits)
  have verdict: "wp (case v of Inl wait \<Rightarrow> bnd (send_relay L (PRetryAfter (wait_ms wait))) (\<lambda>_. kicked L WaitRequired)
       | Inr x \<Rightarrow> bnd (recv_relay L d) (attempt_got_start L cfg ?con)) (asked_r L T0) u" if "screen u = T0" for v d u
    by (cases v; simp; intro bnd start out steps) (simp_all add: that asked_stop)
  have attempt: "wp (attempt L cfg ?con) (asked_r L T0) u" if "screen u = T0" for u
    unfolding attempt_def by (intro bnd verdict steps) (simp_all add: that asked_stop)
  show ?thesis
    using assms(3)
  proof (induction n arbitrary: s)
    case (Suc n)
    have next_round: "wp (if v \<noteq> Some SHViewerJoined then serve_next L cfg ?con n else attempt L cfg ?con) (asked_r L T0) u"
      if "screen u = T0" for v u
      using Suc.IH attempt that by simp
    show ?case
      unfolding serve_next.simps
      by (intro bnd next_round steps) (simp_all add: Suc.prems asked_stop)
  qed (simp add: wp_hang asked_stop)
qed

end
