(* ===== verification/Transcript.thy ===== *)
theory Transcript
  imports Consent
begin

text \<open>
  The whole output of the host program: what its lines promise to the person in front of it.
\<close>

section \<open>Lines\<close>

definition about :: "approval_request \<Rightarrow> ustr" where
  "about req = ar_viewer_name req @ lit '' '' @ ar_viewer_key_fingerprint req"

text \<open>The line before a connection: the question for that viewer, answered with \<open>y\<close>, and at most the new
  code in between.\<close>

definition backed :: "approval_event list \<Rightarrow> ustr list \<Rightarrow> ustr \<Rightarrow> bool" where
  "backed log xs x \<longleftrightarrow>
     (\<exists>zs req codes evs rest. xs = zs @ question req # map code_line codes \<and> length codes \<le> 1 \<and> about req = x \<and>
        log = evs @ rest \<and> granted req evs)"

definition transcript_ok :: "terminal \<Rightarrow> bool" where
  "transcript_ok T \<longleftrightarrow>
     (\<forall>xs x ys. said T = xs @ (lit ''CONNECTED '' @ x) # ys \<longrightarrow> backed (tm_log T) xs x)"

lemma backed_later: "backed log xs x \<Longrightarrow> backed (log @ evs) xs x"
  unfolding backed_def by (metis append.assoc)

lemma transcript_snoc:
  assumes "transcript_ok T" "said T' = said T @ [l]" "tm_log T' = tm_log T @ evs"
    and "\<And>x. l = lit ''CONNECTED '' @ x \<Longrightarrow> backed (tm_log T') (said T) x"
  shows "transcript_ok T'"
  unfolding transcript_ok_def
proof (intro allI impI)
  fix xs x ys
  assume "said T' = xs @ (lit ''CONNECTED '' @ x) # ys"
  then consider "ys = []" "xs = said T" "l = lit ''CONNECTED '' @ x" | zs where "said T = xs @ (lit ''CONNECTED '' @ x) # zs"
    using assms(2) by (cases ys rule: rev_cases) auto
  then show "backed (tm_log T') xs x"
    using assms(1,3,4) by cases (auto simp: transcript_ok_def intro: backed_later)
qed

lemma transcript_same:
  "transcript_ok T \<Longrightarrow> said T' = said T \<Longrightarrow> tm_log T' = tm_log T @ evs \<Longrightarrow> transcript_ok T'"
  by (auto simp: transcript_ok_def intro: backed_later)

lemma other_lines:
  "question req \<noteq> lit ''CONNECTED '' @ x" "code_line c \<noteq> lit ''CONNECTED '' @ x"
  "lit ''ID '' @ i \<noteq> lit ''CONNECTED '' @ x" "lit ''DISCONNECTED'' \<noteq> lit ''CONNECTED '' @ x"
  "lit (''ATTEMPT '' @ f) \<noteq> lit ''CONNECTED '' @ x"
  by (simp_all add: question_def code_line_def lit_def)

lemma transcript_settled:
  assumes "transcript_ok T0" "settled T0 T"
  shows "transcript_ok T"
proof -
  from assms(2) consider "T = T0" | req where "asking req T0 T" by (auto simp: settled_def)
  then show ?thesis
  proof cases
    case 2
    then obtain evs where "said T = said T0 @ [question req]" "tm_log T = tm_log T0 @ evs" by (auto simp: asking_def)
    then show ?thesis by (rule transcript_snoc [OF assms(1)]) (simp add: other_lines)
  qed (simp add: assms(1))
qed

section \<open>The loop\<close>

definition in_order :: "terminal \<Rightarrow> bool" where
  "in_order T \<longleftrightarrow> calm T \<and> transcript_ok T"

lemma calm_say [simp]: "calm (terminal_say l T) = calm T"
  by (simp add: calm_def terminal_ok_def terminal_say_def say_def approver_inv_def)

lemma said_say [simp]: "said (terminal_say l T) = said T @ [l]" "tm_log (terminal_say l T) = tm_log T"
  by (simp_all add: terminal_say_def say_def)

lemma in_order_say:
  assumes "in_order T" "\<And>x. l = lit ''CONNECTED '' @ x \<Longrightarrow> backed (tm_log T) (said T) x"
  shows "in_order (terminal_say l T)"
  using assms transcript_snoc [of T "terminal_say l T" l "[]"] by (auto simp: in_order_def)

lemma end_calm: "settled T0 T \<Longrightarrow> calm T0 \<Longrightarrow> calm (terminal_end T)"
  by (auto simp: settled_def asking_def calm_def terminal_ok_def terminal_end_def end_question_def approver_inv_def
      shown_at_snoc intro: lines_read_snoc [THEN subsetD])

lemma wp_say:
  "wp (say_line (terminal_console sys turns err) l) Q s = Q (Ok ()) (s\<lparr>world := (terminal_say l (screen s), snd (world s))\<rparr>)"
  by (simp add: say_line_def terminal_console_def wp_in_world wp_ext_total split: prod.splits)

lemma apart_error: "apart screen (error_line (terminal_console sys turns err) l)"
  unfolding error_line_def terminal_console_def
  by (simp add: apart_def in_world_def ext_total_def beside_def split: prod.splits)

text \<open>A part of the program that keeps the transcript.\<close>

abbreviation keeps_order :: "((terminal \<times> 'v) host_run, 'x, 'a) prog \<Rightarrow> bool" where
  "keeps_order m \<equiv> preserves (\<lambda>s. in_order (screen s)) m"

abbreviation keeps_order_c :: "('rtc channel \<times> (terminal \<times> 'v) host_run, 'x, 'a) prog \<Rightarrow> bool" where
  "keeps_order_c m \<equiv> preserves (\<lambda>t. in_order (screen (snd t))) m"

lemma apart_keeps: "apart tm m \<Longrightarrow> preserves (\<lambda>s. P (tm s)) m"
  by (rule preservesI) (auto intro: wp_mono [OF apart_wp])

lemma say_keeps: "(\<And>x. l \<noteq> lit ''CONNECTED '' @ x) \<Longrightarrow> keeps_order (say_line (terminal_console sys turns err) l)"
  by (rule preservesI) (auto simp: wp_say intro!: in_order_say)

lemma on_snd_keeps: "keeps_order m \<Longrightarrow> keeps_order_c (on_snd m)"
  by (simp add: preserves_def wp_on_snd)

lemma scoped_keeps:
  fixes L :: "(terminal \<times> 'v, 'rtc, 'p, 'k, 'st, 'out, 'sk, 'xk, 'rnd) host_libs"
    and body :: "('rtc channel \<times> (terminal \<times> 'v) host_run, 'x, 'a + 'b) prog"
  assumes "apart_libs fst L" "preserves (\<lambda>t. P (screen (snd t))) body" "\<And>b c. preserves (\<lambda>s. P (screen s)) (k b c)"
  shows "preserves (\<lambda>s. P (screen s)) (scoped L ch body k)"
proof (rule preservesI)
  fix s :: "(terminal \<times> 'v) host_run"
  assume "P (screen s)"
  then have "wp body (\<lambda>_ t. P (screen (snd t))) (ch, s)" using assms(2) by (simp add: preserves_def)
  moreover have "preserves (\<lambda>s. P (screen s)) (bnd (drop_channel L c) (\<lambda>_. ret a) :: (_, 'x, 'a) prog)"
    "preserves (\<lambda>s. P (screen s)) (bnd (drop_channel L c) (\<lambda>_. fail x) :: (_, 'x, 'a) prog)" for c a x
    by (intro preserves_intros apart_keeps [OF apart_flow(7) [OF assms(1)]])+
  ultimately show "wp (scoped L ch body k) (\<lambda>_ s'. P (screen s')) s"
    unfolding wp_scoped using assms(3)
    by (elim wp_mono) (auto simp: preserves_def split: res.splits sum.splits)
qed

section \<open>A session, a round\<close>

text \<open>The viewer whose question is the last on the screen and has its answer.\<close>

definition connectable ::
  "('w, 'rtc, 'p, 'k, 'st, 'out, 'sk, 'xk, 'rnd) host_libs \<Rightarrow> peer_identity \<Rightarrow> terminal \<Rightarrow> bool"
where
  "connectable L v T \<longleftrightarrow>
     (\<forall>fp. key_fingerprint (l_id L) (l_wire L) (pi_device_key v) = Some fp \<longrightarrow>
        backed (tm_log T) (said T) (pi_name v @ lit '' '' @ fp))"

lemma serve_session_order:
  fixes s :: "(terminal \<times> 'v) host_run" and L :: "(terminal \<times> 'v, 'rtc, 'p, 'k, 'st, 'out, 'sk, 'xk, 'rnd) host_libs"
  assumes "apart_libs fst L" "in_order (screen s)" "connectable L v (screen s)"
  shows "wp (serve_session L (terminal_console sys turns err) v ch :: (_, 'x, _) prog) (\<lambda>_ s'. in_order (screen s')) s"
proof (cases "key_fingerprint (l_id L) (l_wire L) (pi_device_key v)")
  case (Some fp)
  let ?con = "terminal_console sys turns err"
  let ?body = "bnd (handle (serve_pings L SESSION_LIMIT) (\<lambda>_. ret None) (\<lambda>e. ret (Some e))) (\<lambda>failed.
        bnd (on_snd (say_line ?con (lit ''DISCONNECTED''))) (\<lambda>_.
        bnd (case failed of
               None \<Rightarrow> ret ()
             | Some e \<Rightarrow> on_snd (error_line ?con (session_lost_text @ host_error_text e))) (\<lambda>_.
        ret (Inl (failed = None)))))"
  have line: "keeps_order_c (on_snd (say_line ?con (lit ''DISCONNECTED'')))"
    by (rule on_snd_keeps, rule say_keeps) (rule other_lines(4))
  have error: "keeps_order_c (case failed of None \<Rightarrow> ret () | Some e \<Rightarrow> on_snd (error_line ?con (session_lost_text @ host_error_text e)))"
    for failed
    by (cases failed) (auto intro!: preserves_intros on_snd_keeps apart_keeps [OF apart_error])
  have served: "keeps_order (scoped L ch ?body (\<lambda>(b :: unit) c. panic) :: (_, 'x, bool) prog)"
    by (intro scoped_keeps [OF assms(1), where P = in_order] preserves_intros line error apart_keeps [OF apart_pings [OF assms(1)]])
  have connected: "in_order (terminal_say (lit ''CONNECTED '' @ pi_name v @ lit '' '' @ fp) (screen s))"
    using assms(3) Some by (intro in_order_say [OF assms(2)]) (auto simp: connectable_def)
  show ?thesis
    unfolding serve_session_def Some
    by (simp add: wp_bnd wp_ret wp_say del: wp_scoped) (rule preserves_wp [OF served], simp add: connected)
qed (simp add: serve_session_def wp_bnd wp_panic assms(2))

lemma after_outcome_order:
  fixes s :: "(terminal \<times> 'v) host_run" and L :: "(terminal \<times> 'v, 'rtc, 'p, 'k, 'st, 'out, 'sk, 'xk, 'rnd) host_libs"
  assumes "apart_libs fst L" "in_order (screen s)" "\<And>v ch. outcome = Inr (Session v ch) \<Longrightarrow> connectable L v (screen s)"
  shows "wp (after_outcome L (terminal_console sys turns err) once outcome :: (_, 'x, _) prog) (\<lambda>_ s'. in_order (screen s')) s"
proof (cases "(L, terminal_console sys turns err, once, outcome)" rule: after_outcome.cases)
  case (1 L' con once' v ch)
  then have session: "outcome = Inr (Session v ch)" by simp
  show ?thesis
    unfolding session after_outcome.simps wp_bnd [of "serve_session _ _ _ _"]
    by (rule wp_mono [OF serve_session_order [OF assms(1,2) assms(3) [OF session]]])
      (auto simp: after_def wp_ret split: res.splits)
next
  case (2 L' con once' f)
  have "in_order (terminal_say (lit (''ATTEMPT '' @ failure_debug f)) (screen s))"
    using assms(2) by (intro in_order_say) (simp_all add: lit_def)
  moreover from 2 have "outcome = Inr (Failed f)" by simp
  ultimately show ?thesis by (simp add: wp_bnd wp_say wp_ret)
next
  case (4 L' con once' e)
  have "keeps_order (bnd (error_line (terminal_console sys turns err) (signaling_lost_text @ host_error_text e))
      (\<lambda>_. ret (Some ExitFailure)) :: ((terminal \<times> 'v) host_run, 'x, exit_code option) prog)"
    by (intro preserves_intros apart_keeps [OF apart_error])
  moreover from 4 have "outcome = Inl e" by simp
  ultimately show ?thesis using preserves_wp [of "\<lambda>s. in_order (screen s)" _ s] assms(2) by simp
qed (use assms(2) in \<open>simp add: wp_ret\<close>)

text \<open>The end of the question and the new code, after a run of \<open>serve_next\<close>.\<close>

lemma end_in_order:
  assumes "in_order T0" "settled T0 T"
  shows "in_order (terminal_end T)"
  using assms end_calm [OF assms(2)] transcript_settled [OF _ assms(2)]
    transcript_same [of T "terminal_end T" "[EndQuestion]"]
  by (simp add: in_order_def terminal_end_def)

lemma welcomed_connectable:
  assumes "welcomed L v T0 T" "said U = said T @ map code_line codes" "length codes \<le> 1"
    and "tm_log U = tm_log T @ [EndQuestion]"
  shows "connectable L v U"
proof -
  from assms(1) obtain fp where fp: "key_fingerprint (l_id L) (l_wire L) (pi_device_key v) = Some fp"
    and ask: "asking \<lparr>ar_viewer_name = pi_name v, ar_viewer_key_fingerprint = fp\<rparr> T0 T"
      "granted \<lparr>ar_viewer_name = pi_name v, ar_viewer_key_fingerprint = fp\<rparr> (tm_log T)"
    by (auto simp: welcomed_def)
  have "backed (tm_log U) (said U) (pi_name v @ lit '' '' @ fp)"
    unfolding backed_def
  proof (intro exI conjI)
    show "said U = said T0 @ question \<lparr>ar_viewer_name = pi_name v, ar_viewer_key_fingerprint = fp\<rparr> # map code_line codes"
      using ask(1) assms(2) by (simp add: asking_def)
    show "granted \<lparr>ar_viewer_name = pi_name v, ar_viewer_key_fingerprint = fp\<rparr> (tm_log T)" by (rule ask(2))
    show "length codes \<le> 1" by (rule assms(3))
  qed (simp_all add: assms(4) about_def)
  with fp show ?thesis by (simp add: connectable_def)
qed

lemma wp_end:
  "wp (in_world (ext_total (hc_end (terminal_console sys turns err)))) Q s =
     Q (Ok ()) (s\<lparr>world := (terminal_end (screen s), snd (world s))\<rparr>)"
  by (simp add: terminal_console_def wp_in_world wp_ext_total split: prod.splits)

lemma said_end [simp]: "said (terminal_end T) = said T" "tm_log (terminal_end T) = tm_log T @ [EndQuestion]"
  by (simp_all add: terminal_end_def)

definition round_order :: "('x, 'a) res \<Rightarrow> (terminal \<times> 'v) host_run \<Rightarrow> bool" where
  "round_order r s \<longleftrightarrow> transcript_ok (screen s) \<and> ((\<exists>a. r = Ok a) \<longrightarrow> in_order (screen s))"

lemma in_order_round: "in_order (screen s) \<Longrightarrow> round_order r s"
  by (simp add: round_order_def in_order_def)

lemma host_round_order:
  fixes s :: "(terminal \<times> 'v) host_run" and L :: "(terminal \<times> 'v, 'rtc, 'p, 'k, 'st, 'out, 'sk, 'xk, 'rnd) host_libs"
  assumes "apart_libs fst L" "in_order (screen s)"
  shows "wp (host_round L cfg (terminal_console sys turns err) once n shown :: (_, 'x, _) prog) round_order s"
proof -
  let ?con = "terminal_console sys turns err"
  have last: "wp (bnd (after_outcome L ?con once outcome) (\<lambda>ex. ret (ex, code))) round_order u"
    if "in_order (screen u)" "\<And>v ch. outcome = Inr (Session v ch) \<Longrightarrow> connectable L v (screen u)" for outcome code u
    unfolding wp_bnd
    by (rule wp_mono [OF after_outcome_order [OF assms(1) that]])
      (auto simp: after_def wp_ret intro: in_order_round split: res.splits)
  have rest: "wp (bnd (in_world (ext_total (hc_end ?con))) (\<lambda>_.
      bnd (gets h_code) (\<lambda>code.
      bnd (if code \<noteq> shown then say_line ?con (code_line code) else ret ()) (\<lambda>_.
      bnd (after_outcome L ?con once outcome) (\<lambda>ex. ret (ex, code)))))) round_order u"
    if settled: "settled (screen s) (screen u)"
      and ready: "\<And>v ch. outcome = Inr (Session v ch) \<Longrightarrow> welcomed L v (screen s) (screen u)" for outcome u
  proof -
    have calm: "in_order (terminal_end (screen u))" by (rule end_in_order [OF assms(2) settled])
    have said: "in_order (terminal_say (code_line c) (terminal_end (screen u)))" for c
      using calm by (intro in_order_say) (simp_all add: other_lines(2))
    have connect: "connectable L v (terminal_end (screen u))"
      "connectable L v (terminal_say (code_line c) (terminal_end (screen u)))"
      if "outcome = Inr (Session v ch)" for v ch c
      using welcomed_connectable [OF ready [OF that], of _ "[]"] welcomed_connectable [OF ready [OF that], of _ "[c]"]
      by simp_all
    show ?thesis
    proof (cases "h_code u = shown")
      case True
      show ?thesis
        unfolding wp_bnd [of "in_world _"] wp_end after_simps wp_bnd [of "gets _"] wp_gets
        by (simp add: True wp_bnd [of "ret _"] wp_ret) (intro last, simp_all add: calm connect)
    next
      case False
      then show ?thesis
        unfolding wp_bnd [of "in_world _"] wp_end after_simps wp_bnd [of "gets _"] wp_gets
        by (simp add: wp_bnd [of "say_line _ _"] wp_say) (intro last, simp_all add: said connect)
    qed
  qed
  show ?thesis
    unfolding host_round_def wp_bnd [of "handle _ _ _"] wp_handle
  proof (rule wp_mono [OF serve_next_terminal [OF assms(1) _ refl, where cfg = cfg and n = n and sys = sys and turns = turns and err = err]],
      goal_cases)
    case 1
    show ?case using assms(2) by (simp add: in_order_def)
  next
    case (2 r u)
    then have settled: "settled (screen s) (screen u)" by (simp add: asked_r_def)
    then have kept: "transcript_ok (screen u)" using assms(2) by (auto simp: in_order_def intro: transcript_settled)
    have granted: "welcomed L v (screen s) (screen u)" if "r = Ok (Session v ch)" for v ch
      using 2 that by (simp add: asked_r_def)
    show ?case
    proof (cases r)
      case (Ok out)
      show ?thesis unfolding Ok after_simps wp_ret by (rule rest [OF settled]) (use Ok in \<open>simp add: granted\<close>)
    next
      case (Err x)
      show ?thesis unfolding Err after_simps wp_ret by (rule rest [OF settled]) simp
    qed (simp_all add: round_order_def kept)
  qed
qed

lemma host_loop_order:
  fixes s :: "(terminal \<times> 'v) host_run" and L :: "(terminal \<times> 'v, 'rtc, 'p, 'k, 'st, 'out, 'sk, 'xk, 'rnd) host_libs"
  assumes "apart_libs fst L" "in_order (screen s)"
  shows "wp (host_loop L cfg (terminal_console sys turns err) once n m shown :: (_, 'x, _) prog)
    (\<lambda>_ s'. transcript_ok (screen s')) s"
  using assms(2)
proof (induction m arbitrary: s shown)
  case (Suc m)
  show ?case
    unfolding host_loop.simps wp_bnd [of "host_round _ _ _ _ _ _"]
    by (rule wp_mono [OF host_round_order [OF assms(1) Suc.prems]])
      (auto simp: after_def wp_ret round_order_def intro!: Suc.IH split: res.splits option.splits)
qed (simp add: wp_hang in_order_def)

lemma new_in_order: "in_order terminal_new"
  by (simp add: in_order_def calm_def terminal_ok_def transcript_ok_def terminal_new_def approver_spawn_def
      approver_inv_def shown_at_def)

lemma host_service_order:
  fixes s :: "(terminal \<times> 'v) host_run" and L :: "(terminal \<times> 'v, 'rtc, 'p, 'k, 'st, 'out, 'sk, 'xk, 'rnd) host_libs"
  assumes "apart_libs fst L" "in_order (screen s)"
  shows "wp (host_service L cfg (terminal_console sys turns err) once n m :: (_, 'x, _) prog)
    (\<lambda>_ s'. transcript_ok (screen s')) s"
proof -
  have "in_order (terminal_say (code_line c) (terminal_say (lit ''ID '' @ i) (screen s)))" for c i
    using assms(2) other_lines(2,3) by (intro in_order_say) blast+
  then show ?thesis
    unfolding host_service_def
    by (simp add: wp_bnd wp_gets wp_say host_loop_order [OF assms(1)])
qed

section \<open>Property\<close>


text \<open>A user who needs almost the whole limit: nothing is typed until the first look of the host, which the
  machine does not finish for nearly thirty seconds, and \<open>y\<close> after it.\<close>

definition slow_turns :: "nat \<Rightarrow> (instant \<times> read_line) list \<times> nat" where
  "slow_turns n = (if n \<le> 11 then ([], 30000000008) else ([(n, Inr (2, lit ''y'' @ [10]))], n))"

abbreviation slow_console :: "(terminal \<times> nat) host_console" where
  "slow_console \<equiv> terminal_console sample_os slow_turns (\<lambda>l v. ((), v))"

definition greeted :: terminal where
  "greeted = terminal_say (code_line (lit ''123456'')) (terminal_say (lit ''ID '' @ lit ''123456789'') terminal_new)"

lemma session_apart: "apart_libs fst (session_host :: terminal sample_libs)"
  by (auto simp: apart_libs_def apart_os_def apart_def beside_os_def beside_def sample_os_def split: prod.splits)

lemma slow_agrees:
  "\<exists>T. agrees (hc_answer slow_console) (greeted, 10) (T, 30000000011) [EvAsked None, EvHeard NTimedOut, EvAsked (Some True)] \<and>
     said T = said greeted @ [question session_request]"
proof -
  let ?T = "\<lparr>tm_approver = \<lparr>ap_reading = True, ap_asked_at = Some 30000000008\<rparr>,
    tm_console = (say (question session_request) (tm_console greeted))\<lparr>con_asks := 1\<rparr>,
    tm_log = [Answer 30000000008 session_request]\<rparr>"
  have first: "hc_answer slow_console session_request (greeted, 11) = (None, ?T, 30000000009)"
    by (simp add: terminal_console_def slow_turns_def greeted_def terminal_say_def terminal_new_def approver_spawn_def
        Let_def sample_os_def terminal_ask_def approver_answer_def answer_loop.simps say_def)
  obtain T where second: "hc_answer slow_console session_request (?T, 30000000011) = (Some True, T, 30000000011)"
    and said: "said T = said greeted @ [question session_request]"
    by (simp add: terminal_console_def slow_turns_def greeted_def terminal_say_def terminal_new_def approver_spawn_def
        Let_def sample_os_def terminal_ask_def approver_answer_def answer_loop.simps say_def reader_turn_def
        says_yes_def str_trim_def is_whitespace_def lit_def)
  have "agrees (hc_answer slow_console) (greeted, 10) (T, 30000000011) [EvAsked None, EvHeard NTimedOut, EvAsked (Some True)]"
  proof (rule agrees_later)
    show "hc_answer slow_console session_request (moved 1 (greeted, 10)) = (None, ?T, 30000000009)"
      using first by simp
    show "snd (?T, 30000000009) = snd (greeted, 10) + secs 30 - 1" by (simp only: snd_conv secs_def)
    show "hc_answer slow_console session_request (moved 2 (?T, 30000000009)) = (Some True, T, 30000000011)"
      unfolding fst_conv snd_conv using second by simp
  qed
  with said show ?thesis by blast
qed

text \<open>The session is shown, and lines stay on the screen.\<close>

lemma serve_session_shows:
  fixes s :: "(terminal \<times> 'v) host_run" and L :: "(terminal \<times> 'v, 'rtc, 'p, 'k, 'st, 'out, 'sk, 'xk, 'rnd) host_libs"
  assumes "apart_libs fst L" "key_fingerprint (l_id L) (l_wire L) (pi_device_key v) = Some fp"
  shows "wp (serve_session L (terminal_console sys turns err) v ch :: (_, 'x, _) prog)
    (\<lambda>_ s'. \<exists>ys. said (screen s') = said (screen s) @ (lit ''CONNECTED '' @ pi_name v @ lit '' '' @ fp) # ys) s"
proof -
  let ?con = "terminal_console sys turns err"
  let ?line = "lit ''CONNECTED '' @ pi_name v @ lit '' '' @ fp"
  let ?P = "\<lambda>T. \<exists>ys. said T = said (screen s) @ ?line # ys"
  have line: "preserves (\<lambda>t. ?P (screen (snd t))) (on_snd (say_line ?con l))" for l
    by (rule preservesI) (auto simp: wp_on_snd wp_say)
  have error: "preserves (\<lambda>t. ?P (screen (snd t)))
      (case failed of None \<Rightarrow> ret () | Some e \<Rightarrow> on_snd (error_line ?con (session_lost_text @ host_error_text e)))" for failed
  proof (cases failed)
    case (Some e)
    have "preserves (\<lambda>s. ?P (screen s)) (error_line ?con l)" for l
      by (rule apart_keeps [OF apart_error])
    with Some show ?thesis by (simp add: preserves_def wp_on_snd)
  qed (simp add: preserves_intros)
  have served: "preserves (\<lambda>s. ?P (screen s)) (scoped L ch
       (bnd (handle (serve_pings L SESSION_LIMIT) (\<lambda>_. ret None) (\<lambda>e. ret (Some e))) (\<lambda>failed.
        bnd (on_snd (say_line ?con (lit ''DISCONNECTED''))) (\<lambda>_.
        bnd (case failed of
               None \<Rightarrow> ret ()
             | Some e \<Rightarrow> on_snd (error_line ?con (session_lost_text @ host_error_text e))) (\<lambda>_.
        ret (Inl (failed = None))))))
       (\<lambda>(b :: unit) c. panic) :: (_, 'x, bool) prog)"
    by (intro scoped_keeps [OF assms(1), where P = ?P] preserves_intros line error
        apart_keeps [OF apart_pings [OF assms(1)], where P = ?P])
  show ?thesis
    unfolding serve_session_def assms(2)
    by (simp add: wp_bnd wp_ret wp_say del: wp_scoped) (rule preserves_wp [OF served], simp)
qed

lemma wp_run: "m s = (r, s') \<Longrightarrow> wp m Q s = Q r s'"
  by (simp add: wp_def)

lemma slow_connected:
  "wp (host_service session_host sample_host_config slow_console True 1 1 :: (_, unit, _) prog)
     (\<lambda>_ s'. \<exists>ys. said (screen s') = (said greeted @ question session_request # map code_line [zero_code]) @
        (lit ''CONNECTED '' @ lit ''v'' @ lit '' '' @ sample_fingerprint) # ys)
     (host_start (lit ''123456'', limiter_new) (terminal_new, 0))"
proof -
  obtain T where agreed: "agrees (hc_answer slow_console) (greeted, 10) (T, 30000000011)
      [EvAsked None, EvHeard NTimedOut, EvAsked (Some True)]"
    and said: "said T = said greeted @ [question session_request]" using slow_agrees by blast
  have fp: "key_fingerprint (l_id session_host) (l_wire session_host) (pi_device_key sample_viewer_id) = Some sample_fingerprint"
    by (simp add: sample_viewer_id_def sample_fingerprint_def fingerprint_value [OF sample_wire_ok])
  let ?u = "\<lparr>world = (terminal_say (code_line zero_code) (terminal_end T), 30000000011),
      history = session_history_with [EvAsked None, EvHeard NTimedOut, EvAsked (Some True)], h_code = zero_code,
      h_limiter = limiter_new\<rparr> :: (terminal \<times> nat) host_run"
  let ?Q = "\<lambda>s'. \<exists>ys. said (screen s') = (said greeted @ question session_request # map code_line [zero_code]) @
        (lit ''CONNECTED '' @ lit ''v'' @ lit '' '' @ sample_fingerprint) # ys"
  have session: "wp (serve_session session_host slow_console sample_viewer_id ch :: (_, unit, _) prog) (\<lambda>_. ?Q) ?u" for ch
    by (rule wp_mono [OF serve_session_shows [OF session_apart fp]])
      (simp add: said sample_viewer_id_def)
  have new: "zero_code \<noteq> lit ''123456''" by (simp add: zero_code_def lit_def)
  have run: "wp (serve_next session_host sample_host_config (hc_answer slow_console) 1) Q (run_beside greeted) =
      Q (Ok (Session sample_viewer_id (sample_chan [] (Some 7) [])))
        \<lparr>world = (T, 30000000011), history = session_history_with [EvAsked None, EvHeard NTimedOut, EvAsked (Some True)],
         h_code = zero_code, h_limiter = limiter_new\<rparr>" for Q
    by (rule wp_run) (rule session_run_beside [OF agreed])
  have round: "wp (host_round session_host sample_host_config slow_console True 1 (lit ''123456'') :: (_, unit, _) prog)
      (\<lambda>_. ?Q) (run_beside greeted)"
    unfolding host_round_def wp_bnd [of "handle _ _ _"] wp_handle run
      after_simps wp_ret wp_bnd [of "in_world _"] wp_end wp_bnd [of "gets _"] wp_gets
    by (simp add: new wp_bnd [of "say_line _ _"] wp_say wp_bnd [of "bnd _ _"] wp_bnd [of "serve_session _ _ _ _"])
      (rule wp_mono [OF session], auto simp: after_def wp_ret split: res.splits)
  have "wp (host_loop session_host sample_host_config slow_console True 1 1 (lit ''123456'') :: (_, unit, _) prog)
      (\<lambda>_. ?Q) (run_beside greeted)"
    unfolding One_nat_def host_loop.simps wp_bnd [of "host_round _ _ _ _ _ _"]
    by (rule wp_mono [OF round [unfolded One_nat_def]])
      (auto simp: after_def wp_ret wp_hang split: res.splits option.splits)
  then show ?thesis
    by (simp add: host_service_def wp_bnd wp_gets wp_say host_start_def run_beside_def greeted_def sample_host_config_def)
qed


end
