(* ===== verification/ViewerApp.thy ===== *)
theory ViewerApp
  imports ViewerConnect Register Linked
begin

text \<open>
  \<open>apps/viewer/src/main.rs\<close>: the console viewer.  Its arguments, its run on a new WebSocket link
  (connect, then three pings), the sentence for each error, and the exit codes of \<open>main\<close>.
\<close>

section \<open>Arguments\<close>

record viewer_args =
  va_server :: ustr
  va_id :: ustr
  va_code :: ustr
  va_name :: ustr

record viewer_flags =
  vf_server :: "ustr option"
  vf_id :: "ustr option"
  vf_code :: "ustr option"
  vf_name :: ustr

fun viewer_args_loop :: "ustr list \<Rightarrow> viewer_flags \<Rightarrow> viewer_flags option" where
  "viewer_args_loop [] f = Some f"
| "viewer_args_loop (arg # args) f =
     (if arg = lit ''--server'' then
        (case args of [] \<Rightarrow> None | v # rest \<Rightarrow> viewer_args_loop rest (f\<lparr>vf_server := Some v\<rparr>))
      else if arg = lit ''--id'' then
        (case args of [] \<Rightarrow> None | v # rest \<Rightarrow> viewer_args_loop rest (f\<lparr>vf_id := Some v\<rparr>))
      else if arg = lit ''--code'' then
        (case args of [] \<Rightarrow> None | v # rest \<Rightarrow> viewer_args_loop rest (f\<lparr>vf_code := Some v\<rparr>))
      else if arg = lit ''--name'' then
        (case args of [] \<Rightarrow> None | v # rest \<Rightarrow> viewer_args_loop rest (f\<lparr>vf_name := v\<rparr>))
      else None)"

definition parse_viewer_args :: "ustr list \<Rightarrow> viewer_args option" where
  "parse_viewer_args args =
     (case viewer_args_loop args \<lparr>vf_server = None, vf_id = None, vf_code = None, vf_name = lit ''viewer''\<rparr> of
        None \<Rightarrow> None
      | Some f \<Rightarrow>
          (case vf_id f of
             None \<Rightarrow> None
           | Some i \<Rightarrow>
               if \<not> is_host_id i then None
               else (case (vf_server f, vf_code f) of
                   (Some server, Some code) \<Rightarrow>
                     Some \<lparr>va_server = server, va_id = i, va_code = code, va_name = vf_name f\<rparr>
                 | _ \<Rightarrow> None)))"

section \<open>Sentences\<close>

definition usage_text :: ustr where \<comment> \<open>the usage line\<close>
  "usage_text =
     lit ''usage: viewer --server <url> --id <9'' @ [0xC790, 0xB9AC] @ lit '' ID> --code <6'' @ [0xC790,
     0xB9AC, 0x20, 0xCF54, 0xB4DC] @ lit ''> [--name <'' @ [0xC774, 0xB984, 0x3E, 0x5D]"

definition bad_code_text :: ustr where \<comment> \<open>the code must be six digits\<close>
  "bad_code_text =
     [0xCF54, 0xB4DC, 0xB294, 0x20, 0xC22B, 0xC790, 0x20, 0x36, 0xC790, 0xB9AC, 0xC5EC, 0xC57C, 0x20, 0xD569,
     0xB2C8, 0xB2E4, 0x2E]"

definition wrong_code_text :: ustr where \<comment> \<open>the code is wrong\<close>
  "wrong_code_text =
     [0xCF54, 0xB4DC, 0xAC00, 0x20, 0xD2C0, 0xB838, 0xC2B5, 0xB2C8, 0xB2E4, 0x2E]"

definition wait_text :: ustr where \<comment> \<open>too many wrong codes, wait\<close>
  "wait_text =
     [0xCF54, 0xB4DC, 0xB97C, 0x20, 0xC5EC, 0xB7EC, 0x20, 0xBC88, 0x20, 0xD2C0, 0xB824, 0x20, 0xAE30, 0xB2E4,
     0xB824, 0xC57C, 0x20, 0xD569, 0xB2C8, 0xB2E4, 0x2E, 0x20]"

definition retry_text :: ustr where \<comment> \<open>(seconds) later try again\<close>
  "retry_text =
     [0xCD08, 0x20, 0xB4A4, 0x20, 0xB2E4, 0xC2DC, 0x20, 0xC2DC, 0xB3C4, 0xD558, 0xC138, 0xC694, 0x2E]"

definition not_waiting_text :: ustr where \<comment> \<open>the host is not waiting, check the id\<close>
  "not_waiting_text =
     [0xC0C1, 0xB300, 0xAC00, 0x20, 0xB300, 0xAE30, 0x20, 0xC911, 0xC774, 0x20, 0xC544, 0xB2D9, 0xB2C8, 0xB2E4]
     @ lit ''. ID '' @ [0xB97C, 0x20, 0xD655, 0xC778, 0xD558, 0xC138, 0xC694, 0x2E]"

definition busy_text :: ustr where \<comment> \<open>the host serves another viewer\<close>
  "busy_text =
     [0xC0C1, 0xB300, 0xAC00, 0x20, 0xB2E4, 0xB978, 0x20, 0xC0AC, 0xB78C, 0xC758, 0x20, 0xC5F0, 0xACB0, 0xC744,
     0x20, 0xCC98, 0xB9AC, 0xD558, 0xACE0, 0x20, 0xC788, 0xC2B5, 0xB2C8, 0xB2E4, 0x2E, 0x20, 0xC7A0, 0xC2DC,
     0x20, 0xB4A4, 0x20, 0xB2E4, 0xC2DC, 0x20, 0xC2DC, 0xB3C4, 0xD558, 0xC138, 0xC694, 0x2E]"

definition rate_limited_text :: ustr where \<comment> \<open>too many requests\<close>
  "rate_limited_text =
     [0xC5F0, 0xACB0, 0x20, 0xC694, 0xCCAD, 0xC774, 0x20, 0xB108, 0xBB34, 0x20, 0xB9CE, 0xC2B5, 0xB2C8, 0xB2E4,
     0x2E, 0x20, 0xBA87, 0x20, 0xBD84, 0x20, 0xB4A4, 0x20, 0xB2E4, 0xC2DC, 0x20, 0xC2DC, 0xB3C4, 0xD558,
     0xC138, 0xC694, 0x2E]"

definition host_left_text :: ustr where \<comment> \<open>the host left\<close>
  "host_left_text =
     [0xC0C1, 0xB300, 0xAC00, 0x20, 0xC5F0, 0xACB0, 0xC744, 0x20, 0xB04A, 0xC5C8, 0xC2B5, 0xB2C8, 0xB2E4, 0x2E]"

definition denied_text :: ustr where \<comment> \<open>the host refused\<close>
  "denied_text =
     [0xC0C1, 0xB300, 0xAC00, 0x20, 0xC5F0, 0xACB0, 0xC744, 0x20, 0xAC70, 0xC808, 0xD588, 0xC2B5, 0xB2C8,
     0xB2E4, 0x2E]"

definition no_response_text :: ustr where \<comment> \<open>no answer within 30 seconds\<close>
  "no_response_text =
     [0xC0C1, 0xB300, 0xAC00, 0x20, 0x33, 0x30, 0xCD08, 0x20, 0xC548, 0xC5D0, 0x20, 0xD5C8, 0xB77D, 0xD558,
     0xC9C0, 0x20, 0xC54A, 0xC558, 0xC2B5, 0xB2C8, 0xB2E4, 0x2E]"

definition bad_identity_text :: ustr where \<comment> \<open>the host could not verify this device\<close>
  "bad_identity_text =
     [0xC0C1, 0xB300, 0xAC00, 0x20, 0xC774, 0x20, 0xAE30, 0xAE30, 0xC758, 0x20, 0xC2E0, 0xC6D0, 0xC744, 0x20,
     0xD655, 0xC778, 0xD558, 0xC9C0, 0x20, 0xBABB, 0xD574, 0x20, 0xAC70, 0xC808, 0xD588, 0xC2B5, 0xB2C8,
     0xB2E4, 0x2E]"

definition host_older_text :: ustr where \<comment> \<open>the host is older\<close>
  "host_older_text =
     [0xC0C1, 0xB300, 0x20, 0xD504, 0xB85C, 0xADF8, 0xB7A8, 0xC774, 0x20, 0xAD6C, 0xBC84, 0xC804, 0xC785,
     0xB2C8, 0xB2E4, 0x2E, 0x20, 0xC0C1, 0xB300, 0xC5D0, 0xAC8C, 0x20, 0xC5C5, 0xB370, 0xC774, 0xD2B8, 0xB97C,
     0x20, 0xBD80, 0xD0C1, 0xD558, 0xC138, 0xC694, 0x2E]"

definition viewer_older_text :: ustr where \<comment> \<open>this program is older\<close>
  "viewer_older_text =
     [0xC774, 0x20, 0xD504, 0xB85C, 0xADF8, 0xB7A8, 0xC774, 0x20, 0xAD6C, 0xBC84, 0xC804, 0xC785, 0xB2C8,
     0xB2E4, 0x2E, 0x20, 0xC5C5, 0xB370, 0xC774, 0xD2B8, 0xD55C, 0x20, 0xB4A4, 0x20, 0xB2E4, 0xC2DC, 0x20,
     0xC2DC, 0xB3C4, 0xD558, 0xC138, 0xC694, 0x2E]"

definition versions_text :: ustr where \<comment> \<open>the versions differ\<close>
  "versions_text =
     [0xC0C1, 0xB300, 0xC640, 0x20, 0xD504, 0xB85C, 0xADF8, 0xB7A8, 0x20, 0xBC84, 0xC804, 0xC774, 0x20, 0xB2E4,
     0xB985, 0xB2C8, 0xB2E4, 0x2E]"

definition timeout_text :: ustr where \<comment> \<open>not connected in time\<close>
  "timeout_text =
     [0xC2DC, 0xAC04, 0x20, 0xC548, 0xC5D0, 0x20, 0xC5F0, 0xACB0, 0xD558, 0xC9C0, 0x20, 0xBABB, 0xD588, 0xC2B5,
     0xB2C8, 0xB2E4, 0x20, 0x28]"

definition stage_text :: ustr where \<comment> \<open>stage\<close>
  "stage_text =
     [0x20, 0xB2E8, 0xACC4, 0x29, 0x2E]"

definition security_text :: ustr where \<comment> \<open>a security check failed\<close>
  "security_text =
     [0xBCF4, 0xC548, 0x20, 0xD655, 0xC778, 0xC5D0, 0x20, 0xC2E4, 0xD328, 0xD574, 0x20, 0xC5F0, 0xACB0, 0xC744,
     0x20, 0xB04A, 0xC5C8, 0xC2B5, 0xB2C8, 0xB2E4, 0x20, 0x28]"

definition insecure_text :: ustr where \<comment> \<open>the address has to start with wss\<close>
  "insecure_text =
     [0xC11C, 0xBC84, 0x20, 0xC8FC, 0xC18C, 0xB294] @ lit '' wss:// '' @ [0xB85C, 0x20, 0xC2DC, 0xC791, 0xD574,
     0xC57C, 0x20, 0xD569, 0xB2C8, 0xB2E4, 0x2E]"

definition signaling_text :: ustr where \<comment> \<open>no communication with the signaling server\<close>
  "signaling_text =
     lit ''signaling '' @ [0xC11C, 0xBC84, 0xC640, 0x20, 0xD1B5, 0xC2E0, 0xD558, 0xC9C0, 0x20, 0xBABB, 0xD588,
     0xC2B5, 0xB2C8, 0xB2E4, 0x3A, 0x20]"

definition p2p_text :: ustr where \<comment> \<open>no peer connection\<close>
  "p2p_text =
     lit ''P2P '' @ [0xC5F0, 0xACB0, 0xC744, 0x20, 0xB9CC, 0xB4E4, 0xC9C0, 0x20, 0xBABB, 0xD588, 0xC2B5,
     0xB2C8, 0xB2E4, 0x3A, 0x20]"

text \<open>Seconds, rounded up from milliseconds, and at least one.\<close>

definition wait_secs :: "duration \<Rightarrow> nat" where
  "wait_secs d = max ((d div 1000000 + 999) div 1000) 1"

fun describe :: "connect_error \<Rightarrow> ustr" where
  "describe CWrongCode = wrong_code_text"
| "describe (CRetryAfter d) = wait_text @ decimal (wait_secs d) @ retry_text"
| "describe CHostNotWaiting = not_waiting_text"
| "describe CBusy = busy_text"
| "describe CRateLimited = rate_limited_text"
| "describe CHostLeft = host_left_text"
| "describe (CRejected RDenied) = denied_text"
| "describe (CRejected RNoResponse) = no_response_text"
| "describe (CRejected RBadIdentity) = bad_identity_text"
| "describe (CVersionMismatch _ _ SideHost) = host_older_text"
| "describe (CVersionMismatch _ _ SideViewer) = viewer_older_text"
| "describe (CRejected (RVersionMismatch _)) = versions_text"
| "describe (CTimeout stage) = timeout_text @ lit (stage_debug stage) @ stage_text"
| "describe (CSecurity what) = security_text @ lit what @ lit '').''"
| "describe (CLink LInsecureUrl) = insecure_text"
| "describe (CLink e) = signaling_text @ link_error_text e"
| "describe (CTransport e) = p2p_text @ transport_error_text e"

section \<open>A run\<close>

definition PINGS :: nat where
  "PINGS = 3"

definition PING_TIMEOUT :: duration where
  "PING_TIMEOUT = secs 2"

definition join_url :: "viewer_args \<Rightarrow> ustr" where
  "join_url a = va_server a @ lit ''/v1/viewer/'' @ va_id a"

text \<open>Standard output and error output.\<close>

type_synonym 'w printer = "ustr \<Rightarrow> 'w \<Rightarrow> unit \<times> 'w"

record 'w viewer_console =
  vc_print :: "'w printer"
  vc_error :: "'w printer"

definition pong_line :: "duration \<Rightarrow> ustr" where
  "pong_line rtt = lit ''PONG rtt_ms='' @ decimal (rtt div 1000000)"

text \<open>The rounds of \<open>Ping\<close>: each prints its time in milliseconds.\<close>

primrec ping_rounds ::
  "nat \<Rightarrow> ('w, 'rtc, 'p, 'k, 'st, 'out, 'sk, 'xk, 'rnd) viewer_libs \<Rightarrow> 'w printer \<Rightarrow>
   ('rtc viewer_session \<times> 'w viewer_run, connect_error, unit) prog"
where
  "ping_rounds 0 L put = ret ()"
| "ping_rounds (Suc n) L put =
     bnd (ping L PING_TIMEOUT) (\<lambda>rtt.
     bnd (on_snd (in_world (ext_total (put (pong_line rtt))))) (\<lambda>_.
     ping_rounds n L put))"

definition viewer_bind_ips :: "ip_addr list \<Rightarrow> ip_addr list" where
  "viewer_bind_ips ips = (if ips = [] then [V4 0x7F000001] else ips)"

text \<open>A session is dropped at the end of the run, whatever the outcome.\<close>

definition in_new_session ::
  "('w, 'rtc, 'p, 'k, 'st, 'out, 'sk, 'xk, 'rnd) viewer_libs \<Rightarrow> 'rtc viewer_session \<Rightarrow>
   ('rtc viewer_session \<times> 'w viewer_run, 'x, unit) prog \<Rightarrow> ('w viewer_run, 'x, unit) prog"
where
  "in_new_session L v m s =
     (case m (v, s) of (r, v', s') \<Rightarrow>
        handle (\<lambda>s. (r, s))
          (\<lambda>_. drop_channel L (vs_ch v')) (\<lambda>x. bnd (drop_channel L (vs_ch v')) (\<lambda>_. fail x)) s')"

text \<open>From \<open>connect\<close> on; \<open>put\<close> prints.\<close>

definition viewer_connected ::
  "('w, 'rtc, 'p, 'k, 'st, 'out, 'sk, 'xk, 'rnd) viewer_libs \<Rightarrow> 'w printer \<Rightarrow> viewer_args \<Rightarrow> ustr \<Rightarrow>
   ('sk, 'xk) device_keys \<Rightarrow> ip_addr list \<Rightarrow> ('w viewer_run, connect_error, unit) prog"
where
  "viewer_connected L put args code keys ips =
     bnd (connect L (va_id args) code keys (viewer_bind_ips ips) default_timeouts) (\<lambda>session.
     bnd (expect (key_fingerprint (l_id L) (l_wire L) (pi_device_key (vs_host session)))) (\<lambda>fp.
     bnd (in_world (ext_total (put (lit ''CONNECTED '' @ pi_name (vs_host session) @ lit '' '' @ fp)))) (\<lambda>_.
     in_new_session L session (ping_rounds PINGS L put))))"

text \<open>A run that owns its link; the history starts with it.\<close>

definition start_run :: "'ws ws_link \<Rightarrow> 'w \<Rightarrow> ('ws ws_link \<times> 'w) viewer_run" where
  "start_run link w = \<lparr>world = (link, w), history = []\<rparr>"

definition run_with_link ::
  "'ws ws_link \<Rightarrow> (('ws ws_link \<times> 'w) viewer_run, 'x, 'a) prog \<Rightarrow> ('w, 'x, 'a) prog"
where
  "run_with_link link m w = (case m (start_run link w) of (r, s) \<Rightarrow> (r, snd (world s)))"

type_synonym ('ws, 'w, 'rtc, 'p, 'k, 'st, 'out, 'sk, 'xk, 'rnd) viewer_crates =
  "(server_to_viewer, viewer_to_server, 'ws, 'w, 'rtc, 'p, 'k, 'st, 'out, 'sk, 'xk, 'rnd) crates"

definition viewer_app_run ::
  "('ws, 'w, 'rtc, 'p, 'k, 'st, 'out, 'sk, 'xk, 'rnd) viewer_crates \<Rightarrow> 'w viewer_console \<Rightarrow>
   viewer_args \<Rightarrow> ustr \<Rightarrow> ('sk, 'xk) device_keys \<Rightarrow> ('w, connect_error, unit) prog"
where
  "viewer_app_run K con args code keys =
     bnd (map_err from_join_error (ws_connect (k_os K) (k_ws K) (join_url args))) (\<lambda>link.
     bnd (local_ips (k_os K)) (\<lambda>ips.
     run_with_link link (viewer_connected (linked K) (\<lambda>line. beside (vc_print con line)) args code keys ips)))"

section \<open>The program\<close>

definition viewer_main ::
  "('ws, 'w, 'rtc, 'p, 'k, 'st, 'out, 'sk, 'xk, 'rnd) viewer_crates \<Rightarrow> 'w viewer_console \<Rightarrow> ustr list \<Rightarrow>
   ('w, 'x, exit_code) prog"
where
  "viewer_main K con argv =
     (case parse_viewer_args argv of
        None \<Rightarrow> complain (vc_error con) usage_text (ExitFrom 2)
      | Some args \<Rightarrow>
        (case code_parse (va_code args) of
           Inl _ \<Rightarrow> complain (vc_error con) bad_code_text ExitFailure
         | Inr code \<Rightarrow>
             handle (generate_keys K (va_name args))
               (\<lambda>keys.
                  handle (viewer_app_run K con args code keys)
                    (\<lambda>_. ret ExitSuccess)
                    (\<lambda>e. complain (vc_error con) (describe e) ExitFailure))
               (\<lambda>_. complain (vc_error con) bad_name_text (ExitFrom 2))))"

section \<open>Lemmas\<close>

text \<open>\<open>parse_args\<close> written as pairs of a flag and its value, the last one of a flag counting.\<close>

definition viewer_flag_names :: "ustr set" where
  "viewer_flag_names = {lit ''--server'', lit ''--id'', lit ''--code'', lit ''--name''}"

definition last_value :: "ustr \<Rightarrow> (ustr \<times> ustr) list \<Rightarrow> ustr option" where
  "last_value k kvs = map_of (rev kvs) k"

definition flags_of :: "(ustr \<times> ustr) list \<Rightarrow> viewer_flags \<Rightarrow> viewer_flags" where
  "flags_of kvs f =
     (let val = (\<lambda>k d. case last_value (lit k) kvs of None \<Rightarrow> d | Some v \<Rightarrow> v);
          opt = (\<lambda>k d. case last_value (lit k) kvs of None \<Rightarrow> d | Some v \<Rightarrow> Some v)
      in \<lparr>vf_server = opt ''--server'' (vf_server f), vf_id = opt ''--id'' (vf_id f),
          vf_code = opt ''--code'' (vf_code f), vf_name = val ''--name'' (vf_name f)\<rparr>)"

lemma flag_names_distinct:
  "lit ''--server'' \<noteq> lit ''--id''" "lit ''--server'' \<noteq> lit ''--code''" "lit ''--server'' \<noteq> lit ''--name''"
  "lit ''--id'' \<noteq> lit ''--code''" "lit ''--id'' \<noteq> lit ''--name''" "lit ''--code'' \<noteq> lit ''--name''"
  by (simp_all add: lit_def)

lemma last_value_Cons:
  "last_value k ((k', v) # kvs) = (case last_value k kvs of None \<Rightarrow> if k = k' then Some v else None | Some x \<Rightarrow> Some x)"
  by (simp add: last_value_def map_add_def split: option.splits)

lemma flags_of_Cons:
  "flags_of ((lit ''--server'', v) # kvs) f = flags_of kvs (f\<lparr>vf_server := Some v\<rparr>)"
  "flags_of ((lit ''--id'', v) # kvs) f = flags_of kvs (f\<lparr>vf_id := Some v\<rparr>)"
  "flags_of ((lit ''--code'', v) # kvs) f = flags_of kvs (f\<lparr>vf_code := Some v\<rparr>)"
  "flags_of ((lit ''--name'', v) # kvs) f = flags_of kvs (f\<lparr>vf_name := v\<rparr>)"
  using flag_names_distinct flag_names_distinct [symmetric]
  by (simp_all add: flags_of_def last_value_Cons Let_def split: option.splits)

fun flat_pairs :: "(ustr \<times> ustr) list \<Rightarrow> ustr list" where
  "flat_pairs [] = []"
| "flat_pairs ((k, v) # kvs) = k # v # flat_pairs kvs"

lemma loop_complete:
  "fst ` set kvs \<subseteq> viewer_flag_names \<Longrightarrow> viewer_args_loop (flat_pairs kvs) f = Some (flags_of kvs f)"
proof (induction kvs arbitrary: f rule: flat_pairs.induct)
  case 1
  then show ?case by (simp add: flags_of_def last_value_def)
next
  case (2 k v kvs)
  then have k: "k \<in> viewer_flag_names" by simp
  then show ?case
    using 2 flag_names_distinct flag_names_distinct [symmetric]
    by (auto simp: viewer_flag_names_def flags_of_Cons)
qed

lemma loop_sound:
  "viewer_args_loop args f = Some g \<Longrightarrow> \<exists>kvs. args = flat_pairs kvs \<and> fst ` set kvs \<subseteq> viewer_flag_names"
proof (induction args f arbitrary: g rule: viewer_args_loop.induct)
  case (1 f)
  show ?case by (rule exI [of _ "[]"]) simp
next
  case (2 arg args f)
  obtain v rest f' where r: "args = v # rest" "arg \<in> viewer_flag_names" "viewer_args_loop rest f' = Some g"
    "\<exists>kvs. rest = flat_pairs kvs \<and> fst ` set kvs \<subseteq> viewer_flag_names"
    using 2 by (auto simp: viewer_flag_names_def split: if_splits list.splits)
  then obtain kvs where "rest = flat_pairs kvs" "fst ` set kvs \<subseteq> viewer_flag_names" by blast
  with r show ?case by (intro exI [of _ "(arg, v) # kvs"]) simp
qed

text \<open>The sentences tell the causes apart; only details are left out.\<close>

fun cause :: "connect_error \<Rightarrow> nat" where
  "cause CWrongCode = 0"
| "cause (CRetryAfter d) = 1"
| "cause CHostNotWaiting = 2"
| "cause CBusy = 3"
| "cause CRateLimited = 4"
| "cause CHostLeft = 5"
| "cause (CRejected RDenied) = 6"
| "cause (CRejected RNoResponse) = 7"
| "cause (CRejected RBadIdentity) = 8"
| "cause (CVersionMismatch _ _ SideHost) = 9"
| "cause (CVersionMismatch _ _ SideViewer) = 10"
| "cause (CRejected (RVersionMismatch _)) = 11"
| "cause (CTimeout stage) = 12"
| "cause (CSecurity what) = 13"
| "cause (CLink LInsecureUrl) = 14"
| "cause (CLink e) = 15"
| "cause (CTransport e) = 16"

section \<open>Properties\<close>

text \<open>The arguments of the viewer: \<open>parse_args\<close> accepts exactly the lists of known flags each with
  a value, among them a server, a code and an id; of a repeated flag the last value counts, a missing
  name is \<open>viewer\<close>, and the id, which becomes part of the URL, is nine ASCII digits.\<close>

theorem viewer_args_exact:
  "parse_viewer_args args = Some a \<longleftrightarrow>
     (\<exists>kvs. args = flat_pairs kvs \<and> fst ` set kvs \<subseteq> viewer_flag_names \<and>
        last_value (lit ''--server'') kvs = Some (va_server a) \<and>
        last_value (lit ''--id'') kvs = Some (va_id a) \<and> is_host_id (va_id a) \<and>
        last_value (lit ''--code'') kvs = Some (va_code a) \<and>
        va_name a = (case last_value (lit ''--name'') kvs of None \<Rightarrow> lit ''viewer'' | Some n \<Rightarrow> n))"
  (is "?l \<longleftrightarrow> (\<exists>kvs. ?p kvs)")
proof -
  let ?f = "\<lparr>vf_server = None, vf_id = None, vf_code = None, vf_name = lit ''viewer''\<rparr>"
  have flags: "(case viewer_args_loop args ?f of None \<Rightarrow> None
      | Some f \<Rightarrow> (case vf_id f of None \<Rightarrow> None | Some i \<Rightarrow> if \<not> is_host_id i then None
               else (case (vf_server f, vf_code f) of (Some server, Some code) \<Rightarrow>
                     Some \<lparr>va_server = server, va_id = i, va_code = code, va_name = vf_name f\<rparr> | _ \<Rightarrow> None))) = Some a \<longleftrightarrow>
      last_value (lit ''--server'') kvs = Some (va_server a) \<and>
        last_value (lit ''--id'') kvs = Some (va_id a) \<and> is_host_id (va_id a) \<and>
        last_value (lit ''--code'') kvs = Some (va_code a) \<and>
        va_name a = (case last_value (lit ''--name'') kvs of None \<Rightarrow> lit ''viewer'' | Some n \<Rightarrow> n)"
    if "args = flat_pairs kvs" "fst ` set kvs \<subseteq> viewer_flag_names" for kvs
    unfolding that(1) loop_complete [OF that(2)]
    by (cases a) (auto simp: flags_of_def Let_def split: option.splits)
  show ?thesis
  proof
    assume l: ?l
    then obtain g where "viewer_args_loop args ?f = Some g" by (auto simp: parse_viewer_args_def split: option.splits)
    from loop_sound [OF this] obtain kvs where k: "args = flat_pairs kvs" "fst ` set kvs \<subseteq> viewer_flag_names" by blast
    with l [unfolded parse_viewer_args_def flags [OF k]] show "\<exists>kvs. ?p kvs" by blast
  next
    assume "\<exists>kvs. ?p kvs"
    then obtain kvs where k: "?p kvs" ..
    then show ?l unfolding parse_viewer_args_def using flags [of kvs] by blast
  qed
qed

end
