(* ===== verification/ViewerMain.thy ===== *)
theory ViewerMain
  imports ViewerApp ViewerReturns
begin

text \<open>
  The viewer program as a whole: \<open>main\<close> on a WebSocket link of its own returns, whatever the server, the
  host and the network do, and its exit code says how it was called.
\<close>

section \<open>The calls around the connection\<close>

text \<open>Each sentence of \<open>describe\<close> has its own cause.\<close>

lemmas sentences =
  wrong_code_text_def wait_text_def not_waiting_text_def busy_text_def rate_limited_text_def
  host_left_text_def denied_text_def no_response_text_def bad_identity_text_def host_older_text_def viewer_older_text_def
  versions_text_def timeout_text_def security_text_def insecure_text_def signaling_text_def p2p_text_def

lemmas sentence_points = sentences [unfolded lit_def, simplified]

lemma describe_cause: "describe e = describe e' \<Longrightarrow> cause e = cause e'"
proof -
  have "describe e = describe e' \<longrightarrow> cause e = cause e'"
    by (cases e rule: describe.cases; cases e' rule: describe.cases;
        simp only: describe.simps cause.simps append.simps sentence_points list.inject; simp)
  then show "describe e = describe e' \<Longrightarrow> cause e = cause e'" ..
qed

lemma tame_ws_connect:
  assumes "outside_ok clk work k K"
  shows "tame clk (ws_connect (k_os K) (k_ws K) url)"
proof -
  note o = outside_okD [OF assms]
  have "tame clk (connect_addrs (k_os K) as e)" for as e
    by (induction as arbitrary: e) (auto intro!: tame_intros o simp del: split_paired_All)
  then have tcp: "tame clk (connect_tcp (k_os K) h p)" for h p
    unfolding connect_tcp_def Let_def by (intro tame_intros o)
  show ?thesis
    unfolding ws_connect_def Let_def
    by (auto intro!: tame_intros o tcp split: option.splits handshake_error.splits)
qed

lemma tame_local_ips:
  assumes "outside_ok clk work k K"
  shows "tame clk (local_ips (k_os K))"
proof -
  note o = outside_okD [OF assms]
  have one: "tame clk (local_ip_for (k_os K) t)" for t
    unfolding local_ip_for_def Let_def by (auto intro!: tame_intros o split: option.splits)
  have "tame clk (local_ips_for (k_os K) ts out)" for ts out
    by (induction ts arbitrary: out) (auto intro!: tame_intros one split: option.splits)
  then show ?thesis unfolding local_ips_def .
qed

section \<open>The session\<close>

lemma wp_in_new_session:
  "wp (in_new_session L v m) Q s =
     wp m (\<lambda>r t. after (\<lambda>_. wp (drop_channel L (vs_ch (fst t))) Q)
       (\<lambda>x. wp (bnd (drop_channel L (vs_ch (fst t))) (\<lambda>_. fail x)) Q) Q r (snd t)) (v, s)"
  by (auto simp: wp_def in_new_session_def handle_def after_def split: prod.splits res.splits)

lemma ping_rounds_return:
  fixes s :: "'rtc viewer_session \<times> 'w viewer_run"
  assumes "punctual clk work k T L" "PING_TIMEOUT < l_fuel L" "\<And>l. keeps clk (put l)"
    and "length (pending (vs_ch (fst s))) + n * (k * PING_TIMEOUT) < l_fuel L"
  shows "wp (ping_rounds n L put) (\<lambda>r s'. r \<noteq> Hang \<and> clk (world (snd s)) \<le> clk (world (snd s'))) s"
  using assms(4)
proof (induction n arbitrary: s)
  case (Suc n)
  let ?Q = "\<lambda>r s'. r \<noteq> Hang \<and> clk (world (snd s)) \<le> clk (world (snd s'))"
  have fuel: "length (pending (vs_ch (fst s))) + k * PING_TIMEOUT < l_fuel L" using Suc.prems by simp
  have again: "wp (bnd (on_snd (in_world (ext_total (put l)))) (\<lambda>_. ping_rounds n L put)) ?Q u"
    if "clk (world (snd s)) \<le> clk (world (snd u))"
      "length (pending (vs_ch (fst u))) \<le> length (pending (vs_ch (fst s))) + k * PING_TIMEOUT" for l u
  proof (cases "put l (world (snd u))")
    case (Pair a w)
    have w: "clk (world (snd u)) \<le> clk w" by (rule keepsD [OF assms(3) Pair])
    have "length (pending (vs_ch (fst (fst u, (snd u)\<lparr>world := w\<rparr>)))) + n * (k * PING_TIMEOUT) < l_fuel L"
      using that(2) Suc.prems by simp
    from Suc.IH [OF this] show ?thesis
      using w that(1) by (auto simp: wp_bnd wp_on_snd wp_in_world wp_ext_total Pair elim!: wp_mono)
  qed
  show ?case
    unfolding ping_rounds.simps wp_bnd [of "ping _ _"]
    by (rule wp_mono [OF ping_returns [OF assms(1,2) fuel]])
      (auto simp: after_def intro!: again split: res.splits)
qed (simp add: wp_ret)

text \<open>Fuel for the whole program: the waits of \<open>connect\<close>, and the messages a host can send in all.\<close>

definition viewer_program_fuel :: "nat \<Rightarrow> nat \<Rightarrow> bool" where
  "viewer_program_fuel k n \<longleftrightarrow>
     viewer_fuel default_timeouts n \<and> PING_TIMEOUT < n \<and>
     viewer_backlog k default_timeouts + PINGS * (k * PING_TIMEOUT) < n"

lemma viewer_connected_tame:
  fixes s :: "'w viewer_run"
  assumes "punctual clk work k (signaling_step default_timeouts) L" "viewer_program_fuel k (l_fuel L)"
    "\<And>l. keeps clk (put l)"
  shows "tame_at (run_clock clk) (viewer_connected L put args code keys ips) s"
proof -
  have fuel: "viewer_fuel default_timeouts (l_fuel L)" "PING_TIMEOUT < l_fuel L"
    "viewer_backlog k default_timeouts + PINGS * (k * PING_TIMEOUT) < l_fuel L"
    using assms(2) by (simp_all add: viewer_program_fuel_def)
  have drop: "tame_at (run_clock clk) (drop_channel L c :: (_, connect_error, _) prog) u"
    "tame_at (run_clock clk) (bnd (drop_channel L c) (\<lambda>_. fail x) :: (_, connect_error, unit) prog) u" for c x u
    by (intro tame_at tame_intros tame_drop_channel [OF assms(1)])+
  have session: "tame_at (run_clock clk) (in_new_session L v (ping_rounds PINGS L put)) u"
    if "length (pending (vs_ch v)) \<le> viewer_backlog k default_timeouts" for v u
  proof -
    have "length (pending (vs_ch (fst (v, u)))) + PINGS * (k * PING_TIMEOUT) < l_fuel L" using that fuel(3) by simp
    from ping_rounds_return [OF assms(1) fuel(2) assms(3) this] show ?thesis
      unfolding tame_at_def wp_in_new_session
      by (rule wp_mono) (auto simp: after_def intro!: tame_at_weaken [OF drop(1)] tame_at_weaken [OF drop(2)] split: res.splits)
  qed
  have shown: "tame_at (run_clock clk) (bnd (expect fp) (\<lambda>fp. bnd (in_world (ext_total (put (line fp)))) (\<lambda>_.
      in_new_session L v (ping_rounds PINGS L put)))) u"
    if "length (pending (vs_ch v)) \<le> viewer_backlog k default_timeouts" for v fp line u
    by (intro tame_at_bnd tame_at [OF tame_expect] tame_at [OF tame_in_world [OF tame_ext_total]] assms(3) session that)
  let ?Q = "\<lambda>r u. r \<noteq> Hang \<and> clk (world s) \<le> clk (world u)"
  have "after (\<lambda>v. wp (bnd (expect (key_fingerprint (l_id L) (l_wire L) (pi_device_key (vs_host v)))) (\<lambda>fp.
        bnd (in_world (ext_total (put (lit ''CONNECTED '' @ pi_name (vs_host v) @ lit '' '' @ fp)))) (\<lambda>_.
        in_new_session L v (ping_rounds PINGS L put)))) ?Q) (\<lambda>x. ?Q (Err x)) ?Q r u"
    if "(r \<noteq> Hang \<and> clk (world s) \<le> clk (world u)) \<and>
      (\<forall>v. r = Ok v \<longrightarrow> length (pending (vs_ch v)) \<le> viewer_backlog k default_timeouts)" for r u
    using that by (cases r) (auto simp: after_def intro!: tame_at_weaken [OF shown])
  then show ?thesis
    unfolding tame_at_def viewer_connected_def wp_bnd [of "connect _ _ _ _ _ _"]
    by (rule wp_mono [OF wp_conj [OF connect_tame [OF assms(1) fuel(1), unfolded tame_at_def]
            connect_backlog [OF assms(1) fuel(1)]]])
qed

lemma wp_run_with_link: "wp (run_with_link link m) Q w = wp m (\<lambda>r s. Q r (snd (world s))) (start_run link w)"
  by (auto simp: wp_def run_with_link_def split: prod.splits)

lemma viewer_main_tame:
  assumes "outside_ok clk work k K" "viewer_program_fuel k (k_fuel K)"
    "\<And>l. keeps clk (vc_print con l)" "\<And>l. keeps clk (vc_error con l)"
  shows "tame clk (viewer_main K con argv)"
proof -
  have "signaling_step default_timeouts < k_fuel K"
    using assms(2) by (simp add: viewer_program_fuel_def viewer_fuel_def)
  note p = linked_punctual [OF assms(1) this]
  have run: "tame clk (run_with_link link (viewer_connected (linked K) (\<lambda>line. beside (vc_print con line)) args code keys ips))"
    for link args code keys ips
  proof (rule tameI)
    fix w
    have "tame_at (run_clock (link_clock clk)) (viewer_connected (linked K) (\<lambda>line. beside (vc_print con line)) args code keys ips)
        (start_run link w)"
      by (rule viewer_connected_tame [OF p]) (use assms(2) in \<open>simp_all add: linked_def keeps_beside assms(3)\<close>)
    then show "wp (run_with_link link (viewer_connected (linked K) (\<lambda>line. beside (vc_print con line)) args code keys ips))
        (\<lambda>r s'. r \<noteq> Hang \<and> clk w \<le> clk s') w"
      unfolding wp_run_with_link tame_at_def by (simp add: start_run_def)
  qed
  have "tame clk (complain (vc_error con) l c)" for l c
    unfolding complain_def by (intro tame_intros assms(4))
  then show ?thesis
    unfolding viewer_main_def viewer_app_run_def
    by (auto intro!: tame_intros tame_generate_keys [OF assms(1)] tame_ws_connect [OF assms(1)] tame_local_ips [OF assms(1)] run
        split: option.splits sum.splits)
qed

section \<open>Exit codes\<close>

text \<open>The program was called in a wrong way: arguments it does not know, or a name it cannot use.\<close>

definition misused :: "ustr list \<Rightarrow> bool" where
  "misused argv \<longleftrightarrow>
     (case parse_viewer_args argv of
        None \<Rightarrow> True
      | Some a \<Rightarrow> \<not> isl (code_parse (va_code a)) \<and> check_device_name (va_name a) \<noteq> Inr ())"

lemma viewer_main_exit:
  "wp (viewer_main K con argv) (\<lambda>r _. (\<forall>x. r \<noteq> Err x) \<and> (\<forall>c. r = Ok c \<longrightarrow> (c = ExitFrom 2 \<longleftrightarrow> misused argv))) w"
    (is "wp _ ?Q w")
proof (cases "parse_viewer_args argv")
  case None
  then show ?thesis by (auto simp: viewer_main_def misused_def intro!: wp_complain)
next
  case (Some a)
  show ?thesis
  proof (cases "code_parse (va_code a)")
    case (Inl e)
    with Some show ?thesis by (auto simp: viewer_main_def misused_def intro!: wp_complain)
  next
    case (Inr code)
    show ?thesis
    proof (cases "check_device_name (va_name a)")
      case (Inl e)
      with Some Inr show ?thesis
        by (auto simp: viewer_main_def misused_def wp_handle wp_def [of "generate_keys _ _"] generate_keys_refuses(1) after_def
            intro!: wp_complain)
    next
      case name: (Inr u)
      have run: "wp (handle (viewer_app_run K con a code keys) (\<lambda>_. ret ExitSuccess)
          (\<lambda>e. complain (vc_error con) (describe e) ExitFailure)) ?Q v" for keys v
        using Some Inr name by (intro wp_handle_any) (auto simp: misused_def wp_ret intro!: wp_complain)
      show ?thesis
        using Some Inr name
        by (simp add: viewer_main_def wp_handle [of "generate_keys _ _"])
          (rule wp_mono [OF generate_keys_refuses(2)], auto simp: after_def run split: res.splits)
    qed
  qed
qed

section \<open>Properties\<close>

text \<open>C13: The viewer program ends: on the real WebSocket link, with a clock that advances and calls of the
  system and the engine that return, \<open>main\<close> returns whatever the server, the host and the network do, never
  with an error of its own, and the exit code is 2 exactly when it was called in a wrong way.\<close>

theorem viewer_main_returns:
  fixes r :: "('x, exit_code) res"
  assumes "outside_ok clk work k K" and "viewer_program_fuel k (k_fuel K)"
    and "\<forall>l. keeps clk (vc_print con l)" and "\<forall>l. keeps clk (vc_error con l)"
    and "viewer_main K con argv w = (r, w')"
  shows "r \<noteq> Hang \<and> (\<forall>x. r \<noteq> Err x) \<and> (\<forall>c. r = Ok c \<longrightarrow> (c = ExitFrom 2 \<longleftrightarrow> misused argv))"
  using wpD [OF viewer_main_tame [OF assms(1,2) spec [OF assms(3)] spec [OF assms(4)], unfolded tame_def, rule_format] assms(5)]
    wpD [OF viewer_main_exit assms(5)] by simp

text \<open>A host that leaves as the viewer joins.\<close>

definition leaving_json :: "(server_to_viewer, viewer_to_server) json" where
  "leaving_json = \<lparr>json_to = (\<lambda>m. Inr []), json_from = (\<lambda>t. Inr SVHostLeft)\<rparr>"

definition leaving ::
  "(ws_msg list, nat, rtc_output option, unit, bytes, bytes \<times> bytes, bytes \<times> bytes, byte, byte, byte) viewer_crates"
where
  "leaving =
     \<lparr>k_os = register_os, k_ws = register_ws, k_json = leaving_json, k_rtc = sample_rtc, k_wire = sample_wire,
      k_aead = sample_aead, k_spake = sample_spake, k_id = sample_id_lib, k_rng = (\<lambda>w. ([9], w)),
      k_key_rng = (\<lambda>w. (Some 3, w)), k_ws_drop = (\<lambda>ws w. ((), w)), k_fuel = 1000000000000\<rparr>"

definition silent_console :: "nat viewer_console" where
  "silent_console = \<lparr>vc_print = (\<lambda>l w. ((), w)), vc_error = (\<lambda>l w. ((), w))\<rparr>"

definition leaving_argv :: "ustr list" where
  "leaving_argv =
     [lit ''--server'', lit ''wss://h'', lit ''--id'', lit ''123456789'', lit ''--code'', lit ''123456'']"

lemma leaving_ok: "outside_ok (\<lambda>w. w) (\<lambda>r. case r of None \<Rightarrow> 0 | Some _ \<Rightarrow> 1) 2 leaving"
proof -
  have os: "os_ok (\<lambda>w. w) register_os"
    using sample_os_ok by (auto simp: os_ok_def register_os_def ticking_def keeps_def)
  show ?thesis
    unfolding outside_ok_def leaving_def crates.simps
    by (intro conjI os sample_rtc_drains register_ws_keeps allI)
      (simp_all add: register_os_def register_ws_def sample_os_def sample_ws_def keeps_def)
qed

lemma leaving_fuel: "viewer_program_fuel 2 (k_fuel leaving)"
  by (simp add: viewer_program_fuel_def viewer_fuel_def viewer_backlog_def default_timeouts_def secs_def PINGS_def
      PING_TIMEOUT_def leaving_def)

definition leaving_link :: "ws_msg list ws_link" where
  "leaving_link = \<lparr>ws_sock = [WText [5], WText [6]], ws_closed = None\<rparr>"

definition leaving_args :: viewer_args where
  "leaving_args = \<lparr>va_server = lit ''wss://h'', va_id = lit ''123456789'', va_code = lit ''123456'', va_name = lit ''viewer''\<rparr>"

lemma leaving_id: "is_host_id (lit ''123456789'')"
  by code_simp

lemma leaving_parse: "parse_viewer_args leaving_argv = Some leaving_args"
  using leaving_id by (simp add: parse_viewer_args_def leaving_argv_def leaving_args_def) (simp add: lit_def)

lemma leaving_code: "code_parse (lit ''123456'') = Inr (lit ''123456'')"
  by (rule code_parse_digits) (simp_all add: lit_def is_digit_char_def)

lemma leaving_name: "check_device_name (lit ''viewer'') = Inr ()"
  by code_simp

lemma leaving_simps:
  "k_os leaving = register_os" "k_ws leaving = register_ws" "k_json leaving = leaving_json" "k_id leaving = sample_id_lib"
  "k_key_rng leaving = (\<lambda>w. (Some 3, w))" "k_ws_drop leaving = (\<lambda>ws w. ((), w))" "k_fuel leaving = 1000000000000"
  by (simp_all add: leaving_def)

lemma leaving_connect: "ws_connect register_os register_ws url w = (Ok leaving_link, w)"
proof -
  have "ensure_secure_url register_ws u = Inr \<lparr>u_scheme = Some (lit ''wss''), u_authority = Some (lit ''h''), u_port = None\<rparr>"
    for u
    by (simp add: ensure_secure_url_def register_ws_def eq_ignore_ascii_case_def)
  then show ?thesis
    by (simp add: ws_connect_def run_simps Let_def ext_total_def ext_def connect_tcp_def register_os_def sample_os_def
        register_ws_def sample_ws_def leaving_link_def)
qed

lemma leaving_recv:
  "ws_recv register_os register_ws leaving_json (Suc n) (secs 15) (leaving_link, w) =
     (Ok (Some SVHostLeft), leaving_link\<lparr>ws_sock := [WText [6]]\<rparr>, Suc (Suc w))"
  by (simp add: ws_recv_def leaving_link_def run_simps on_snd_def now_def ext_total_def ext_def on_ws_def set_read_timeout_def
      register_os_def sample_os_def register_ws_def sample_ws_def leaving_json_def secs_def)

lemma million_million: "Suc 999999999999 = 1000000000000"
  by simp

lemma leaving_run: "viewer_main leaving silent_console leaving_argv 0 = (Ok ExitFailure, 2)"
  by (simp add: viewer_main_def leaving_parse leaving_code leaving_name leaving_args_def generate_keys_def device_keys_generate_def run_simps
      viewer_app_run_def leaving_simps leaving_connect register_ips run_with_link_def start_run_def viewer_connected_def
      connect_def owning_link_def viewer_connect_body_def link_recv_def noting_def in_world_def record_event_def
      linked_def default_timeouts_def leaving_recv [of 999999999999, unfolded million_million] drop_link_def drop_ws_def beside_def ext_total_def complain_def
      silent_console_def numeral_2_eq_2)

theorem viewer_main_returns_witness:
  "(Ok ExitFailure :: (unit, exit_code) res) \<noteq> Hang \<and> \<not> misused leaving_argv"
  using viewer_main_returns [OF leaving_ok leaving_fuel _ _ leaving_run]
  by (simp add: silent_console_def keeps_def)

end
