(* ===== verification/Pointer.thy ===== *)
theory Pointer
  imports Prelude "HOL-Library.Signed_Division"
begin

text \<open>
  \<open>spikes/win-probes/src/bin/sendinput_probe.rs\<close>: absolute mouse positions on a desktop of several
  monitors.  An \<open>i32\<close> is a word read with \<open>sint\<close>; the \<open>i64\<close> in between never overflows, so it is
  computed in \<open>int\<close>.  The operating system is a parameter.
\<close>

section \<open>Positions\<close>

type_synonym i32 = "32 word"

definition norm_a :: "i32 \<Rightarrow> i32 \<Rightarrow> i32 \<Rightarrow> i32" where
  "norm_a x v0 span =
     (if sint span \<le> 1 then 0 else word_of_int ((sint (x - v0) * 65535) sdiv (sint span - 1)))"

definition norm_b :: "i32 \<Rightarrow> i32 \<Rightarrow> i32 \<Rightarrow> i32" where
  "norm_b x v0 span =
     (if sint span \<le> 0 then 0
      else word_of_int ((sint (x - v0) * 65536 + sint span sdiv 2) sdiv sint span))"

section \<open>Monitors and targets\<close>

record rect =
  rc_left :: i32
  rc_top :: i32
  rc_right :: i32
  rc_bottom :: i32

text \<open>The callback of the enumeration: the rectangle of a monitor, if the system tells it.\<close>

definition enum_proc :: "rect option \<Rightarrow> rect list \<Rightarrow> rect list" where
  "enum_proc info out = (case info of None \<Rightarrow> out | Some rc \<Rightarrow> out @ [rc])"

definition middle :: "i32 \<Rightarrow> i32 \<Rightarrow> i32" where
  "middle a b = word_of_int (sint (a + b) sdiv 2)"

definition targets_for :: "rect \<Rightarrow> (i32 \<times> i32) list" where
  "targets_for rc =
     (let l = rc_left rc; t = rc_top rc; r = rc_right rc - 1; b = rc_bottom rc - 1;
          cx = middle (rc_left rc) (rc_right rc); cy = middle (rc_top rc) (rc_bottom rc)
      in [(l, t), (r, t), (l, b), (r, b), (cx, cy), (l + 1, t + 1), (r - 1, b - 1), (cx, t), (cx, b), (l, cy), (r, cy)])"

section \<open>The probe\<close>

datatype metric = XVirtualScreen | YVirtualScreen | CXVirtualScreen | CYVirtualScreen

record 'w pointer_os =
  po_metric :: "metric \<Rightarrow> 'w \<Rightarrow> i32 \<times> 'w"
  po_enum :: "'w \<Rightarrow> rect option list \<times> 'w"
  po_send :: "i32 \<Rightarrow> i32 \<Rightarrow> 'w \<Rightarrow> 'w"
  po_cursor :: "'w \<Rightarrow> (i32 \<times> i32) option \<times> 'w"

definition monitors :: "'w pointer_os \<Rightarrow> 'w \<Rightarrow> rect list \<times> 'w" where
  "monitors sys w = (case po_enum sys w of (infos, w1) \<Rightarrow> (fold enum_proc infos [], w1))"

definition cursor :: "'w pointer_os \<Rightarrow> 'w \<Rightarrow> (i32 \<times> i32) \<times> 'w" where
  "cursor sys w = (case po_cursor sys w of (p, w1) \<Rightarrow> (case p of None \<Rightarrow> (0, 0) | Some q \<Rightarrow> q, w1))"

datatype formula = FormulaA | FormulaB

text \<open>A row of the output.\<close>

record row =
  r_target :: "i32 \<times> i32"
  r_formula :: formula
  r_sent :: "i32 \<times> i32"
  r_got :: "i32 \<times> i32"
  r_off :: "i32 \<times> i32"

record tally =
  t_rows :: "row list"
  t_mismatch_a :: u32
  t_mismatch_b :: u32
  t_total :: u32

definition probe_move ::
  "'w pointer_os \<Rightarrow> i32 \<times> i32 \<Rightarrow> formula \<times> i32 \<times> i32 \<Rightarrow> 'w \<times> tally \<Rightarrow> 'w \<times> tally"
where
  "probe_move sys target f s =
     (case f of (name, nx, ny) \<Rightarrow>
      case cursor sys (po_send sys nx ny (fst s)) of (got, w1) \<Rightarrow>
      let dx = fst got - fst target; dy = snd got - snd target;
          t = (snd s)\<lparr>t_rows := t_rows (snd s) @
                [\<lparr>r_target = target, r_formula = name, r_sent = (nx, ny), r_got = got, r_off = (dx, dy)\<rparr>]\<rparr>
      in (w1,
          if dx \<noteq> 0 \<or> dy \<noteq> 0 then
            (case name of FormulaA \<Rightarrow> t\<lparr>t_mismatch_a := t_mismatch_a t + 1\<rparr>
                        | FormulaB \<Rightarrow> t\<lparr>t_mismatch_b := t_mismatch_b t + 1\<rparr>)
          else t))"

definition probe_target ::
  "'w pointer_os \<Rightarrow> i32 \<times> i32 \<Rightarrow> i32 \<times> i32 \<Rightarrow> i32 \<times> i32 \<Rightarrow> 'w \<times> tally \<Rightarrow> 'w \<times> tally"
where
  "probe_target sys origin extent target s =
     (case fold (probe_move sys target)
             [(FormulaA, norm_a (fst target) (fst origin) (fst extent), norm_a (snd target) (snd origin) (snd extent)),
              (FormulaB, norm_b (fst target) (fst origin) (fst extent), norm_b (snd target) (snd origin) (snd extent))] s of
        (w, t) \<Rightarrow> (w, t\<lparr>t_total := t_total t + 1\<rparr>))"

definition tally_new :: tally where
  "tally_new = \<lparr>t_rows = [], t_mismatch_a = 0, t_mismatch_b = 0, t_total = 0\<rparr>"

definition pointer_main :: "'w pointer_os \<Rightarrow> 'w \<Rightarrow> 'w \<times> tally" where
  "pointer_main sys w =
     (case po_metric sys XVirtualScreen w of (vx, w1) \<Rightarrow>
      case po_metric sys YVirtualScreen w1 of (vy, w2) \<Rightarrow>
      case po_metric sys CXVirtualScreen w2 of (vw, w3) \<Rightarrow>
      case po_metric sys CYVirtualScreen w3 of (vh, w4) \<Rightarrow>
      case monitors sys w4 of (mons, w5) \<Rightarrow>
        fold (probe_target sys (vx, vy) (vw, vh)) (concat (map targets_for mons)) (w5, tally_new))"

section \<open>Positions in range\<close>

text \<open>A pixel of a line of \<open>span\<close> pixels that begins at \<open>v0\<close>.\<close>

definition on_line :: "i32 \<Rightarrow> i32 \<Rightarrow> i32 \<Rightarrow> bool" where
  "on_line v0 span x \<longleftrightarrow> sint v0 \<le> sint x \<and> sint x < sint v0 + sint span"

lemma sint_of_int: "- (2 ^ 31) \<le> n \<Longrightarrow> n < 2 ^ 31 \<Longrightarrow> sint (word_of_int n :: i32) = n"
  by (simp add: sint_sbintrunc' signed_take_bit_int_eq_self)

lemma sint_minus:
  fixes x y :: i32
  assumes "- (2 ^ 31) \<le> sint x - sint y" "sint x - sint y < 2 ^ 31"
  shows "sint (x - y) = sint x - sint y"
  using sint_of_int [OF assms] by simp

lemma sint_plus:
  fixes x y :: i32
  assumes "- (2 ^ 31) \<le> sint x + sint y" "sint x + sint y < 2 ^ 31"
  shows "sint (x + y) = sint x + sint y"
  using sint_of_int [OF assms] by simp

lemma sint_range: "- (2 ^ 31) \<le> sint (x :: i32)" "sint (x :: i32) < 2 ^ 31"
  using sint_ge [of x] sint_lt [of x] by simp_all

lemma on_line_offset:
  assumes "on_line v0 span x"
  shows "sint (x - v0) = sint x - sint v0" "0 \<le> sint x - sint v0" "sint x - sint v0 < sint span"
  using assms sint_range [of span] by (auto simp: on_line_def intro!: sint_minus)

lemma sdiv_nonneg: "0 \<le> a \<Longrightarrow> 0 < b \<Longrightarrow> a sdiv b = a div (b :: int)"
  by (cases "a = 0") (simp_all add: signed_divide_int_def)

lemma norm_a_value:
  assumes "on_line v0 span x" "2 \<le> sint span"
  shows "sint (norm_a x v0 span) = (sint x - sint v0) * 65535 div (sint span - 1)"
    "0 \<le> (sint x - sint v0) * 65535 div (sint span - 1)" "(sint x - sint v0) * 65535 div (sint span - 1) \<le> 65535"
proof -
  note p = on_line_offset [OF assms(1)]
  have "(sint x - sint v0) * 65535 div (sint span - 1) \<le> (sint span - 1) * 65535 div (sint span - 1)"
    using p assms(2) by (intro zdiv_mono1 mult_right_mono) auto
  also have "\<dots> = 65535" using assms(2) by (intro nonzero_mult_div_cancel_left) simp
  finally show le: "(sint x - sint v0) * 65535 div (sint span - 1) \<le> 65535" .
  show ge: "0 \<le> (sint x - sint v0) * 65535 div (sint span - 1)"
    using p assms(2) by (simp add: pos_imp_zdiv_nonneg_iff)
  show "sint (norm_a x v0 span) = (sint x - sint v0) * 65535 div (sint span - 1)"
    using p assms(2) le ge by (simp add: norm_a_def sdiv_nonneg sint_of_int)
qed

lemma div_below:
  assumes "a < c * s" "0 < s"
  shows "a div s < (c :: int)"
proof (rule ccontr)
  assume "\<not> a div s < c"
  then have "c * s \<le> a div s * s" using assms(2) by (intro mult_right_mono) simp_all
  moreover have "a div s * s = a - a mod s" by (simp add: minus_mod_eq_div_mult)
  moreover have "0 \<le> a mod s" using assms(2) by simp
  ultimately show False using assms(1) by linarith
qed

lemma norm_b_value:
  assumes "on_line v0 span x" "sint span \<le> 65536"
  shows "sint (norm_b x v0 span) = ((sint x - sint v0) * 65536 + sint span div 2) div sint span"
    "0 \<le> ((sint x - sint v0) * 65536 + sint span div 2) div sint span"
    "((sint x - sint v0) * 65536 + sint span div 2) div sint span \<le> 65535"
proof -
  note p = on_line_offset [OF assms(1)]
  have s: "0 < sint span" using p by linarith
  have "(sint x - sint v0) * 65536 + sint span div 2 < 65536 * sint span"
  proof -
    have "sint span div 2 < 65536" using assms(2) by simp
    with p show ?thesis by (simp add: algebra_simps)
  qed
  then have "((sint x - sint v0) * 65536 + sint span div 2) div sint span < 65536"
    by (rule div_below [OF _ s])
  then show le: "((sint x - sint v0) * 65536 + sint span div 2) div sint span \<le> 65535" by simp
  show ge: "0 \<le> ((sint x - sint v0) * 65536 + sint span div 2) div sint span"
    using p s by (simp add: pos_imp_zdiv_nonneg_iff)
  show "sint (norm_b x v0 span) = ((sint x - sint v0) * 65536 + sint span div 2) div sint span"
    using p s le ge by (simp add: norm_b_def sdiv_nonneg sint_of_int)
qed

text \<open>A step of at least one position for each pixel.\<close>

lemma div_step: "a + c \<le> b \<Longrightarrow> 0 < c \<Longrightarrow> a div c < b div (c :: int)"
  using zdiv_mono1 [of "a + c" b c] div_add_self2 [of c a] by simp

section \<open>Targets and the summary\<close>

definition on_monitor :: "rect \<Rightarrow> i32 \<times> i32 \<Rightarrow> bool" where
  "on_monitor rc p \<longleftrightarrow>
     sint (rc_left rc) \<le> sint (fst p) \<and> sint (fst p) < sint (rc_right rc) \<and>
     sint (rc_top rc) \<le> sint (snd p) \<and> sint (snd p) < sint (rc_bottom rc)"

text \<open>A side of at least two pixels, whose ends can be added.\<close>

definition side_ok :: "i32 \<Rightarrow> i32 \<Rightarrow> bool" where
  "side_ok a b \<longleftrightarrow> sint a + 2 \<le> sint b \<and> - (2 ^ 31) \<le> sint a + sint b \<and> sint a + sint b < 2 ^ 31"

lemma side_points:
  assumes "side_ok a b"
  shows "sint (b - 1) = sint b - 1" "sint (a + 1) = sint a + 1" "sint (b - 1 - 1) = sint b - 2"
    "sint a \<le> sint (middle a b)" "sint (middle a b) < sint b"
proof -
  have one: "sint (1 :: i32) = 1" by simp
  show b: "sint (b - 1) = sint b - 1"
    using assms sint_range [of a] sint_range [of b] by (subst sint_minus) (simp_all add: side_ok_def)
  show "sint (a + 1) = sint a + 1"
    using assms sint_range [of a] sint_range [of b] by (subst sint_plus) (simp_all add: side_ok_def)
  show "sint (b - 1 - 1) = sint b - 2"
    using assms sint_range [of a] sint_range [of b] b by (subst sint_minus) (simp_all add: side_ok_def)
  have sum: "sint (a + b) = sint a + sint b" using assms by (intro sint_plus) (simp_all add: side_ok_def)
  define q where "q = (sint a + sint b) sdiv 2"
  have q: "sint a \<le> q" "q < sint b"
    using assms unfolding q_def side_ok_def by (auto simp: signed_divide_int_def sgn_if abs_if)
  then have "sint (word_of_int q :: i32) = q"
    using sint_range [of a] sint_range [of b] by (intro sint_of_int) linarith+
  with q show "sint a \<le> sint (middle a b)" "sint (middle a b) < sint b"
    by (simp_all add: middle_def sum q_def)
qed

lemma targets_on_monitor:
  assumes "side_ok (rc_left rc) (rc_right rc)" "side_ok (rc_top rc) (rc_bottom rc)" "p \<in> set (targets_for rc)"
  shows "on_monitor rc p"
  using assms(3) side_points [OF assms(1)] side_points [OF assms(2)] assms(1,2)
  by (auto simp: targets_for_def Let_def on_monitor_def side_ok_def)

definition mismatched :: "formula \<Rightarrow> row \<Rightarrow> bool" where
  "mismatched f r \<longleftrightarrow> r_formula r = f \<and> r_got r \<noteq> r_target r"

definition tally_ok :: "tally \<Rightarrow> bool" where
  "tally_ok t \<longleftrightarrow>
     t_mismatch_a t = of_nat (length (filter (mismatched FormulaA) (t_rows t))) \<and>
     t_mismatch_b t = of_nat (length (filter (mismatched FormulaB) (t_rows t)))"

text \<open>The rows of one target.\<close>

definition rows_of :: "i32 \<times> i32 \<Rightarrow> i32 \<times> i32 \<Rightarrow> i32 \<times> i32 \<Rightarrow> row list \<Rightarrow> bool" where
  "rows_of origin extent target rs \<longleftrightarrow>
     map r_target rs = [target, target] \<and> map r_formula rs = [FormulaA, FormulaB] \<and>
     map r_sent rs =
       [(norm_a (fst target) (fst origin) (fst extent), norm_a (snd target) (snd origin) (snd extent)),
        (norm_b (fst target) (fst origin) (fst extent), norm_b (snd target) (snd origin) (snd extent))]"

lemma probe_move_step:
  assumes "tally_ok t"
  shows "\<exists>w' t' r. probe_move sys target f (w, t) = (w', t') \<and> tally_ok t' \<and> t_total t' = t_total t \<and>
    t_rows t' = t_rows t @ [r] \<and> r_target r = target \<and> r_formula r = fst f \<and> r_sent r = snd f"
proof -
  obtain name nx ny where f: "f = (name, nx, ny)" by (cases f)
  obtain got w1 where c: "cursor sys (po_send sys nx ny w) = (got, w1)" by fastforce
  show ?thesis
    using assms
    by (cases name) (auto simp: probe_move_def f c Let_def tally_ok_def mismatched_def prod_eq_iff)
qed

lemma probe_target_step:
  assumes "tally_ok t"
  shows "\<exists>w' t' rs. probe_target sys origin extent target (w, t) = (w', t') \<and> tally_ok t' \<and>
    t_total t' = t_total t + 1 \<and> t_rows t' = t_rows t @ rs \<and> rows_of origin extent target rs"
proof -
  let ?a = "(FormulaA, norm_a (fst target) (fst origin) (fst extent), norm_a (snd target) (snd origin) (snd extent))"
  let ?b = "(FormulaB, norm_b (fst target) (fst origin) (fst extent), norm_b (snd target) (snd origin) (snd extent))"
  from probe_move_step [OF assms, of sys target ?a w] obtain w1 t1 r1 where
    1: "probe_move sys target ?a (w, t) = (w1, t1)" "tally_ok t1" "t_total t1 = t_total t"
      "t_rows t1 = t_rows t @ [r1]" "r_target r1 = target" "r_formula r1 = fst ?a" "r_sent r1 = snd ?a" by blast
  from probe_move_step [OF 1(2), of sys target ?b w1] obtain w2 t2 r2 where
    2: "probe_move sys target ?b (w1, t1) = (w2, t2)" "tally_ok t2" "t_total t2 = t_total t1"
      "t_rows t2 = t_rows t1 @ [r2]" "r_target r2 = target" "r_formula r2 = fst ?b" "r_sent r2 = snd ?b" by blast
  have "probe_target sys origin extent target (w, t) = (w2, t2\<lparr>t_total := t_total t2 + 1\<rparr>)"
    by (simp add: probe_target_def 1(1) 2(1))
  moreover have "rows_of origin extent target [r1, r2]" using 1 2 by (simp add: rows_of_def)
  ultimately show ?thesis
    using 1(3,4) 2(2-4) by (intro exI [of _ w2] exI [of _ "t2\<lparr>t_total := t_total t2 + 1\<rparr>"] exI [of _ "[r1, r2]"])
      (simp add: tally_ok_def)
qed

lemma probe_all:
  assumes "tally_ok t" "fold (probe_target sys origin extent) targets (w, t) = (w', t')"
  shows "tally_ok t' \<and> t_total t' = t_total t + of_nat (length targets) \<and>
    (\<exists>rss. t_rows t' = t_rows t @ concat rss \<and> list_all2 (rows_of origin extent) targets rss)"
  using assms
proof (induction targets arbitrary: w t)
  case (Cons target targets)
  from probe_target_step [OF Cons.prems(1), of sys origin extent target w] obtain w1 t1 rs where
    1: "probe_target sys origin extent target (w, t) = (w1, t1)" "tally_ok t1" "t_total t1 = t_total t + 1"
      "t_rows t1 = t_rows t @ rs" "rows_of origin extent target rs" by blast
  with Cons.IH [OF 1(2), of w1] Cons.prems(2) obtain rss where "tally_ok t'"
    "t_total t' = t_total t1 + of_nat (length targets)" "t_rows t' = t_rows t1 @ concat rss"
    "list_all2 (rows_of origin extent) targets rss" by auto
  with 1 show ?case by (auto intro!: exI [of _ "rs # rss"])
qed (auto intro: exI [of _ "[]"])

section \<open>Properties\<close>

text \<open>C40: Both formulas tell the pixels of a desktop apart: along a side of 2 to 65536 pixels, wherever the desktop
  begins, the positions lie in 0 to 65535 and grow with every pixel, formula A from 0 at the first to
  65535 at the last one; and every target the probe takes on a monitor of at least two by two pixels
  lies on that monitor.\<close>

theorem pointer_positions:
  assumes "2 \<le> sint span" "sint span \<le> 65536" "on_line v0 span x" "on_line v0 span y" "sint x < sint y"
    and "side_ok (rc_left rc) (rc_right rc)" "side_ok (rc_top rc) (rc_bottom rc)"
  shows "0 \<le> sint (norm_a x v0 span) \<and> sint (norm_a x v0 span) < sint (norm_a y v0 span) \<and>
    sint (norm_a y v0 span) \<le> 65535 \<and>
    0 \<le> sint (norm_b x v0 span) \<and> sint (norm_b x v0 span) < sint (norm_b y v0 span) \<and>
    sint (norm_b y v0 span) \<le> 65535 \<and>
    (sint x = sint v0 \<longrightarrow> norm_a x v0 span = 0) \<and>
    (sint y = sint v0 + sint span - 1 \<longrightarrow> sint (norm_a y v0 span) = 65535) \<and>
    (\<forall>p \<in> set (targets_for rc). on_monitor rc p)"
proof -
  note x = on_line_offset [OF assms(3)] and y = on_line_offset [OF assms(4)]
  note a = norm_a_value [OF assms(3,1)] norm_a_value [OF assms(4,1)]
  note b = norm_b_value [OF assms(3,2)] norm_b_value [OF assms(4,2)]
  have "(sint x - sint v0) * 65535 + (sint span - 1) \<le> (sint y - sint v0) * 65535"
    using assms(2) mult_right_mono [of "sint x - sint v0 + 1" "sint y - sint v0" 65535] assms(5) by (simp add: algebra_simps)
  then have less_a: "sint (norm_a x v0 span) < sint (norm_a y v0 span)"
    unfolding a(1,4) using assms(1) by (intro div_step) simp_all
  have "(sint x - sint v0) * 65536 + sint span div 2 + sint span \<le> (sint y - sint v0) * 65536 + sint span div 2"
    using assms(2) mult_right_mono [of "sint x - sint v0 + 1" "sint y - sint v0" 65536] assms(5) by (simp add: algebra_simps)
  then have less_b: "sint (norm_b x v0 span) < sint (norm_b y v0 span)"
    unfolding b(1,4) using assms(1) by (intro div_step) simp_all
  have "sint x = sint v0 \<longrightarrow> norm_a x v0 span = 0" using x(1) by (auto simp: norm_a_def)
  moreover have "sint y = sint v0 + sint span - 1 \<longrightarrow> sint (norm_a y v0 span) = 65535"
  proof
    assume last: "sint y = sint v0 + sint span - 1"
    have "(sint span - 1) * 65535 div (sint span - 1) = 65535"
      using assms(1) by (intro nonzero_mult_div_cancel_left) simp
    then show "sint (norm_a y v0 span) = 65535" unfolding a(4) last by simp
  qed
  ultimately show ?thesis
    using less_a less_b a b targets_on_monitor [OF assms(6,7)] by (auto simp: a b)
qed

theorem pointer_positions_witness:
  "sint (norm_a (-1920) (-1920) 3840 :: i32) < sint (norm_a 1919 (-1920) 3840) \<and>
   sint (norm_a 1919 (-1920) 3840 :: i32) = 65535 \<and>
   list_all (on_monitor \<lparr>rc_left = - 1920, rc_top = 0, rc_right = 0, rc_bottom = 1080\<rparr>)
     (targets_for \<lparr>rc_left = - 1920, rc_top = 0, rc_right = 0, rc_bottom = 1080\<rparr>)"
  using pointer_positions [of 3840 "- 1920" "- 1920" 1919 "\<lparr>rc_left = - 1920, rc_top = 0, rc_right = 0, rc_bottom = 1080\<rparr>"]
  by (simp add: on_line_def side_ok_def list_all_iff)

text \<open>The probe tries both formulas at every target of every monitor, in order, and its summary counts the moves
  that ended at another pixel.\<close>

lemma pointer_summary:
  assumes "pointer_main sys w = (w', t)"
  shows "\<exists>vx vy vw vh mons rss.
    t_rows t = concat rss \<and> list_all2 (rows_of (vx, vy) (vw, vh)) (concat (map targets_for mons)) rss \<and>
    t_total t = of_nat (11 * length mons) \<and>
    t_mismatch_a t = of_nat (length (filter (mismatched FormulaA) (t_rows t))) \<and>
    t_mismatch_b t = of_nat (length (filter (mismatched FormulaB) (t_rows t)))"
proof -
  obtain vx vy vw vh mons w5 where
    "fold (probe_target sys (vx, vy) (vw, vh)) (concat (map targets_for mons)) (w5, tally_new) = (w', t)"
    using assms by (auto simp: pointer_main_def split: prod.splits)
  from probe_all [OF _ this] have "tally_ok t" "t_total t = of_nat (length (concat (map targets_for mons)))"
    "\<exists>rss. t_rows t = concat rss \<and> list_all2 (rows_of (vx, vy) (vw, vh)) (concat (map targets_for mons)) rss"
    by (auto simp: tally_ok_def tally_new_def)
  moreover have "length (concat (map targets_for mons)) = 11 * length mons"
    by (induction mons) (simp_all add: targets_for_def Let_def)
  ultimately show ?thesis unfolding tally_ok_def by metis
qed

end
