(* ===== verification/Encoder.thy ===== *)
theory Encoder
  imports Net
begin

text \<open>
  \<open>spikes/win-probes/src/bin/mf_probe.rs\<close>: the two loops that feed an H.264 encoder of Media Foundation, with
  their frames and counters.  The transform, its samples and buffers and the clock are parameters; the
  creation of the Direct3D device and the choice of an encoder are calls of the system and nothing else.
  The history of a run lists the times of the samples it has fed, a ghost variable.
\<close>

section \<open>Frames\<close>

definition video_w :: nat where
  "video_w = 1920"

definition video_h :: nat where
  "video_h = 1080"

definition FRAMES :: u32 where
  "FRAMES = 30"

definition FRAME_100NS :: nat where
  "FRAME_100NS = 10000000 div 30"

definition encode_timeout :: duration where
  "encode_timeout = secs 5"

definition pack_u64 :: "u32 \<Rightarrow> u32 \<Rightarrow> u64" where
  "pack_u64 hi lo = or (push_bit 32 (ucast hi)) (ucast lo)"

definition frame_bytes :: nat where
  "frame_bytes = video_w * video_h * 3 div 2"

text \<open>\<open>data[from..to].fill(b)\<close>; a range outside of the slice panics.\<close>

definition fill_range :: "nat \<Rightarrow> nat \<Rightarrow> byte \<Rightarrow> bytes \<Rightarrow> bytes option" where
  "fill_range from to b data =
     (if from \<le> to \<and> to \<le> length data then Some (take from data @ replicate (to - from) b @ drop to data) else None)"

definition frame_band :: "u32 \<Rightarrow> nat" where
  "frame_band n = unat (n * 32 mod of_nat video_h)"

definition software_frame :: "u32 \<Rightarrow> bytes option" where
  "software_frame n =
     fill_range (frame_band n * video_w) ((frame_band n + 16) * video_w) 235 (replicate frame_bytes 128)"

section \<open>The transform\<close>

datatype mft_output = GotOutput "(ustr + u32) option" \<comment> \<open>a sample, if any, with its length\<close> | NeedMoreInput | OutputFailed ustr

datatype mft_event = EvNeedInput | EvHaveOutput | EvElse

record 'w mft =
  mf_new_sample :: "nat \<Rightarrow> 'w \<Rightarrow> (ustr + unit) \<times> 'w"
  mf_output :: "'w \<Rightarrow> mft_output \<times> 'w"
  mf_input :: "bytes option \<Rightarrow> nat \<Rightarrow> nat \<Rightarrow> 'w \<Rightarrow> (ustr + unit) \<times> 'w"
    \<comment> \<open>a sample of memory or of the texture, its time and duration, and \<open>ProcessInput\<close>\<close>
  mf_event :: "'w \<Rightarrow> (ustr + (ustr + mft_event)) \<times> 'w" \<comment> \<open>no event yet, or its type\<close>

record counters =
  frames_in :: u32
  frames_out :: u32
  bytes_out :: u64
  first_output :: "duration option"
  started :: instant

type_synonym 'w encode_run = "counters \<times> nat list \<times> 'w"

definition on_w :: "('w, 'x, 'a) prog \<Rightarrow> ('w encode_run, 'x, 'a) prog" where
  "on_w m = on_snd (on_snd m)"

definition count_with :: "(counters \<Rightarrow> counters) \<Rightarrow> ('w encode_run, 'x, unit) prog" where
  "count_with f = modify (\<lambda>(c, r). (f c, r))"

text \<open>\<open>pull_output\<close>: whether the transform gave an output; its own sample is made first if it does not provide one.\<close>

definition pull_output ::
  "'w os \<Rightarrow> 'w mft \<Rightarrow> bool \<Rightarrow> nat \<Rightarrow> ('w encode_run, ustr, bool) prog"
where
  "pull_output sys t provides out_size =
     bnd (if provides then ret () else on_w (ext (mf_new_sample t (max out_size (video_w * video_h))))) (\<lambda>_.
     bnd (on_w (ext_total (mf_output t))) (\<lambda>r.
     case r of
       NeedMoreInput \<Rightarrow> ret False
     | OutputFailed e \<Rightarrow> fail e
     | GotOutput sample \<Rightarrow>
         bnd (case sample of
                None \<Rightarrow> ret ()
              | Some len \<Rightarrow>
                  bnd (count_with (\<lambda>c. c\<lparr>frames_out := frames_out c + 1\<rparr>)) (\<lambda>_.
                  bnd (lift_sum len) (\<lambda>n.
                  bnd (count_with (\<lambda>c. c\<lparr>bytes_out := bytes_out c + ucast n\<rparr>)) (\<lambda>_.
                  bnd (on_w (ext_total (os_now sys))) (\<lambda>now.
                  count_with (\<lambda>c. c\<lparr>first_output :=
                    (case first_output c of None \<Rightarrow> Some (now - started c) | Some d \<Rightarrow> Some d)\<rparr>)))))) (\<lambda>_.
         ret True)))"

text \<open>A sample goes in with the time of its frame; the ghost list keeps that time.\<close>

definition feed :: "'w mft \<Rightarrow> bytes option \<Rightarrow> ('w encode_run, ustr, unit) prog" where
  "feed t data =
     bnd (gets (\<lambda>(c, r). unat (frames_in c) * FRAME_100NS)) (\<lambda>at.
     bnd (on_w (ext (mf_input t data at FRAME_100NS))) (\<lambda>_.
     modify (\<lambda>(c, fed, w). (c\<lparr>frames_in := frames_in c + 1\<rparr>, fed @ [at], w))))"

primrec pull_all ::
  "'w os \<Rightarrow> 'w mft \<Rightarrow> bool \<Rightarrow> nat \<Rightarrow> nat \<Rightarrow> ('w encode_run, ustr, unit) prog"
where
  "pull_all sys t provides out_size 0 = hang"
| "pull_all sys t provides out_size (Suc n) =
     bnd (pull_output sys t provides out_size) (\<lambda>more. if more then pull_all sys t provides out_size n else ret ())"

section \<open>The loops\<close>

definition more_to_do :: "'w os \<Rightarrow> (counters \<Rightarrow> bool) \<Rightarrow> ('w encode_run, 'x, bool) prog" where
  "more_to_do sys wanted =
     bnd (gets fst) (\<lambda>c.
     if wanted c then bnd (on_w (ext_total (os_now sys))) (\<lambda>now. ret (now - started c < encode_timeout)) else ret False)"

primrec software_loop ::
  "'w os \<Rightarrow> 'w mft \<Rightarrow> bool \<Rightarrow> nat \<Rightarrow> nat \<Rightarrow> nat \<Rightarrow> ('w encode_run, ustr, unit) prog"
where
  "software_loop sys t provides out_size fl 0 = hang"
| "software_loop sys t provides out_size fl (Suc n) =
     bnd (more_to_do sys (\<lambda>c. frames_in c < FRAMES)) (\<lambda>go.
     if \<not> go then ret ()
     else
       bnd (gets (\<lambda>(c, r). software_frame (frames_in c))) (\<lambda>frame.
       case frame of
         None \<Rightarrow> panic
       | Some data \<Rightarrow>
           bnd (feed t (Some data)) (\<lambda>_.
           bnd (pull_all sys t provides out_size fl) (\<lambda>_.
           software_loop sys t provides out_size fl n))))"

primrec hardware_loop ::
  "'w os \<Rightarrow> 'w mft \<Rightarrow> bool \<Rightarrow> nat \<Rightarrow> nat \<Rightarrow> ('w encode_run, ustr, unit) prog"
where
  "hardware_loop sys t provides out_size 0 = hang"
| "hardware_loop sys t provides out_size (Suc n) =
     bnd (more_to_do sys (\<lambda>c. frames_out c < FRAMES)) (\<lambda>go.
     if \<not> go then ret ()
     else
       bnd (on_w (ext_total (mf_event t))) (\<lambda>ev.
       case ev of
         Inl _ \<Rightarrow>
           bnd (on_w (ext_total (os_sleep sys (millis 1)))) (\<lambda>_. hardware_loop sys t provides out_size n)
       | Inr kind \<Rightarrow>
           bnd (lift_sum kind) (\<lambda>kind.
           bnd (gets fst) (\<lambda>c.
           bnd (if kind = EvNeedInput \<and> frames_in c < FRAMES then feed t None
                else if kind = EvHaveOutput then bnd (pull_output sys t provides out_size) (\<lambda>_. ret ())
                else ret ()) (\<lambda>_.
           hardware_loop sys t provides out_size n)))))"

section \<open>What they feed\<close>

text \<open>The band of every frame of the loop lies within the picture, so no frame panics.\<close>

lemma software_frame_ok:
  assumes "n < FRAMES"
  shows "\<exists>data. software_frame n = Some data \<and> length data = frame_bytes \<and>
    (\<forall>i < frame_bytes. data ! i = (if 32 * unat n * video_w \<le> i \<and> i < (32 * unat n + 16) * video_w then 235 else 128))"
proof -
  have n: "unat n < 30" using assms by (simp add: FRAMES_def word_less_nat_alt)
  have prod: "unat (n * 32) = unat n * 32" using n by (subst unat_mult_lem [THEN iffD1]) simp_all
  have band: "frame_band n = 32 * unat n"
    using n prod by (simp add: frame_band_def unat_mod video_h_def)
  have "(32 * unat n + 16) * video_w \<le> frame_bytes"
    using n by (simp add: video_w_def frame_bytes_def video_h_def)
  then show ?thesis
    by (auto simp: software_frame_def fill_range_def band video_w_def nth_append)
qed

text \<open>The samples fed: one for each frame counted, each at its time, and never more than thirty.\<close>

definition fed_ok :: "'w encode_run \<Rightarrow> bool" where
  "fed_ok s \<longleftrightarrow>
     (case s of (c, fed, w) \<Rightarrow>
        frames_in c \<le> FRAMES \<and> fed = map (\<lambda>i. i * FRAME_100NS) [0..<unat (frames_in c)])"

lemma on_w_fed: "preserves fed_ok (on_w m)"
  by (rule preservesI) (auto simp: on_w_def wp_on_snd fed_ok_def intro: wp_any)

lemma count_fed: "(\<And>c. frames_in (f c) = frames_in c) \<Longrightarrow> preserves fed_ok (count_with f)"
  by (rule preservesI) (auto simp: count_with_def wp_modify fed_ok_def)

lemma pull_fed: "preserves fed_ok (pull_output sys t provides out_size)"
  unfolding pull_output_def
  by (auto intro!: preserves_intros on_w_fed count_fed split: mft_output.splits option.splits)

lemma pull_all_fed: "preserves fed_ok (pull_all sys t provides out_size n)"
  by (induction n) (auto intro!: preserves_intros pull_fed)

lemma feed_wp:
  assumes "fed_ok s" "frames_in (fst s) < FRAMES"
  shows "wp (feed t data) (\<lambda>_ s'. fed_ok s') s"
proof -
  have "unat (frames_in (fst s) + 1) = Suc (unat (frames_in (fst s)))"
    using assms(2) by (simp add: FRAMES_def word_less_nat_alt unat_add_lem [THEN iffD1])
  with assms show ?thesis
    by (auto simp: feed_def wp_bnd wp_gets on_w_def wp_on_snd wp_ext wp_modify fed_ok_def word_le_nat_alt
        word_less_nat_alt split: prod.splits sum.splits)
qed

lemma more_to_do_wp:
  assumes "fed_ok s"
  shows "wp (more_to_do sys wanted) (\<lambda>r s'. fed_ok s' \<and> fst s' = fst s \<and> (r = Ok True \<longrightarrow> wanted (fst s))) s"
  using assms
  by (auto simp: more_to_do_def wp_bnd wp_gets wp_ret on_w_def wp_on_snd wp_ext_total fed_ok_def split: prod.splits)

lemma software_fed: "preserves fed_ok (software_loop sys t provides out_size fl n)"
proof (induction n)
  case (Suc n)
  show ?case
  proof (rule preservesI)
    fix s :: "'a encode_run"
    assume ok: "fed_ok s"
    have rest: "wp (bnd (pull_all sys t provides out_size fl) (\<lambda>_. software_loop sys t provides out_size fl n)) (\<lambda>_. fed_ok) u"
      if "fed_ok u" for u
      by (rule preserves_wp [where I = fed_ok, OF _ that]) (intro preserves_intros pull_all_fed Suc)
    have frame: "wp (case frame of None \<Rightarrow> panic | Some data \<Rightarrow>
           bnd (feed t (Some data)) (\<lambda>_.
           bnd (pull_all sys t provides out_size fl) (\<lambda>_.
           software_loop sys t provides out_size fl n))) (\<lambda>_. fed_ok) u"
      if "fed_ok u" "frames_in (fst u) < FRAMES" for frame u
    proof (cases frame)
      case (Some data)
      show ?thesis
        unfolding Some option.case wp_bnd [of "feed _ _"]
        by (rule wp_mono [OF feed_wp [OF that]]) (auto simp: after_def intro!: rest split: res.splits)
    qed (simp add: wp_panic that(1))
    show "wp (software_loop sys t provides out_size fl (Suc n)) (\<lambda>_. fed_ok) s"
      unfolding software_loop.simps wp_bnd [of "more_to_do _ _"]
      by (rule wp_mono [OF more_to_do_wp [OF ok]])
        (auto simp: after_def wp_ret wp_bnd [of "gets _"] wp_gets intro!: frame split: res.splits)
  qed
qed (simp add: preserves_intros)

lemma hardware_fed: "preserves fed_ok (hardware_loop sys t provides out_size n)"
proof (induction n)
  case (Suc n)
  have feed: "preserves fed_ok (bnd (gets fst) (\<lambda>c.
       bnd (if kind = EvNeedInput \<and> frames_in c < FRAMES then feed t None
            else if kind = EvHaveOutput then bnd (pull_output sys t provides out_size) (\<lambda>_. ret ())
            else ret ()) (\<lambda>_. hardware_loop sys t provides out_size n)))" for kind
  proof (rule preservesI)
    fix u :: "'a encode_run"
    assume ok: "fed_ok u"
    have "wp (if kind = EvNeedInput \<and> frames_in (fst u) < FRAMES then feed t None
            else if kind = EvHaveOutput then bnd (pull_output sys t provides out_size) (\<lambda>_. ret ())
            else ret ()) (\<lambda>_. fed_ok) u"
      using preserves_wp [OF preserves_bnd [OF pull_fed preserves_pure(1)] ok]
      by (auto intro: feed_wp [OF ok] simp: wp_ret ok)
    then show "wp (bnd (gets fst) (\<lambda>c.
       bnd (if kind = EvNeedInput \<and> frames_in c < FRAMES then feed t None
            else if kind = EvHaveOutput then bnd (pull_output sys t provides out_size) (\<lambda>_. ret ())
            else ret ()) (\<lambda>_. hardware_loop sys t provides out_size n))) (\<lambda>_. fed_ok) u"
      unfolding wp_bnd [of "gets fst"] wp_gets after_simps wp_bnd [of "If _ _ _"]
      by (rule wp_mono) (auto simp: after_def intro: preserves_wp [OF Suc] split: res.splits)
  qed
  have events: "preserves fed_ok (bnd (on_w (ext_total (mf_event t))) (\<lambda>ev.
       case ev of
         Inl _ \<Rightarrow> bnd (on_w (ext_total (os_sleep sys (millis 1)))) (\<lambda>_. hardware_loop sys t provides out_size n)
       | Inr kind \<Rightarrow> bnd (lift_sum kind) (\<lambda>kind.
           bnd (gets fst) (\<lambda>c.
           bnd (if kind = EvNeedInput \<and> frames_in c < FRAMES then feed t None
                else if kind = EvHaveOutput then bnd (pull_output sys t provides out_size) (\<lambda>_. ret ())
                else ret ()) (\<lambda>_. hardware_loop sys t provides out_size n)))))"
    by (intro preserves_bnd on_w_fed) (auto intro!: preserves_bnd on_w_fed Suc feed preserves_pure split: sum.splits)
  show ?case
    unfolding hardware_loop.simps
    by (rule preserves_bnd)
      (auto intro!: preservesI [of _ "more_to_do _ _"] intro: wp_mono [OF more_to_do_wp] events preserves_pure(1)
        simp del: One_nat_def)
qed (simp add: preserves_intros)

text \<open>However the encoder answers, either loop has fed the frames in order, each at its own time, and no
  more than thirty of them.\<close>

lemma encoder_fed_in_order:
  assumes "software_loop sys t provides out_size fl n (c, [], w) = (r, c', fed, w') \<or>
      hardware_loop sys t provides out_size n (c, [], w) = (r, c', fed, w')"
    and "frames_in c = 0"
  shows "fed = map (\<lambda>i. i * FRAME_100NS) [0..<unat (frames_in c')] \<and> length fed \<le> 30"
proof -
  have "fed_ok (c, [], w)" using assms(2) by (simp add: fed_ok_def)
  with assms(1) have "fed_ok (c', fed, w')"
    using preservesD [OF software_fed] preservesD [OF hardware_fed] by blast
  then show ?thesis by (auto simp: fed_ok_def FRAMES_def word_le_nat_alt)
qed

end
