(* ===== verification/Frames.thy ===== *)
theory Frames
  imports Net
begin

text \<open>
  \<open>spikes/egui-probe/src/main.rs\<close>: the synthetic video of the viewer spike.  Modelled are the picture, its
  pacing, and the windows of samples and log lines.  The toolkit (textures, fonts, widgets, events) and the
  floating-point milliseconds are parameters.
\<close>

section \<open>Windows of the last entries\<close>

definition SAMPLES :: nat where
  "SAMPLES = 240"

definition stat_push :: "'a \<Rightarrow> 'a list \<Rightarrow> 'a list" where
  "stat_push ms st = (if length st = SAMPLES then tl st else st) @ [ms]"

definition push_log :: "nat \<Rightarrow> 'a \<Rightarrow> 'a list \<Rightarrow> 'a list" where
  "push_log cap line log = (if length log = cap then tl log else log) @ [line]"

lemma push_log_keeps_last:
  assumes "0 < cap"
  shows "fold (push_log cap) lines [] = drop (length lines - cap) lines"
proof (induction lines rule: rev_induct)
  case (snoc l lines)
  have "push_log cap l (drop (length lines - cap) lines) = drop (length (lines @ [l]) - cap) (lines @ [l])"
    using assms by (cases "cap \<le> length lines") (auto simp: push_log_def drop_Suc tl_drop Suc_diff_le)
  with snoc show ?case by simp
qed simp

lemma stat_keeps_last:
  fixes samples :: "'a list"
  shows "fold stat_push samples [] = drop (length samples - SAMPLES) samples"
proof -
  have "(stat_push :: 'a \<Rightarrow> 'a list \<Rightarrow> 'a list) = push_log SAMPLES" by (intro ext) (simp add: stat_push_def push_log_def)
  then show ?thesis using push_log_keeps_last [of SAMPLES samples] by (simp add: SAMPLES_def)
qed

section \<open>The picture\<close>

definition frame_w :: nat where
  "frame_w = 1920"

definition frame_h :: nat where
  "frame_h = 1080"

text \<open>\<open>chunks_exact_mut\<close> with \<open>enumerate\<close>: the chunks of \<open>k\<close> elements, numbered; what is left over stays.\<close>

function chunks_exact_mut :: "nat \<Rightarrow> (nat \<Rightarrow> 'a list \<Rightarrow> 'a list) \<Rightarrow> nat \<Rightarrow> 'a list \<Rightarrow> 'a list" where
  "chunks_exact_mut k f i xs =
     (if k = 0 \<or> length xs < k then xs
      else f i (take k xs) @ chunks_exact_mut k f (Suc i) (drop k xs))"
  by pat_completeness auto
termination by (relation "measure (\<lambda>(k, f, i, xs). length xs)") auto

declare chunks_exact_mut.simps [simp del]

definition frame_pixel :: "u64 \<Rightarrow> nat \<Rightarrow> nat \<Rightarrow> bytes" where
  "frame_pixel n y x =
     (if y < 40 \<and> x \<le> unat n mod frame_w then [255, 255, 255, 255]
      else [ucast (of_nat x + 2 * n), ucast (of_nat y + n), ucast (n * 3), 255])"

definition generate_frame :: "u64 \<Rightarrow> bytes \<Rightarrow> bytes" where
  "generate_frame n rgba =
     chunks_exact_mut (frame_w * 4) (\<lambda>y. chunks_exact_mut 4 (\<lambda>x px. frame_pixel n y x) 0) 0 rgba"

lemma chunks_length:
  assumes "\<And>i c. length c = k \<Longrightarrow> length (f i c) = k"
  shows "length (chunks_exact_mut k f i xs) = length xs"
  using assms
proof (induction k f i xs rule: chunks_exact_mut.induct)
  case (1 k f i xs)
  then show ?case by (subst chunks_exact_mut.simps) (auto simp: min_def)
qed

lemma chunks_nth:
  assumes "\<And>i c. length c = k \<Longrightarrow> length (f i c) = k" "j < k" "Suc m * k \<le> length xs"
  shows "chunks_exact_mut k f i xs ! (m * k + j) = f (i + m) (take k (drop (m * k) xs)) ! j"
  using assms(3)
proof (induction m arbitrary: i xs)
  case 0
  with assms(2) have "length (f i (take k xs)) = k" by (intro assms(1)) simp
  with 0 assms(2) show ?case by (subst chunks_exact_mut.simps) (simp add: nth_append)
next
  case (Suc m)
  have first: "length (f i (take k xs)) = k" using Suc.prems by (intro assms(1)) simp
  have "chunks_exact_mut k f i xs ! (Suc m * k + j) = chunks_exact_mut k f (Suc i) (drop k xs) ! (m * k + j)"
    using Suc.prems assms(2) first by (subst chunks_exact_mut.simps) (simp add: nth_append)
  also have "\<dots> = f (Suc i + m) (take k (drop (m * k) (drop k xs))) ! j"
    using Suc.prems by (intro Suc.IH) simp
  finally show ?case by (simp add: add.commute)
qed

lemma length_pixel: "length (frame_pixel n y x) = 4"
  by (simp add: frame_pixel_def)

text \<open>Whatever was in the buffer, the picture is that of the frame number, pixel by pixel.\<close>

lemma generate_pixel:
  assumes "length rgba = frame_w * frame_h * 4" "y < frame_h" "x < frame_w" "c < 4"
  shows "generate_frame n rgba ! ((y * frame_w + x) * 4 + c) = frame_pixel n y x ! c"
    "length (generate_frame n rgba) = length rgba"
proof -
  let ?row = "\<lambda>y. chunks_exact_mut 4 (\<lambda>x px. frame_pixel n y x) 0"
  have row: "length (?row i r) = length r" for i r
    by (rule chunks_length) (simp add: length_pixel)
  show "length (generate_frame n rgba) = length rgba"
    unfolding generate_frame_def by (rule chunks_length) (simp add: row)
  have last: "Suc y * (frame_w * 4) \<le> length rgba"
    using assms(1,2) mult_le_mono1 [of "Suc y" frame_h "frame_w * 4"] by (simp add: ac_simps)
  have "generate_frame n rgba ! (y * (frame_w * 4) + (x * 4 + c)) = ?row y (take (frame_w * 4) (drop (y * (frame_w * 4)) rgba)) ! (x * 4 + c)"
    unfolding generate_frame_def using assms(3,4) last
    by (subst chunks_nth) (simp_all add: row)
  also have "\<dots> = frame_pixel n y x ! c"
    using assms(3,4) last by (subst chunks_nth) (simp_all add: length_pixel)
  finally show "generate_frame n rgba ! ((y * frame_w + x) * 4 + c) = frame_pixel n y x ! c"
    by (simp add: algebra_simps)
qed

section \<open>The next frame\<close>

record 'f frame_probe =
  fp_rgba :: bytes
  fp_frame_no :: u64
  fp_pace_30fps :: bool
  fp_use_set_partial :: bool
  fp_next_frame_at :: instant
  fp_gen_ms :: "'f list"
  fp_convert_ms :: "'f list"
  fp_upload_ms :: "'f list"

record ('w, 'img, 'f) frame_libs =
  fl_now :: "'w \<Rightarrow> instant \<times> 'w"
  fl_image :: "nat \<times> nat \<Rightarrow> bytes \<Rightarrow> 'img" \<comment> \<open>\<open>ColorImage::from_rgba_unmultiplied\<close>\<close>
  fl_set_partial :: "'img \<Rightarrow> 'w \<Rightarrow> 'w"
  fl_set :: "'img \<Rightarrow> 'w \<Rightarrow> 'w"
  fl_ms :: "duration \<Rightarrow> 'f"

definition produce_frame :: "('w, 'img, 'f) frame_libs \<Rightarrow> 'f frame_probe \<times> 'w \<Rightarrow> 'f frame_probe \<times> 'w" where
  "produce_frame L s =
     (case s of (p, w) \<Rightarrow>
      case fl_now L w of (t0, w0) \<Rightarrow>
      let p1 = p\<lparr>fp_rgba := generate_frame (fp_frame_no p) (fp_rgba p)\<rparr> in
      case fl_now L w0 of (t1, w1) \<Rightarrow>
      let image = fl_image L (frame_w, frame_h) (fp_rgba p1) in
      case fl_now L w1 of (t2, w2) \<Rightarrow>
      let w3 = (if fp_use_set_partial p then fl_set_partial L image w2 else fl_set L image w2) in
      case fl_now L w3 of (t3, w4) \<Rightarrow>
        (p1\<lparr>fp_gen_ms := stat_push (fl_ms L (t1 - t0)) (fp_gen_ms p),
            fp_convert_ms := stat_push (fl_ms L (t2 - t1)) (fp_convert_ms p),
            fp_upload_ms := stat_push (fl_ms L (t3 - t2)) (fp_upload_ms p),
            fp_frame_no := fp_frame_no p + 1\<rparr>, w4))"

text \<open>\<open>Duration::from_secs_f64(1.0 / 30.0)\<close>, to the nearest nanosecond.\<close>

definition FRAME_TIME :: duration where
  "FRAME_TIME = 33333333"

definition next_frame_time :: "instant \<Rightarrow> instant \<Rightarrow> instant" where
  "next_frame_time t next =
     (if next + millis 100 < t then t + FRAME_TIME else next + FRAME_TIME)"

text \<open>The part of \<open>ui\<close> that decides on a frame; the delay asked for is \<open>None\<close> for the next repaint.\<close>

definition pace_frame ::
  "('w, 'img, 'f) frame_libs \<Rightarrow> 'f frame_probe \<times> 'w \<Rightarrow> duration option \<times> 'f frame_probe \<times> 'w"
where
  "pace_frame L s =
     (case fl_now L (snd s) of (t, w1) \<Rightarrow>
      case (if \<not> fp_pace_30fps (fst s) \<or> fp_next_frame_at (fst s) \<le> t then
              (case produce_frame L (fst s, w1) of (p, w2) \<Rightarrow>
                 (p\<lparr>fp_next_frame_at := next_frame_time t (fp_next_frame_at p)\<rparr>, w2))
            else (fst s, w1)) of (p, w2) \<Rightarrow>
        if fp_pace_30fps p then (case fl_now L w2 of (t2, w3) \<Rightarrow> (Some (fp_next_frame_at p - t2), p, w3))
        else (None, p, w2))"

section \<open>The rate\<close>

lemma produce_frame_keeps:
  assumes "produce_frame L (p, w) = (p', w')"
  shows "fp_frame_no p' = fp_frame_no p + 1" "fp_next_frame_at p' = fp_next_frame_at p"
    "fp_pace_30fps p' = fp_pace_30fps p"
  using assms by (auto simp: produce_frame_def Let_def split: prod.splits)

text \<open>A paced frame comes only when it is due, and the next is due at least a frame time after it was; a
  player that has fallen behind by more than a tenth of a second starts afresh.\<close>

lemma pace_frame_due:
  assumes "pace_frame L (p, w) = (d, p', w')" "fp_pace_30fps p" "fl_now L w = (t, w1)"
  shows "(if fp_next_frame_at p \<le> t
    then fp_frame_no p' = fp_frame_no p + 1 \<and> fp_next_frame_at p + FRAME_TIME \<le> fp_next_frame_at p' \<and>
      fp_next_frame_at p' \<le> t + FRAME_TIME \<and> t < fp_next_frame_at p' + millis 100
    else p' = p) \<and> fp_pace_30fps p'"
  using assms
  by (auto simp: pace_frame_def next_frame_time_def FRAME_TIME_def millis_def
      split: prod.splits if_splits dest: produce_frame_keeps)

text \<open>Calls of \<open>ui\<close> in a row, with the times of the frames they have produced; the world goes on in between.\<close>

inductive ui_calls :: "('w, 'img, 'f) frame_libs \<Rightarrow> 'f frame_probe \<Rightarrow> instant list \<Rightarrow> 'f frame_probe \<Rightarrow> bool"
  for L p where
  start: "ui_calls L p [] p"
| next_call: "ui_calls L p ts q \<Longrightarrow> pace_frame L (q, w) = (d, q', w') \<Longrightarrow> fl_now L w = (t, w1) \<Longrightarrow>
     ui_calls L p (if fp_next_frame_at q \<le> t then ts @ [t] else ts) q'"

text \<open>Never more than thirty frames a second: the frame after \<open>k\<close> paced ones is due at least \<open>k\<close> frame times
  after the first one was, and none comes before it is due.\<close>

lemma paced_rate:
  assumes "ui_calls L p ts q" "fp_pace_30fps p"
  shows "fp_pace_30fps q \<and> fp_next_frame_at p + length ts * FRAME_TIME \<le> fp_next_frame_at q \<and>
    (\<forall>k < length ts. fp_next_frame_at p + k * FRAME_TIME \<le> ts ! k)"
  using assms
proof (induction rule: ui_calls.induct)
  case (next_call ts q w d q' w' t w1)
  with pace_frame_due [OF next_call.hyps(2) _ next_call.hyps(3)] show ?case
    by (auto simp: nth_append less_Suc_eq split: if_splits)
qed simp

end
