(* ===== verification/Pair.thy ===== *)
theory Pair
  imports Peer
begin

text \<open>
  \<open>spikes/ipv6-pair/src/main.rs\<close>: two str0m peers in one process that talk over real UDP sockets.  The engine
  and the operating system are those of \<open>Peer\<close> with the calls the product does not use; every \<open>expect\<close> and
  \<open>unwrap\<close> is a \<open>panic\<close>.
\<close>

section \<open>Peers\<close>

record ('w, 'rtc, 'p) pair_calls =
  pl_read_timeout :: "nat \<Rightarrow> duration \<Rightarrow> 'w \<Rightarrow> (io_error + unit) \<times> 'w"
  pl_add_channel :: "ustr \<Rightarrow> 'rtc \<Rightarrow> nat \<times> 'rtc"
  pl_apply :: "'rtc \<Rightarrow> (ustr \<times> 'p) option \<times> 'rtc"

record 'rtc udp_peer =
  up_rtc :: 'rtc
  up_sock :: nat
  up_addr :: sock_addr
  up_got :: "bytes list"
  up_open :: "nat option"

text \<open>\<open>expect\<close> on the result of a call.\<close>

definition must :: "('s, 'y, 'a) prog \<Rightarrow> ('s, 'x, 'a) prog" where
  "must m = handle m ret (\<lambda>_. panic)"

definition engine :: "('rtc \<Rightarrow> (ustr + 'a) \<times> 'rtc) \<Rightarrow> ('rtc udp_peer \<times> 'w, ustr, 'a) prog" where
  "engine op s =
     (case op (up_rtc (fst s)) of
        (Inl e, r) \<Rightarrow> (Err e, (fst s)\<lparr>up_rtc := r\<rparr>, snd s)
      | (Inr a, r) \<Rightarrow> (Ok a, (fst s)\<lparr>up_rtc := r\<rparr>, snd s))"

definition udp_peer_new ::
  "('w, 'rtc, 'p) pair_calls \<Rightarrow> 'w os \<Rightarrow> ('rtc, 'p) rtc_lib \<Rightarrow> ip_addr \<Rightarrow> ('w, 'x, 'rtc udp_peer) prog"
where
  "udp_peer_new pl sys lib ip =
     bnd (must (ext (udp_bind sys (TAddr (ip, 0))))) (\<lambda>sock.
     bnd (must (ext (pl_read_timeout pl sock (millis 5)))) (\<lambda>_.
     bnd (must (ext (udp_local_addr sys sock))) (\<lambda>addr.
     bnd (ext_total (os_now sys)) (\<lambda>t.
     bnd (must (lift_sum (rtc_candidate lib addr))) (\<lambda>candidate.
     ret \<lparr>up_rtc = rtc_add_candidate lib candidate (rtc_build lib t), up_sock = sock, up_addr = addr,
          up_got = [], up_open = None\<rparr>)))))"

fun peer_noted :: "rtc_event \<Rightarrow> 'rtc udp_peer \<Rightarrow> 'rtc udp_peer" where
  "peer_noted (EvChannelOpen i label) p = p\<lparr>up_open := Some i\<rparr>"
| "peer_noted (EvChannelData i d) p = p\<lparr>up_got := up_got p @ [d]\<rparr>"
| "peer_noted ev p = p"

text \<open>\<open>Peer::drive\<close>, up to the next time-out.\<close>

primrec peer_drive ::
  "'w os \<Rightarrow> ('rtc, 'p) rtc_lib \<Rightarrow> nat \<Rightarrow> ('rtc udp_peer \<times> 'w, 'x, instant) prog"
where
  "peer_drive sys lib 0 = hang"
| "peer_drive sys lib (Suc n) =
     bnd (must (engine (rtc_poll_output lib))) (\<lambda>output.
     case output of
       OTimeout t \<Rightarrow> ret t
     | OTransmit src dest contents \<Rightarrow>
         bnd (gets (\<lambda>s. up_sock (fst s))) (\<lambda>sock.
         bnd (must (on_snd (ext (udp_send sys sock contents dest)))) (\<lambda>_. peer_drive sys lib n))
     | OEvent ev \<Rightarrow>
         bnd (modify (\<lambda>(p, w). (peer_noted ev p, w))) (\<lambda>_. peer_drive sys lib n))"

text \<open>\<open>Peer::pump\<close>: one datagram at most, then the clock.\<close>

definition peer_pump ::
  "'w os \<Rightarrow> ('rtc, 'p) rtc_lib \<Rightarrow> ('rtc udp_peer \<times> 'w, 'x, unit) prog"
where
  "peer_pump sys lib =
     bnd (gets (\<lambda>s. up_sock (fst s))) (\<lambda>sock.
     bnd (handle (on_snd (ext (udp_recv sys sock 2000))) (\<lambda>got. ret (Some got)) (\<lambda>_. ret None)) (\<lambda>got.
     bnd (case got of
            None \<Rightarrow> ret ()
          | Some (buf, source) \<Rightarrow>
              bnd (on_snd (ext_total (os_now sys))) (\<lambda>t.
              bnd (gets (\<lambda>s. up_addr (fst s))) (\<lambda>addr.
              if \<not> rtc_datagram_ok lib buf then panic
              else must (engine (rtc_receive lib t source addr buf))))) (\<lambda>_.
     bnd (on_snd (ext_total (os_now sys))) (\<lambda>t. must (engine (rtc_timeout lib t))))))"

section \<open>The exchange\<close>

type_synonym ('rtc, 'w) pair_run = "'rtc udp_peer \<times> 'rtc udp_peer \<times> 'w"

definition on_l :: "('rtc udp_peer \<times> 'w, 'x, 'a) prog \<Rightarrow> (('rtc, 'w) pair_run, 'x, 'a) prog" where
  "on_l m s = (case m (fst s, snd (snd s)) of (r, p, w) \<Rightarrow> (r, p, fst (snd s), w))"

abbreviation on_r :: "('rtc udp_peer \<times> 'w, 'x, 'a) prog \<Rightarrow> (('rtc, 'w) pair_run, 'x, 'a) prog" where
  "on_r \<equiv> on_snd"

definition ping_text :: bytes where
  "ping_text = as_bytes (lit ''ping'')"

definition pong_text :: bytes where
  "pong_text = as_bytes (lit ''pong'')"

definition pong_sent :: bytes where
  "pong_sent = as_bytes (lit ''pong-sent'')"

definition peer_write :: "('rtc, 'p) rtc_lib \<Rightarrow> nat \<Rightarrow> bytes \<Rightarrow> ('rtc udp_peer \<times> 'w, 'x, unit) prog" where
  "peer_write lib i d =
     bnd (gets (\<lambda>s. rtc_has_channel lib i (up_rtc (fst s)))) (\<lambda>has.
     if has then bnd (must (engine (rtc_write lib i d))) (\<lambda>_. ret ()) else panic)"

definition negotiate :: "('w, 'rtc, 'p) pair_calls \<Rightarrow> ('rtc, 'p) rtc_lib \<Rightarrow> (('rtc, 'w) pair_run, 'x, nat) prog" where
  "negotiate pl lib =
     bnd (must (on_l (engine (\<lambda>r. case pl_add_channel pl (lit ''ping'') r of (i, r1) \<Rightarrow> (Inr i, r1))))) (\<lambda>cid.
     bnd (must (on_l (engine (\<lambda>r. case pl_apply pl r of (v, r1) \<Rightarrow>
            (case v of None \<Rightarrow> Inl [] | Some x \<Rightarrow> Inr x, r1))))) (\<lambda>(sdp, pending).
     bnd (must (lift_sum (sdp_offer lib sdp))) (\<lambda>offer.
     bnd (must (on_r (engine (rtc_accept_offer lib offer)))) (\<lambda>text.
     bnd (must (lift_sum (sdp_answer lib text))) (\<lambda>answer.
     bnd (must (on_l (engine (rtc_accept_answer lib pending answer)))) (\<lambda>_. ret cid))))))"

text \<open>What a round does after the sockets: the ping of the left peer, once, and the pong of the right one.\<close>

definition send_ping ::
  "('rtc, 'p) rtc_lib \<Rightarrow> nat \<Rightarrow> bool \<Rightarrow> ('rtc udp_peer \<times> 'w, 'x, bool) prog"
where
  "send_ping lib cid sent =
     bnd (gets (\<lambda>s. up_open (fst s))) (\<lambda>opened.
     if \<not> sent \<and> opened = Some cid then bnd (peer_write lib cid ping_text) (\<lambda>_. ret True) else ret sent)"

definition send_pong :: "('rtc, 'p) rtc_lib \<Rightarrow> ('rtc udp_peer \<times> 'w, 'x, unit) prog" where
  "send_pong lib =
     bnd (gets fst) (\<lambda>r.
     case up_open r of
       None \<Rightarrow> ret ()
     | Some i \<Rightarrow>
         if ping_text \<in> set (up_got r) \<and> pong_sent \<notin> set (up_got r) then
           bnd (peer_write lib i pong_text) (\<lambda>_. modify (\<lambda>(p, w). (p\<lparr>up_got := up_got p @ [pong_sent]\<rparr>, w)))
         else ret ())"

primrec pair_loop ::
  "'w os \<Rightarrow> ('rtc, 'p) rtc_lib \<Rightarrow> nat \<Rightarrow> nat \<Rightarrow> nat \<Rightarrow> instant \<Rightarrow> bool \<Rightarrow>
   (('rtc, 'w) pair_run, 'x, bool) prog"
where
  "pair_loop sys lib fl cid 0 begun sent = hang"
| "pair_loop sys lib fl cid (Suc n) begun sent =
     bnd (on_snd (on_snd (ext_total (os_now sys)))) (\<lambda>t.
     if secs 10 \<le> t - begun then ret False
     else
       bnd (on_l (peer_drive sys lib fl)) (\<lambda>_.
       bnd (on_r (peer_drive sys lib fl)) (\<lambda>_.
       bnd (on_l (peer_pump sys lib)) (\<lambda>_.
       bnd (on_r (peer_pump sys lib)) (\<lambda>_.
       bnd (on_l (send_ping lib cid sent)) (\<lambda>sent1.
       bnd (on_r (send_pong lib)) (\<lambda>_.
       bnd (gets (\<lambda>(l, r, w). pong_text \<in> set (up_got l))) (\<lambda>good.
       if good then ret True else pair_loop sys lib fl cid n begun sent1))))))))"

text \<open>From the offer to the result, with the milliseconds it took, and the program after its argument.\<close>

definition pair_exchange ::
  "('w, 'rtc, 'p) pair_calls \<Rightarrow> 'w os \<Rightarrow> ('rtc, 'p) rtc_lib \<Rightarrow> nat \<Rightarrow>
   (('rtc, 'w) pair_run, 'x, bool \<times> nat) prog"
where
  "pair_exchange pl sys lib fl =
     bnd (negotiate pl lib) (\<lambda>cid.
     bnd (on_snd (on_snd (ext_total (os_now sys)))) (\<lambda>begun.
     bnd (pair_loop sys lib fl cid fl begun False) (\<lambda>good.
     bnd (on_snd (on_snd (ext_total (os_now sys)))) (\<lambda>t. ret (good, (t - begun) div millis 1)))))"

definition pair_main ::
  "('w, 'rtc, 'p) pair_calls \<Rightarrow> 'w os \<Rightarrow> ('rtc, 'p) rtc_lib \<Rightarrow> nat \<Rightarrow> ip_addr \<Rightarrow> ('w, 'x, bool \<times> nat) prog"
where
  "pair_main pl sys lib fl ip =
     bnd (udp_peer_new pl sys lib ip) (\<lambda>l.
     bnd (udp_peer_new pl sys lib ip) (\<lambda>r w.
     case pair_exchange pl sys lib fl (l, r, w) of (res, s) \<Rightarrow> (res, snd (snd s))))"

definition pair_exit :: "bool \<Rightarrow> nat" where
  "pair_exit good = (if good then 0 else 1)"

section \<open>The program returns\<close>

abbreviation pair_clock :: "('w \<Rightarrow> nat) \<Rightarrow> ('rtc, 'w) pair_run \<Rightarrow> nat" where
  "pair_clock clk \<equiv> \<lambda>s. clk (snd (snd s))"

lemma tame_must [tame_intros]: "tame clk m \<Longrightarrow> tame clk (must m)"
  unfolding must_def by (intro tame_intros)

lemma wp_engine:
  "wp (engine op) Q s =
     (case op (up_rtc (fst s)) of
        (Inl e, r) \<Rightarrow> Q (Err e) ((fst s)\<lparr>up_rtc := r\<rparr>, snd s)
      | (Inr a, r) \<Rightarrow> Q (Ok a) ((fst s)\<lparr>up_rtc := r\<rparr>, snd s))"
  by (auto simp: wp_def engine_def split: prod.splits sum.splits)

lemma tame_engine [tame_intros]: "tame (\<lambda>s. clk (snd s)) (engine op)"
  by (auto simp: tame_def wp_engine split: prod.splits sum.splits)

lemma wp_on_l: "wp (on_l m) Q s = wp m (\<lambda>r t. Q r (fst t, fst (snd s), snd t)) (fst s, snd (snd s))"
  by (auto simp: wp_def on_l_def split: prod.splits)

lemma tame_on_l [tame_intros]: "tame (\<lambda>s. clk (snd s)) m \<Longrightarrow> tame (pair_clock clk) (on_l m)"
  by (auto simp: tame_def wp_on_l elim!: wp_mono dest!: spec)

lemma tame_on_r [tame_intros]: "tame (\<lambda>s. clk (snd s)) m \<Longrightarrow> tame (pair_clock clk) (on_r m)"
  by (rule tame_on_snd [where clk = "\<lambda>s. clk (snd s)"])

lemma rtc_noted [simp]: "up_rtc (peer_noted ev p) = up_rtc p"
  by (cases "(ev, p)" rule: peer_noted.cases) simp_all

lemma drive_wp:
  fixes s :: "'rtc udp_peer \<times> 'w"
  assumes "os_ok clk sys" "drains lib work k" "work (up_rtc (fst s)) < n"
  shows "wp (peer_drive sys lib n :: (_, 'x, _) prog) (\<lambda>r s'. r \<noteq> Hang \<and> clk (snd s) \<le> clk (snd s')) s"
  using assms(3)
proof (induction n arbitrary: s)
  case (Suc n)
  show ?case
  proof (cases "rtc_poll_output lib (up_rtc (fst s))")
    case (Pair v r)
    have IH: "wp (peer_drive sys lib n :: (_, 'x, _) prog) (\<lambda>x s'. x \<noteq> Hang \<and> clk (snd s) \<le> clk (snd s')) (p, w)"
      if "up_rtc p = r" "v = Inr out" "\<nexists>t. out = OTimeout t" "clk (snd s) \<le> clk w" for p w out
    proof -
      have "work r < work (up_rtc (fst s))"
        using drainsD [OF assms(2) Pair [unfolded that(2)]] that(3) by blast
      with Suc.prems have "work (up_rtc (fst (p, w))) < n" using that(1) by simp
      from Suc.IH [OF this] show ?thesis by (rule wp_mono) (use that(4) in auto)
    qed
    have snd_clk: "clk (snd s) \<le> clk w'" if "udp_send sys h b a (snd s) = (x, w')" for h b a x w'
      using keepsD [OF os_okD(2) [OF assms(1)] that] .
    show ?thesis
      using Pair
      by (auto simp: must_def wp_rules wp_engine wp_modify split: sum.splits rtc_output.splits prod.splits
          intro!: IH dest: snd_clk)
  qed
qed simp

lemma tame_drive:
  assumes "os_ok clk sys" "drains lib work k" "k \<le> n"
  shows "tame (\<lambda>s. clk (snd s)) (peer_drive sys lib n)"
proof (rule tameI)
  fix s :: "'b udp_peer \<times> 'a"
  have "work (up_rtc (fst s)) < n" using assms(2,3) by (auto simp: drains_def intro: less_le_trans)
  then show "wp (peer_drive sys lib n) (\<lambda>r s'. r \<noteq> Hang \<and> clk (snd s) \<le> clk (snd s')) s"
    using assms(1,2) by (intro drive_wp)
qed

lemma keeps_now: "ticking clk sys \<Longrightarrow> keeps clk (os_now sys)"
  unfolding ticking_def keeps_def by (auto intro: less_imp_le)

lemma tame_peer_pump:
  assumes "os_ok clk sys"
  shows "tame (\<lambda>s. clk (snd s)) (peer_pump sys lib)"
proof -
  note os = os_okD [OF assms]
  have heard: "tame (\<lambda>s. clk (snd s)) (case got of
            None \<Rightarrow> ret ()
          | Some (buf, source) \<Rightarrow>
              bnd (on_snd (ext_total (os_now sys))) (\<lambda>t.
              bnd (gets (\<lambda>s. up_addr (fst s))) (\<lambda>addr.
              if \<not> rtc_datagram_ok lib buf then panic
              else must (engine (rtc_receive lib t source addr buf)))))" for got
    by (auto intro!: tame_intros keeps_now os split: option.splits)
  show ?thesis
    unfolding peer_pump_def by (intro tame_intros heard keeps_now os)
qed

lemma tame_sends:
  "tame (\<lambda>s. clk (snd s)) (send_ping lib cid sent)" "tame (\<lambda>s. clk (snd s)) (send_pong lib)"
proof -
  have wrote: "tame (\<lambda>s. clk (snd s)) (peer_write lib i d)" for i d
    unfolding peer_write_def by (auto intro!: tame_intros)
  show "tame (\<lambda>s. clk (snd s)) (send_ping lib cid sent)"
    unfolding send_ping_def by (auto intro!: tame_intros wrote)
  show "tame (\<lambda>s. clk (snd s)) (send_pong lib)"
    unfolding send_pong_def by (auto intro!: tame_intros tame_modify wrote split: option.splits prod.splits)
qed

lemma pair_loop_returns:
  fixes s :: "('rtc, 'w) pair_run"
  assumes "os_ok clk sys" "drains lib work k" "k \<le> fl" "0 < n" "begun + secs 10 < clk (snd (snd s)) + n"
  shows "tame_at (pair_clock clk) (pair_loop sys lib fl cid n begun sent :: (_, 'x, _) prog) s"
  using assms(4,5)
proof (induction n arbitrary: s sent)
  case (Suc n)
  note os = os_okD [OF assms(1)]
  obtain t w' where now: "os_now sys (snd (snd s)) = (t, w')" by fastforce
  note tick = tickingD [OF os(1) now]
  have round: "tame_at (pair_clock clk) (if secs 10 \<le> t - begun then ret False
     else
       bnd (on_l (peer_drive sys lib fl)) (\<lambda>_.
       bnd (on_r (peer_drive sys lib fl)) (\<lambda>_.
       bnd (on_l (peer_pump sys lib)) (\<lambda>_.
       bnd (on_r (peer_pump sys lib)) (\<lambda>_.
       bnd (on_l (send_ping lib cid sent)) (\<lambda>sent1.
       bnd (on_r (send_pong lib)) (\<lambda>_.
       bnd (gets (\<lambda>(l, r, w). pong_text \<in> set (up_got l))) (\<lambda>good.
       if good then ret True else pair_loop sys lib fl cid n begun sent1))))))) :: (_, 'x, _) prog) (fst s, fst (snd s), w')"
  proof (cases "secs 10 \<le> t - begun")
    case False
    have again: "tame_at (pair_clock clk) (pair_loop sys lib fl cid n begun sent1 :: (_, 'x, _) prog) u"
      if "clk w' \<le> clk (snd (snd u))" for u :: "('rtc, 'w) pair_run" and sent1
      using that tick Suc.prems False by (intro Suc.IH) linarith+
    show ?thesis
      using False
      by (simp, intro tame_at_bnd tame_at_gets tame_at [OF tame_on_l] tame_at [OF tame_on_r] tame_drive [OF assms(1-3)]
          tame_peer_pump [OF assms(1)] tame_sends) (auto intro: tame_at [OF tame_ret] again)
  qed (simp add: tame_at tame_ret)
  show ?case
    using round tick
    by (auto simp: tame_at_def wp_bnd [of "on_snd _"] wp_on_snd wp_ext_total now elim!: wp_mono)
qed simp

text \<open>It says that it succeeded only when the left peer has got its pong.\<close>

lemma pair_loop_result:
  "wp (pair_loop sys lib fl cid n begun sent :: (_, 'x, _) prog) (\<lambda>r s. r = Ok True \<longrightarrow> pong_text \<in> set (up_got (fst s))) s"
proof (induction n arbitrary: s sent)
  case (Suc n)
  let ?Q = "\<lambda>r s. r = Ok True \<longrightarrow> pong_text \<in> set (up_got (fst s))"
  have last: "wp (bnd (gets (\<lambda>(l, r, w). pong_text \<in> set (up_got l))) (\<lambda>good.
       if good then ret True else pair_loop sys lib fl cid n begun sent1) :: (_, 'x, _) prog) ?Q u" for sent1 u
    using Suc.IH by (auto simp: wp_bnd wp_gets wp_ret split: prod.splits)
  show ?case
    unfolding pair_loop.simps
  proof (rule wp_bnd_any)
    fix t u
    show "wp (if secs 10 \<le> t - begun then ret False
     else
       bnd (on_l (peer_drive sys lib fl)) (\<lambda>_.
       bnd (on_r (peer_drive sys lib fl)) (\<lambda>_.
       bnd (on_l (peer_pump sys lib)) (\<lambda>_.
       bnd (on_r (peer_pump sys lib)) (\<lambda>_.
       bnd (on_l (send_ping lib cid sent)) (\<lambda>sent1.
       bnd (on_r (send_pong lib)) (\<lambda>_.
       bnd (gets (\<lambda>(l, r, w). pong_text \<in> set (up_got l))) (\<lambda>good.
       if good then ret True else pair_loop sys lib fl cid n begun sent1))))))) :: (_, 'x, _) prog) ?Q u"
    proof (cases "secs 10 \<le> t - begun")
      case False
      show ?thesis
        unfolding if_not_P [OF False]
        by (rule wp_bnd_any, rule wp_bnd_any, rule wp_bnd_any, rule wp_bnd_any, rule wp_bnd_any, rule wp_bnd_any,
            rule last, simp_all)
    qed (simp add: wp_ret)
  qed simp_all
qed (simp add: wp_hang)

text \<open>With fuel for ten seconds and for the outputs of the engine, the program ends.\<close>

lemma never_hangs: "keeps (\<lambda>_. 0) op"
  by (simp add: keeps_def)

lemma pair_main_returns:
  fixes lib :: "('rtc, 'p) rtc_lib"
  assumes "os_ok clk sys" "drains lib work k" "k \<le> fl" "secs 10 < fl"
  shows "fst (pair_main pl sys lib fl ip w :: ('x, bool \<times> nat) res \<times> 'w) \<noteq> Hang"
proof -
  note os = os_okD [OF assms(1)]
  have new: "tame (\<lambda>_. 0) (udp_peer_new pl sys lib ip :: ('w, 'x, _) prog)"
    unfolding udp_peer_new_def by (intro tame_intros never_hangs)
  have engine: "tame (\<lambda>_. 0) (engine op :: ('rtc udp_peer \<times> 'w, ustr, _) prog)" for op :: "'rtc \<Rightarrow> (ustr + 'c) \<times> 'rtc"
    by (rule tame_engine [where clk = "\<lambda>_. 0"])
  let ?last = "\<lambda>cid. bnd (on_snd (on_snd (ext_total (os_now sys)))) (\<lambda>begun.
           bnd (pair_loop sys lib fl cid fl begun False) (\<lambda>good.
           bnd (on_snd (on_snd (ext_total (os_now sys)))) (\<lambda>t. ret (good, (t - begun) div millis 1))))"
  have last: "wp (?last cid :: (('rtc, 'w) pair_run, 'x, _) prog) (\<lambda>r _. r \<noteq> Hang) s" for cid s
  proof -
    obtain t w' where now: "os_now sys (snd (snd s)) = (t, w')" by fastforce
    note tick = tickingD [OF os(1) now]
    have "wp (pair_loop sys lib fl cid fl t False :: (_, 'x, _) prog) (\<lambda>r _. r \<noteq> Hang) (fst s, fst (snd s), w')"
    proof (rule wp_mono [OF pair_loop_returns [OF assms(1-3), unfolded tame_at_def]])
      show "0 < fl" "t + secs 10 < clk (snd (snd (fst s, fst (snd s), w'))) + fl" using tick assms(4) by simp_all
    qed simp
    then show ?thesis
      by (simp add: wp_bnd [of "on_snd _"] wp_on_snd wp_ext_total now wp_bnd [of "pair_loop _ _ _ _ _ _ _"])
        (auto simp: after_def wp_bnd wp_on_snd wp_ext_total wp_ret elim!: wp_mono split: res.splits prod.splits)
  qed
  have negotiated: "tame (\<lambda>_. 0) (negotiate pl lib :: (('rtc, 'w) pair_run, 'x, _) prog)"
    unfolding negotiate_def
    by (intro tame_intros tame_on_l [where clk = "\<lambda>_. 0"] tame_on_r [where clk = "\<lambda>_. 0"] engine)
      (auto intro!: tame_intros tame_on_l [where clk = "\<lambda>_. 0"] tame_on_r [where clk = "\<lambda>_. 0"] engine split: prod.splits)
  have exchange: "wp (pair_exchange pl sys lib fl :: (('rtc, 'w) pair_run, 'x, _) prog) (\<lambda>r _. r \<noteq> Hang) s" for s
    unfolding pair_exchange_def wp_bnd [of "negotiate _ _"]
    by (rule wp_tame [OF negotiated]) (auto simp: after_def last simp del: One_nat_def split: res.splits)
  have run: "wp (\<lambda>w. case pair_exchange pl sys lib fl (l, r, w) of
       (res :: ('x, _) res, s) \<Rightarrow> (res, snd (snd s))) (\<lambda>r _. r \<noteq> Hang) v" for l r v
    using exchange [of "(l, r, v)"] by (simp add: wp_def split: prod.splits)
  have second: "wp (bnd (udp_peer_new pl sys lib ip) (\<lambda>r w.
     case pair_exchange pl sys lib fl (l, r, w) of (res :: ('x, _) res, s) \<Rightarrow> (res, snd (snd s))))
     (\<lambda>r _. r \<noteq> Hang) v" for l v
    unfolding wp_bnd by (rule wp_tame [OF new]) (auto simp: after_def run split: res.splits)
  have "wp (pair_main pl sys lib fl ip :: ('w, 'x, _) prog) (\<lambda>r _. r \<noteq> Hang) w"
    unfolding pair_main_def
    by (subst wp_bnd, rule wp_tame [OF new], auto simp: after_def second split: res.splits)
  then show ?thesis by (simp add: wp_def split: prod.splits)
qed

end
