(* ===== verification/SpikeService.thy ===== *)
theory SpikeService
  imports Net AuthCode
begin

text \<open>
  \<open>spikes/wix/service/src/main.rs\<close>: the service that tries out the installer.  The service manager, the
  file system and the clock are parameters; the handler runs on a thread of the manager, so a wait
  of the service comes with the controls that have arrived since the last one; the manager keeps the handler,
  and with it the sending end of the channel, as long as the process lives.  The state carries the
  list of what the service has done, a ghost variable.
\<close>

section \<open>The surroundings\<close>

datatype control_event = Interrogate | StopControl | OtherControl

datatype handler_result = HandledOk | NotImplemented

datatype service_status = Running | Stopped

datatype service_act =
    Reported service_status bool \<comment> \<open>the state, and whether a stop is accepted\<close>
  | Removed
  | Slept duration

record 'w service_os =
  sv_register :: "'w \<Rightarrow> (ustr + unit) \<times> 'w"
  sv_report :: "service_status \<Rightarrow> bool \<Rightarrow> 'w \<Rightarrow> (ustr + unit) \<times> 'w"
  sv_open_log :: "'w \<Rightarrow> bool \<times> 'w"
  sv_unix_secs :: "'w \<Rightarrow> nat option \<times> 'w"
  sv_write :: "ustr \<Rightarrow> 'w \<Rightarrow> (ustr + unit) \<times> 'w"
  sv_marker :: "'w \<Rightarrow> bool \<times> 'w"
  sv_remove :: "'w \<Rightarrow> (ustr + unit) \<times> 'w"
  sv_sleep :: "duration \<Rightarrow> 'w \<Rightarrow> unit \<times> 'w"
  sv_wait :: "duration \<Rightarrow> 'w \<Rightarrow> control_event list \<times> 'w"
  sv_pid :: nat

type_synonym 'w service_run = "service_act list \<times> nat \<times> 'w" \<comment> \<open>done, messages in the channel, world\<close>

section \<open>The service\<close>

text \<open>The control handler: its answer, and the messages it sends.\<close>

fun control_handler :: "control_event \<Rightarrow> handler_result \<times> nat" where
  "control_handler Interrogate = (HandledOk, 0)"
| "control_handler StopControl = (HandledOk, 1)"
| "control_handler OtherControl = (NotImplemented, 0)"

definition call :: "('w \<Rightarrow> 'a \<times> 'w) \<Rightarrow> ('w service_run, 'x, 'a) prog" where
  "call f = on_snd (on_snd (ext_total f))"

definition did :: "service_act \<Rightarrow> ('w service_run, 'x, unit) prog" where
  "did a = modify (\<lambda>(acts, r). (acts @ [a], r))"

definition service_log :: "'w service_os \<Rightarrow> ustr \<Rightarrow> ('w service_run, 'x, unit) prog" where
  "service_log sys line =
     bnd (call (sv_open_log sys)) (\<lambda>opened.
     if opened then
       bnd (call (sv_unix_secs sys)) (\<lambda>secs.
       bnd (call (sv_write sys (decimal (case secs of None \<Rightarrow> 0 | Some n \<Rightarrow> n) @ lit '' '' @ line @
              lit '' pid='' @ decimal (sv_pid sys) @ [10]))) (\<lambda>_. ret ()))
     else ret ())"

definition set_status ::
  "'w service_os \<Rightarrow> service_status \<Rightarrow> bool \<Rightarrow> ('w service_run, ustr, unit) prog"
where
  "set_status sys st accept =
     bnd (did (Reported st accept)) (\<lambda>_. bnd (call (sv_report sys st accept)) lift_sum)"

datatype waited = Message | TimedOutWait

text \<open>\<open>recv_timeout\<close>: the handler puts a message into the channel for every stop.\<close>

definition wait_stop :: "'w service_os \<Rightarrow> duration \<Rightarrow> ('w service_run, 'x, waited) prog" where
  "wait_stop sys d =
     bnd (call (sv_wait sys d)) (\<lambda>events.
     bnd (modify (\<lambda>(acts, n, w). (acts, n + sum_list (map (snd \<circ> control_handler) events), w))) (\<lambda>_.
     bnd (gets (\<lambda>(acts, n, w). n)) (\<lambda>n.
     if n = 0 then ret TimedOutWait
     else bnd (modify (\<lambda>(acts, n, w). (acts, n - 1, w))) (\<lambda>_. ret Message))))"

primrec service_loop :: "'w service_os \<Rightarrow> nat \<Rightarrow> ('w service_run, ustr, unit) prog" where
  "service_loop sys 0 = hang"
| "service_loop sys (Suc n) =
     bnd (wait_stop sys (secs 5)) (\<lambda>got.
     case got of
       Message \<Rightarrow> ret ()
     | TimedOutWait \<Rightarrow> bnd (service_log sys (lit ''running'')) (\<lambda>_. service_loop sys n))"

datatype service_end = Returned | Exited nat

text \<open>The simulated crash, and the service proper.\<close>

definition crash_once :: "'w service_os \<Rightarrow> ('w service_run, ustr, service_end) prog" where
  "crash_once sys =
     bnd (did Removed) (\<lambda>_. bnd (call (sv_remove sys)) (\<lambda>_.
     bnd (service_log sys (lit ''crash-once marker found, exiting with code 1'')) (\<lambda>_.
     bnd (did (Slept (secs 2))) (\<lambda>_. bnd (call (sv_sleep sys (secs 2))) (\<lambda>_. ret (Exited 1))))))"

definition serve_until_stop :: "'w service_os \<Rightarrow> nat \<Rightarrow> ('w service_run, ustr, service_end) prog" where
  "serve_until_stop sys n =
     bnd (service_loop sys n) (\<lambda>_.
     bnd (service_log sys (lit ''stopping'')) (\<lambda>_.
     bnd (set_status sys Stopped False) (\<lambda>_. ret Returned)))"

definition run_service :: "'w service_os \<Rightarrow> nat \<Rightarrow> ('w service_run, ustr, service_end) prog" where
  "run_service sys n =
     bnd (bnd (call (sv_register sys)) lift_sum) (\<lambda>_.
     bnd (set_status sys Running True) (\<lambda>_.
     bnd (service_log sys (lit ''started'')) (\<lambda>_.
     bnd (call (sv_marker sys)) (\<lambda>crash. if crash then crash_once sys else serve_until_stop sys n))))"

section \<open>What the manager is told\<close>

lemma wp_call: "wp (call f) Q s = Q (Ok (fst (f (snd (snd s))))) (fst s, fst (snd s), snd (f (snd (snd s))))"
  by (simp add: call_def wp_on_snd wp_ext_total split: prod.splits)

lemma wp_did: "wp (did a) Q s = Q (Ok ()) (fst s @ [a], snd s)"
  by (simp add: did_def wp_modify split: prod.splits)

text \<open>A part that reports nothing.\<close>

abbreviation silent :: "('w service_run, 'x, 'a) prog \<Rightarrow> bool" where
  "silent m \<equiv> \<forall>acts. preserves (\<lambda>s. fst s = acts) m"

lemma silent_call: "preserves (\<lambda>s. fst s = acts) (call f)"
  by (rule preservesI) (simp add: wp_call)

lemma silent_log: "preserves (\<lambda>s. fst s = acts) (service_log sys line)"
  unfolding service_log_def by (auto intro!: preserves_intros silent_call)

lemma silent_wait: "preserves (\<lambda>s. fst s = acts) (wait_stop sys d)"
proof -
  have "preserves (\<lambda>s. fst s = acts) (modify (\<lambda>(acts, n, w). (acts, f n w, w)))" for f :: "nat \<Rightarrow> 'a \<Rightarrow> nat"
    by (rule preservesI) (auto simp: wp_modify)
  then show ?thesis
    unfolding wait_stop_def by (auto intro!: preserves_intros silent_call)
qed

lemma silent_loop: "preserves (\<lambda>s. fst s = acts) (service_loop sys n)"
  by (induction n) (auto intro!: preserves_intros silent_wait silent_log split: waited.splits)

lemma wp_silent: "preserves (\<lambda>s. fst s = fst u) m \<Longrightarrow> (\<And>r s'. fst s' = fst u \<Longrightarrow> Q r s') \<Longrightarrow> wp m Q u"
  by (rule wp_mono [OF preserves_wp [where I = "\<lambda>s. fst s = fst u"]]) simp_all

lemma wp_bnd_silent:
  "preserves (\<lambda>s. fst s = fst u) m \<Longrightarrow> (\<And>a s'. fst s' = fst u \<Longrightarrow> wp (f a) Q s') \<Longrightarrow>
   (\<And>r s'. \<forall>a. r \<noteq> Ok a \<Longrightarrow> Q r s') \<Longrightarrow> wp (bnd m f) Q u"
  unfolding wp_bnd by (rule wp_silent) (auto simp: after_def split: res.splits)

text \<open>Whatever happens around it, a service that returns has told the manager that it runs and accepts a stop,
  and then that it has stopped; and one that takes the marker has removed it, leaves with code 1 after two
  seconds and never says that it has stopped.\<close>

lemma service_tells_manager:
  assumes "run_service sys n ([], 0, w) = (r, s')"
  shows "(r = Ok Returned \<longrightarrow> fst s' = [Reported Running True, Reported Stopped False]) \<and>
    (\<forall>c. r = Ok (Exited c) \<longrightarrow> c = 1 \<and> fst s' = [Reported Running True, Removed, Slept (secs 2)])"
proof -
  let ?Q = "\<lambda>r s. (r = Ok Returned \<longrightarrow> fst s = [Reported Running True, Reported Stopped False]) \<and>
     (\<forall>c. r = Ok (Exited c) \<longrightarrow> c = 1 \<and> fst s = [Reported Running True, Removed, Slept (secs 2)])"
  have status: "wp (bnd (set_status sys st acc) k) ?Q u"
    if "\<And>v. fst v = fst u @ [Reported st acc] \<Longrightarrow> wp (k ()) ?Q v" for st acc u and k :: "unit \<Rightarrow> ('a service_run, ustr, service_end) prog"
    using that by (cases "fst (sv_report sys st acc (snd (snd u)))")
      (auto simp: set_status_def wp_bnd wp_did wp_call wp_lift_sum wp_fail wp_ret)
  have serve: "wp (serve_until_stop sys n) ?Q u" if "fst u = [Reported Running True]" for u
    unfolding serve_until_stop_def
    by (intro wp_bnd_silent [OF silent_loop] wp_bnd_silent [OF silent_log] status)
      (simp_all add: wp_ret that)
  have crash: "wp (crash_once sys) ?Q u" if "fst u = [Reported Running True]" for u
    unfolding crash_once_def wp_bnd [of "did Removed"] wp_did after_simps wp_bnd [of "call (sv_remove sys)"] wp_call
    by (rule wp_bnd_silent [OF silent_log]) (simp_all add: that wp_bnd wp_did wp_call wp_ret)
  have run: "wp (bnd (service_log sys (lit ''started'')) (\<lambda>_.
     bnd (call (sv_marker sys)) (\<lambda>crash. if crash then crash_once sys else serve_until_stop sys n))) ?Q u"
    if "fst u = [Reported Running True]" for u
    by (intro wp_bnd_silent [OF silent_log] wp_bnd_silent [OF silent_call])
      (simp_all add: that crash serve del: One_nat_def)
  have "wp (run_service sys n) ?Q ([], 0, w)"
    unfolding run_service_def wp_bnd [of "bnd (call _) _"] wp_bnd [of "call (sv_register _)"] wp_call
    by (cases "fst (sv_register sys w)") (auto simp: wp_lift_sum wp_fail wp_ret simp del: One_nat_def intro!: status run)
  from wpD [OF this assms] show ?thesis by simp
qed

text \<open>A stop that arrives during a wait ends the loop in that round.\<close>

lemma stop_ends_loop:
  assumes "StopControl \<in> set (fst (sv_wait sys (secs 5) w))"
  shows "\<exists>s'. service_loop sys (Suc n) (acts, 0, w) = (Ok (), s')"
proof -
  obtain events w' where e: "sv_wait sys (secs 5) w = (events, w')" by fastforce
  then have "StopControl \<in> set events" using assms by simp
  then have "\<not> (\<forall>c \<in> set events. snd (control_handler c) = 0)"
    by (metis control_handler.simps(2) snd_conv zero_neq_one)
  then show ?thesis
    by (auto simp: wait_stop_def call_def run_simps on_snd_def ext_total_def e modify_def)
qed

end
