(* ===== verification/Spec2Isabelle.thy ===== *)
theory Spec2Isabelle
  imports Sealed SignalingHex Identity Attempts AuthCode Pake Net Link Peer Channel Flow HostSession HostProtocol HostSafety HostAccount HostAuth HostTheorems
    ViewerConnect ViewerProtocol ViewerSafety ViewerTheorems Agreement ViewerReturns HostReturns
    Register FakeSignal Approver Console Linked HostApp HostMain BruteForce Apart Terminal Consent Transcript ViewerApp ViewerMain
    Pointer Encoder Frames Pair SpikeService
begin

text \<open>
  A verification library for simple-remote: a viewer connects to a host by a nine-digit id and a
  six-digit one-time code, over a signaling server that neither of them trusts.

  \<^bold>\<open>The program.\<close>  The host registers with the signaling server (\<open>register.rs\<close>) and waits; the
  viewer joins by the id.  Through the server they exchange four relayed messages: Start, Reply,
  Confirm and Answer.  Start, Reply and Confirm are a SPAKE2 exchange on the code (\<open>pake.rs\<close>); Confirm
  and Answer carry the SDP offer and answer, sealed under the keys it yields (\<open>sealed.rs\<close>).  Then both
  open a WebRTC data channel (\<open>peer.rs\<close>, \<open>channel.rs\<close>), send each other a signed Hello (\<open>identity.rs\<close>)
  bound to the exchange and to the DTLS fingerprints, and the host asks its user (\<open>main.rs\<close>).  A
  limiter (\<open>attempts.rs\<close>) slows down guesses and replaces the code.

  \<^bold>\<open>Reading the model.\<close>  A function that reads or changes state is a program: a function from the state
  to an outcome and the next state (\<open>Programs\<close>).  \<open>Ok\<close> and \<open>Err\<close> are Rust's \<open>Result\<close>, \<open>Panic\<close> is a
  failed \<open>expect\<close>, and \<open>Hang\<close> says that a loop has not returned within its fuel; statements of the
  form "every run" speak of what has happened up to there even then, and the loops that are claimed
  to end have theorems of their own.  Machine integers keep their width (\<open>u8\<close>, \<open>u16\<close>, \<open>u32\<close>, \<open>u64\<close> are
  words), times are nanoseconds, strings are lists of Unicode scalar values.  Dropping a value at the
  end of its scope is a step (\<open>scoped\<close>, \<open>owning_link\<close> in \<open>Flow\<close>).

  \<^bold>\<open>Parameters.\<close>  Code outside the repository is an argument: the operating system (record \<open>os\<close>), the
  sans-IO engine str0m (\<open>rtc_lib\<close>), tungstenite and \<open>http::Uri\<close> (\<open>ws_lib\<close>), postcard and hex
  (\<open>wire\<close>), serde_json (\<open>json\<close>), the AEAD cipher (\<open>aead\<close>), SPAKE2 with its hashes (\<open>spake\<close>), Ed25519, X25519
  and SHA-256 (\<open>id_lib\<close>).  What the code relies on is a named hypothesis: \<open>wire_ok\<close> (decoding inverts
  encoding), \<open>aead_ok\<close> (decryption inverts encryption and accepts nothing else), \<open>spake_ok\<close> (two
  parties with the same password agree), \<open>sigs_ok\<close>, \<open>os_ok\<close> and \<open>ticking\<close> (the clock advances with every
  reading), \<open>drains\<close> (the engine ends its outputs with a \<open>Timeout\<close>).  Each has a concrete
  instance, and each property with a hypothesis a witness that runs on it.

  \<^bold>\<open>The theories\<close>, each after the ones it uses:

  \<^item> \<open>Prelude\<close>, \<open>Programs\<close>: bytes, strings, UTF-8, big-endian numbers; outcomes, sequencing, \<open>wp\<close>.
  \<^item> \<open>Protocol\<close>: \<open>crates/protocol\<close> (\<open>Control\<close>, \<open>PakeMsg\<close>, signaling messages, stages, timeouts).
  \<^item> \<open>AuthCode\<close>, \<open>Identity\<close>, \<open>Pake\<close>, \<open>Sealed\<close>: \<open>crates/auth\<close>.  Codes are uniform and parse back; a Hello is
    verified exactly when its checks hold, and only for the session it was made for; both ends agree on
    keys exactly when code and id agree; nonces are never used twice and a receiver accepts a prefix
    of what was sent (locale \<open>counted_step\<close>, interpreted for both ends).
  \<^item> \<open>Net\<close>, \<open>Link\<close>, \<open>Peer\<close>, \<open>Channel\<close>, \<open>FakeSignal\<close>: \<open>crates/transport\<close>.  Insecure URLs are refused before
    any outside call; a closed link stays closed (locale \<open>sticky_link\<close>, interpreted for the WebSocket
    link and both ends of the hub); the waits end; the pending messages are a queue (locale \<open>fifo\<close>);
    under every interleaving of its users the hub keeps order (\<open>hub_inv\<close>).
  \<^item> \<open>Attempts\<close>: \<open>attempts.rs\<close> (locale \<open>backoff_gate\<close>): the back-off, and the bound on guesses.
  \<^item> \<open>Flow\<close>: what both connection flows share, with the history of a run, a ghost variable that lists the
    events it has gone through, and the paths of a machine (\<open>path\<close>, \<open>went\<close>).
  \<^item> \<open>HostSession\<close>: \<open>session.rs\<close>, one definition per part of \<open>serve_next\<close>, \<open>attempt\<close> and \<open>handshake\<close>.
    \<open>HostProtocol\<close>: the machine \<open>hstep\<close> and the refinement \<open>serve_next_run\<close>.  \<open>HostSafety\<close>: milestones, kicks
    and drops along a path.  \<open>HostAccount\<close>: the limiter and the code at the end are those of the
    history.  \<open>HostAuth\<close>: the evidence behind a session.  \<open>HostSample\<close>, \<open>SessionSample\<close>: runs for the
    witnesses.  \<open>HostTheorems\<close>: the properties of every run of \<open>serve_next\<close>.
  \<^item> \<open>ViewerConnect\<close>, \<open>ViewerProtocol\<close>, \<open>ViewerSafety\<close>, \<open>ViewerSample\<close>, \<open>ViewerTheorems\<close>: the same for
    \<open>connect.rs\<close>, with a machine whose phases carry the keys and identities a run holds.
  \<^item> \<open>Agreement\<close>: the two ends together.  Over a network that may drop and delay but does not alter
    messages, two sessions hold the same keys, and each end the identity the other presented.
  \<^item> \<open>Punctual\<close>, \<open>ViewerReturns\<close>, \<open>HostReturns\<close>: time.  The backlog of a channel, its pending messages and
    those that can arrive before a deadline, pays for the rounds of the loops, so \<open>connect\<close>, \<open>attempt\<close> and
    \<open>serve_pings\<close> return whatever the other end does.
  \<^item> \<open>Register\<close>: \<open>register.rs\<close>.  \<open>Console\<close>: exit codes and the texts of errors.  \<open>Linked\<close>: the outside of a
    program (\<open>crates\<close>) and its connection flow on the \<open>WsLink\<close> it owns; \<open>linked_punctual\<close> shows that this link
    is what the flows ask of theirs.
  \<^item> \<open>Approver\<close>, \<open>HostApp\<close>, \<open>HostMain\<close>: \<open>apps/host-agent/src/main.rs\<close>, with the reader thread of the approval
    as steps that interleave with the questions.  \<open>BruteForce\<close>: the bound on guesses over the whole life of
    the host program.
  \<^item> \<open>Apart\<close>, \<open>Terminal\<close>, \<open>Consent\<close>, \<open>Transcript\<close>: the screen and the keyboard of the host.  The console of the
    loop is the approver and the lines printed, a part of the world that the steps of a run leave alone
    (\<open>apart\<close>); so a run shows at most one question, a session rests on its answer, and over the life of the
    program every \<open>CONNECTED\<close> line has its question and its \<open>y\<close> above it.
  \<^item> \<open>ViewerApp\<close>, \<open>ViewerMain\<close>: \<open>apps/viewer/src/main.rs\<close> with its sentences and exit codes; the program
    returns.
  \<^item> \<open>SignalingHex\<close>: \<open>signaling/src/hex.ts\<close>, the hex codec at the other end of the relays.
  \<^item> \<open>Pointer\<close>, \<open>Encoder\<close>, \<open>Frames\<close>, \<open>Pair\<close>, \<open>SpikeService\<close>: the programs under \<open>spikes\<close> that have logic of their
    own.  Mouse positions in \<open>i32\<close> arithmetic stay in range and tell the pixels apart; the encoder is fed every
    frame once and in time; the pacing never exceeds thirty frames a second; the exchange of two peers ends;
    the service tells its manager that it has stopped exactly when it returns.

  \<^bold>\<open>Fuel.\<close>  \<open>l_fuel\<close> bounds every loop of a flow.  A loop up to a deadline reads the clock once a round, so
  fuel above the waiting time in ticks is enough (\<open>channel_waits_return\<close>, \<open>peer_poll_returns\<close>,
  \<open>ws_recv_terminates\<close>, \<open>register_host_returns\<close>).  A loop that goes round for every message needs the
  messages that can arrive in that time as well: \<open>viewer_fuel\<close> and \<open>host_fuel\<close> say how much, and
  \<open>connect_returns\<close>, \<open>attempt_returns\<close> and \<open>serve_pings_returns\<close> that it is enough.  \<open>viewer_program_fuel\<close> is
  enough for the whole viewer program (\<open>viewer_main_returns\<close>).  \<open>serve_next\<close> waits for a viewer as long
  as none comes, and the loop of the host goes on for ever unless \<open>--once\<close> is given, so both may use up
  any fuel; what is claimed of them holds of every run however far it got.

  \<^bold>\<open>Not modelled.\<close>  The TypeScript of the signaling server beyond \<open>hex.ts\<close>; the \<open>Debug\<close> outputs that
  only hide secrets; the blocking inside
  \<open>recv_timeout\<close> of the hub (a receive is one step that finds a message or none); the \<open>Mutex\<close>
  (each operation of the hub is one step); the parts of the spikes that only set up system interfaces
  (Direct3D, Media Foundation, DPAPI, fonts and widgets) and their floating-point statistics; the tests.
\<close>

end
